(* ===== verification/KPrelude.thy ===== *)
theory KPrelude
  imports Main "HOL-Library.Word"
begin

text \<open>
  Shared vocabulary of the development.

  \<^item> Machine integers of the C code as words (\<open>u8\<close>, \<open>u32\<close>, \<open>u64\<close>).
  \<^item> The result of running a piece of the runtime. C functions of the runtime return, or
    never return to their caller: \<open>kspecem_restore_registers\<close> jumps back to the
    checkpoint (\<open>Resume\<close>), the kernel's \<open>panic\<close> stops the machine (\<open>Panic\<close>), and an
    access through a NULL pointer or past the end of an array is undefined (\<open>Fault\<close>).
  \<^item> Combinators that put such pieces in sequence, in the order of the C statements.
  \<^item> A Hoare-style judgement for them, with one rule per combinator, and a relational one for
    code that does not depend on a callback.
  \<^item> Two interfaces used by several components: a table that takes entries until it is
    full, and a machine whose steps keep an invariant.
\<close>

unbundle bit_operations_syntax

section \<open>Machine integers\<close>

type_synonym u8 = "8 word"
type_synonym u16 = "16 word"
type_synonym u32 = "32 word"
type_synonym u64 = "64 word"

named_theorems km_simps \<open>evaluation of the statement combinators\<close>
named_theorems hoare_rules \<open>one rule per statement combinator\<close>

lemma less_plus_1: "(x :: u64) \<noteq> - 1 \<Longrightarrow> x < x + 1"
  using unatSuc [of x] by (auto simp: word_less_nat_alt add.commute add_eq_0_iff)

section \<open>Lists\<close>

lemma takeWhile_snoc_fail [simp]: "\<not> P y \<Longrightarrow> takeWhile P (ys @ [y]) = takeWhile P ys"
  by (induction ys) auto

lemma dropWhile_snoc_fail [simp]: "\<not> P y \<Longrightarrow> dropWhile P (ys @ [y]) = dropWhile P ys @ [y]"
  by (induction ys) auto

section \<open>Outcomes of a piece of C code\<close>

datatype ('s, 'a) outcome =
    Ret 'a 's
  | Resume 's
  | Panic "string list" 's
  | Fault string 's

type_synonym ('s, 'a) km = "'s \<Rightarrow> ('s, 'a) outcome"

definition returnM :: "'a \<Rightarrow> ('s, 'a) km" where
  "returnM x s = Ret x s"

definition bindM :: "('s, 'a) km \<Rightarrow> ('a \<Rightarrow> ('s, 'b) km) \<Rightarrow> ('s, 'b) km" where
  "bindM m f s = (case m s of
       Ret x t \<Rightarrow> f x t
     | Resume t \<Rightarrow> Resume t
     | Panic p t \<Rightarrow> Panic p t
     | Fault e t \<Rightarrow> Fault e t)"

definition thenM :: "('s, unit) km \<Rightarrow> ('s, 'b) km \<Rightarrow> ('s, 'b) km" where
  "thenM m k = bindM m (\<lambda>_. k)"

definition ignoreM :: "('s, 'a) km \<Rightarrow> ('s, unit) km" where
  "ignoreM m = bindM m (\<lambda>_. returnM ())"

definition getM :: "('s \<Rightarrow> 'a) \<Rightarrow> ('s, 'a) km" where
  "getM f s = Ret (f s) s"

definition modifyM :: "('s \<Rightarrow> 's) \<Rightarrow> ('s, unit) km" where
  "modifyM f s = Ret () (f s)"

definition panicM :: "string list \<Rightarrow> ('s, 'a) km" where
  "panicM p s = Panic p s"

definition faultM :: "string \<Rightarrow> ('s, 'a) km" where
  "faultM e s = Fault e s"

definition ifM :: "('s \<Rightarrow> bool) \<Rightarrow> ('s, 'a) km \<Rightarrow> ('s, 'a) km \<Rightarrow> ('s, 'a) km" where
  "ifM c a b s = (if c s then a s else b s)"

definition whenM :: "('s \<Rightarrow> bool) \<Rightarrow> ('s, unit) km \<Rightarrow> ('s, unit) km" where
  "whenM c a = ifM c a (returnM ())"

text \<open>The statements of a block, one after the other.\<close>

primrec seqM :: "('s, unit) km list \<Rightarrow> ('s, unit) km" where
  "seqM [] = returnM ()"
| "seqM (m # ms) = thenM m (seqM ms)"

text \<open>The final state of a run and whether control came back to the caller.\<close>

primrec out_state :: "('s, 'a) outcome \<Rightarrow> 's" where
  "out_state (Ret x s) = s"
| "out_state (Resume s) = s"
| "out_state (Panic p s) = s"
| "out_state (Fault e s) = s"

lemma returnM_apply [simp, km_simps]: "returnM x s = Ret x s"
  by (simp add: returnM_def)

lemma getM_apply [simp, km_simps]: "getM f s = Ret (f s) s"
  by (simp add: getM_def)

lemma modifyM_apply [simp, km_simps]: "modifyM f s = Ret () (f s)"
  by (simp add: modifyM_def)

lemma panicM_apply [simp, km_simps]: "panicM p s = Panic p s"
  by (simp add: panicM_def)

lemma faultM_apply [simp, km_simps]: "faultM e s = Fault e s"
  by (simp add: faultM_def)

lemma ifM_apply [km_simps]: "ifM c a b s = (if c s then a s else b s)"
  by (simp add: ifM_def)

lemma whenM_apply [km_simps]: "whenM c a s = (if c s then a s else Ret () s)"
  by (simp add: whenM_def ifM_def)

lemma bindM_apply [km_simps]:
  "bindM m f s = (case m s of Ret x t \<Rightarrow> f x t | Resume t \<Rightarrow> Resume t
     | Panic p t \<Rightarrow> Panic p t | Fault e t \<Rightarrow> Fault e t)"
  by (simp add: bindM_def)

lemma thenM_apply [km_simps]:
  "thenM m k s = (case m s of Ret x t \<Rightarrow> k t | Resume t \<Rightarrow> Resume t
     | Panic p t \<Rightarrow> Panic p t | Fault e t \<Rightarrow> Fault e t)"
  by (simp add: thenM_def bindM_def)

lemma ignoreM_apply [km_simps]:
  "ignoreM m s = (case m s of Ret x t \<Rightarrow> Ret () t | Resume t \<Rightarrow> Resume t
     | Panic p t \<Rightarrow> Panic p t | Fault e t \<Rightarrow> Fault e t)"
  by (simp add: ignoreM_def bindM_def split: outcome.split)

text \<open>Running a block from its first statement on.\<close>

named_theorems run_simps \<open>stepwise execution of blocks\<close>

lemma thenM_assoc [run_simps]: "thenM (thenM a b) c = thenM a (thenM b c)"
  by (simp add: fun_eq_iff thenM_apply split: outcome.split)

lemma then_return [run_simps]: "thenM (returnM x) k = k"
  by (simp add: fun_eq_iff thenM_apply)

lemma then_returned [run_simps]: "thenM m (returnM ()) = m"
  by (simp add: fun_eq_iff thenM_apply split: outcome.split)

lemma then_modify [run_simps]: "thenM (modifyM f) k s = k (f s)"
  by (simp add: thenM_apply)

lemma bind_get [run_simps]: "bindM (getM f) k s = k (f s) s"
  by (simp add: bindM_apply)

lemma then_Ret: "m s = Ret () t \<Longrightarrow> thenM m k s = k t"
  by (simp add: thenM_apply)

lemma bind_Ret: "m s = Ret x t \<Longrightarrow> bindM m k s = k x t"
  by (simp add: bindM_apply)

declare seqM.simps [run_simps]

lemma seqM_append: "seqM (ms @ ns) = thenM (seqM ms) (seqM ns)"
proof (induction ms)
  case Nil
  then show ?case by (simp add: fun_eq_iff thenM_apply)
next
  case (Cons m ms)
  then show ?case by (simp add: fun_eq_iff thenM_apply split: outcome.split)
qed

section \<open>A Hoare-style judgement\<close>

text \<open>
  \<open>hoare P m Q R\<close>: from a state with \<open>P\<close>, if the code returns, the value and state satisfy
  \<open>Q\<close>; if it jumps back to the checkpoint, the state satisfies \<open>R\<close>. A panic stops the
  machine, and after undefined behaviour nothing is claimed.
\<close>

definition hoare ::
  "('s \<Rightarrow> bool) \<Rightarrow> ('s, 'a) km \<Rightarrow> ('a \<Rightarrow> 's \<Rightarrow> bool) \<Rightarrow> ('s \<Rightarrow> bool) \<Rightarrow> bool" where
  "hoare P m Q R \<longleftrightarrow> (\<forall>s. P s \<longrightarrow> (case m s of
       Ret x t \<Rightarrow> Q x t | Resume t \<Rightarrow> R t | Panic p t \<Rightarrow> True | Fault e t \<Rightarrow> True))"

lemma hoare_return [hoare_rules]: "(\<And>s. P s \<Longrightarrow> Q x s) \<Longrightarrow> hoare P (returnM x) Q R"
  by (simp add: hoare_def)

lemma hoare_get [hoare_rules]: "(\<And>s. P s \<Longrightarrow> Q (f s) s) \<Longrightarrow> hoare P (getM f) Q R"
  by (simp add: hoare_def)

lemma hoare_modify [hoare_rules]: "(\<And>s. P s \<Longrightarrow> Q () (f s)) \<Longrightarrow> hoare P (modifyM f) Q R"
  by (simp add: hoare_def)

lemma hoare_panic [hoare_rules]: "hoare P (panicM p) Q R"
  by (simp add: hoare_def)

lemma hoare_fault [hoare_rules]: "hoare P (faultM e) Q R"
  by (simp add: hoare_def)

lemma hoare_if [hoare_rules]:
  "hoare (\<lambda>s. P s \<and> c s) a Q R \<Longrightarrow> hoare (\<lambda>s. P s \<and> \<not> c s) b Q R \<Longrightarrow> hoare P (ifM c a b) Q R"
  by (auto simp: hoare_def ifM_apply)

lemma hoare_when [hoare_rules]:
  "hoare (\<lambda>s. P s \<and> c s) a Q R \<Longrightarrow> (\<And>s. P s \<Longrightarrow> \<not> c s \<Longrightarrow> Q () s) \<Longrightarrow> hoare P (whenM c a) Q R"
  by (auto simp: hoare_def whenM_apply)

lemma hoare_bind:
  assumes "hoare P m Q' R" and "\<And>x. hoare (Q' x) (f x) Q R"
  shows "hoare P (bindM m f) Q R"
  unfolding hoare_def
proof (intro allI impI)
  fix s assume "P s"
  then show "case bindM m f s of Ret x t \<Rightarrow> Q x t | Resume t \<Rightarrow> R t | Panic p t \<Rightarrow> True
      | Fault e t \<Rightarrow> True"
    using assms unfolding hoare_def bindM_apply by (cases "m s") fastforce+
qed

lemma hoare_then:
  "hoare P m (\<lambda>_. P') R \<Longrightarrow> hoare P' k Q R \<Longrightarrow> hoare P (thenM m k) Q R"
  unfolding thenM_def by (rule hoare_bind)

lemma hoare_ignore:
  "hoare P m (\<lambda>_. Q ()) R \<Longrightarrow> hoare P (ignoreM m) Q R"
  unfolding ignoreM_def by (rule hoare_bind) (auto intro: hoare_return)

lemma hoare_weaken:
  "hoare P' m Q' R' \<Longrightarrow> (\<And>s. P s \<Longrightarrow> P' s) \<Longrightarrow> (\<And>x s. Q' x s \<Longrightarrow> Q x s)
   \<Longrightarrow> (\<And>s. R' s \<Longrightarrow> R s) \<Longrightarrow> hoare P m Q R"
  unfolding hoare_def by (fastforce split: outcome.splits)

text \<open>A block keeps an assertion that each of its statements keeps.\<close>

lemma hoare_seq_inv:
  "(\<And>m. m \<in> set ms \<Longrightarrow> hoare I m (\<lambda>_. I) R) \<Longrightarrow> hoare I (seqM ms) (\<lambda>_. I) R"
proof (induction ms)
  case Nil
  show ?case unfolding seqM.simps by (rule hoare_return)
next
  case (Cons m ms)
  then show ?case by (auto intro: hoare_then)
qed

lemma hoareI:
  "(\<And>s x t. P s \<Longrightarrow> m s = Ret x t \<Longrightarrow> Q x t) \<Longrightarrow> (\<And>s t. P s \<Longrightarrow> m s = Resume t \<Longrightarrow> R t) \<Longrightarrow> hoare P m Q R"
  unfolding hoare_def by (fastforce split: outcome.splits)

text \<open>\<open>keeps I R m\<close>: an assertion kept by code that returns, and \<open>R\<close> where it jumps back.\<close>

definition keeps :: "('s \<Rightarrow> bool) \<Rightarrow> ('s \<Rightarrow> bool) \<Rightarrow> ('s, 'a) km \<Rightarrow> bool" where
  "keeps I R m \<longleftrightarrow> hoare I m (\<lambda>_. I) R"

named_theorems keeps_rules \<open>one rule per statement combinator\<close>

lemma keeps_return [keeps_rules]: "keeps I R (returnM x)"
  by (simp add: keeps_def hoare_def)

lemma keeps_get [keeps_rules]: "keeps I R (getM f)"
  by (simp add: keeps_def hoare_def)

lemma keeps_panic [keeps_rules]: "keeps I R (panicM p)"
  by (simp add: keeps_def hoare_def)

lemma keeps_fault [keeps_rules]: "keeps I R (faultM e)"
  by (simp add: keeps_def hoare_def)

lemma keeps_modify [keeps_rules]: "(\<And>s. I s \<Longrightarrow> I (f s)) \<Longrightarrow> keeps I R (modifyM f)"
  by (simp add: keeps_def hoare_def)

lemma keeps_ifM [keeps_rules]: "keeps I R a \<Longrightarrow> keeps I R b \<Longrightarrow> keeps I R (ifM c a b)"
  by (simp add: keeps_def hoare_def ifM_apply)

lemma keeps_whenM [keeps_rules]: "keeps I R a \<Longrightarrow> keeps I R (whenM c a)"
  by (simp add: keeps_def hoare_def whenM_apply)

lemma keeps_if [keeps_rules]: "keeps I R a \<Longrightarrow> keeps I R b \<Longrightarrow> keeps I R (if c then a else b)"
  by simp

lemma keeps_bind [keeps_rules]: "keeps I R m \<Longrightarrow> (\<And>x. keeps I R (f x)) \<Longrightarrow> keeps I R (bindM m f)"
  unfolding keeps_def by (rule hoare_bind)

lemma keeps_then [keeps_rules]: "keeps I R m \<Longrightarrow> keeps I R k \<Longrightarrow> keeps I R (thenM m k)"
  unfolding keeps_def by (rule hoare_then)

lemma keeps_ignore [keeps_rules]: "keeps I R m \<Longrightarrow> keeps I R (ignoreM m)"
  unfolding keeps_def by (rule hoare_ignore)

lemma keeps_seq_Nil [keeps_rules]: "keeps I R (seqM [])"
  by (simp add: keeps_def hoare_def)

lemma keeps_seq_Cons [keeps_rules]: "keeps I R m \<Longrightarrow> keeps I R (seqM ms) \<Longrightarrow> keeps I R (seqM (m # ms))"
  unfolding seqM.simps by (rule keeps_then)

text \<open>Branches that the assertion excludes.\<close>

lemma keeps_ifM_True: "(\<And>s. I s \<Longrightarrow> c s) \<Longrightarrow> keeps I R a \<Longrightarrow> keeps I R (ifM c a b)"
  by (simp add: keeps_def hoare_def ifM_apply)

lemma keeps_ifM_False: "(\<And>s. I s \<Longrightarrow> \<not> c s) \<Longrightarrow> keeps I R b \<Longrightarrow> keeps I R (ifM c a b)"
  by (simp add: keeps_def hoare_def ifM_apply)

lemma keeps_whenM_False: "(\<And>s. I s \<Longrightarrow> \<not> c s) \<Longrightarrow> keeps I R (whenM c a)"
  by (simp add: keeps_def hoare_def whenM_apply)

lemma keeps_no_return: "hoare I m (\<lambda>_ _. False) R \<Longrightarrow> keeps I R m"
  unfolding keeps_def by (erule hoare_weaken) simp_all

lemma hoare_no_return_then: "hoare P m (\<lambda>_ _. False) R \<Longrightarrow> hoare P (thenM m k) Q R"
  by (rule hoare_then [where P' = "\<lambda>_. False"]) (simp_all add: hoare_def)

lemma hoareD_Ret: "hoare P m Q R \<Longrightarrow> P s \<Longrightarrow> m s = Ret x t \<Longrightarrow> Q x t"
  unfolding hoare_def by (fastforce split: outcome.splits)

lemma hoareD_Resume: "hoare P m Q R \<Longrightarrow> P s \<Longrightarrow> m s = Resume t \<Longrightarrow> R t"
  unfolding hoare_def by (fastforce split: outcome.splits)

section \<open>Code that does not depend on a callback\<close>

text \<open>
  \<open>agree I J m m'\<close>: from states with \<open>I\<close> the two runs are the same, and if they return the
  state has \<open>J\<close>. It is used for code that takes another piece of code as an argument and, in
  the states in question, never runs it.
\<close>

definition agree :: "('s \<Rightarrow> bool) \<Rightarrow> ('s \<Rightarrow> bool) \<Rightarrow> ('s, 'a) km \<Rightarrow> ('s, 'a) km \<Rightarrow> bool" where
  "agree I J m m' \<longleftrightarrow> (\<forall>s. I s \<longrightarrow> m s = m' s \<and> (\<forall>x t. m s = Ret x t \<longrightarrow> J t))"

named_theorems agree_rules \<open>one rule per statement combinator\<close>

lemma agreeD: "agree I J m m' \<Longrightarrow> I s \<Longrightarrow> m s = m' s"
  by (simp add: agree_def)

lemma agree_return [agree_rules]: "agree I I (returnM x) (returnM x)"
  by (simp add: agree_def)

lemma agree_get [agree_rules]: "agree I I (getM f) (getM f)"
  by (simp add: agree_def)

lemma agree_panic [agree_rules]: "agree I J (panicM p) (panicM p)"
  by (simp add: agree_def)

lemma agree_fault [agree_rules]: "agree I J (faultM p) (faultM p)"
  by (simp add: agree_def)

lemma agree_modify [agree_rules]: "(\<And>s. I s \<Longrightarrow> J (f s)) \<Longrightarrow> agree I J (modifyM f) (modifyM f)"
  by (simp add: agree_def)

lemma agree_ifM [agree_rules]:
  "agree I J a a' \<Longrightarrow> agree I J b b' \<Longrightarrow> agree I J (ifM c a b) (ifM c a' b')"
  by (simp add: agree_def ifM_apply)

lemma agree_whenM [agree_rules]: "agree I I a a' \<Longrightarrow> agree I I (whenM c a) (whenM c a')"
  unfolding whenM_def by (rule agree_ifM [OF _ agree_return])

lemma agree_if [agree_rules]:
  "agree I J a a' \<Longrightarrow> agree I J b b' \<Longrightarrow> agree I J (if c then a else b) (if c then a' else b')"
  by simp

lemma agree_bindJ:
  assumes "agree I I' m m'" and "\<And>x. agree I' J (f x) (f' x)"
  shows "agree I J (bindM m f) (bindM m' f')"
  unfolding agree_def
proof (intro allI impI)
  fix s assume "I s"
  with assms show "bindM m f s = bindM m' f' s \<and> (\<forall>x t. bindM m f s = Ret x t \<longrightarrow> J t)"
    unfolding agree_def bindM_apply by (cases "m s") (fastforce split: outcome.splits)+
qed

lemma agree_thenJ: "agree I I' m m' \<Longrightarrow> agree I' J k k' \<Longrightarrow> agree I J (thenM m k) (thenM m' k')"
  unfolding thenM_def by (rule agree_bindJ)

lemma agree_weaken:
  "agree I' J' m m' \<Longrightarrow> (\<And>s. I s \<Longrightarrow> I' s) \<Longrightarrow> (\<And>s. J' s \<Longrightarrow> J s) \<Longrightarrow> agree I J m m'"
  unfolding agree_def by blast

lemma agree_ifJ:
  "agree (\<lambda>s. I s \<and> c s) J a a' \<Longrightarrow> agree (\<lambda>s. I s \<and> \<not> c s) J b b'
   \<Longrightarrow> agree I J (ifM c a b) (ifM c a' b')"
  by (simp add: agree_def ifM_apply)

lemma agree_bind [agree_rules]:
  "agree I I m m' \<Longrightarrow> (\<And>x. agree I I (f x) (f' x)) \<Longrightarrow> agree I I (bindM m f) (bindM m' f')"
  by (rule agree_bindJ)

lemma agree_then [agree_rules]: "agree I I m m' \<Longrightarrow> agree I I k k' \<Longrightarrow> agree I I (thenM m k) (thenM m' k')"
  by (rule agree_thenJ)

lemma agree_seq_Nil [agree_rules]: "agree I I (seqM []) (seqM [])"
  unfolding seqM.simps by (rule agree_return)

lemma agree_seq_Cons [agree_rules]:
  "agree I I m m' \<Longrightarrow> agree I I (seqM ms) (seqM ms') \<Longrightarrow> agree I I (seqM (m # ms)) (seqM (m' # ms'))"
  unfolding seqM.simps by (rule agree_then)

section \<open>A table that takes entries until it is full\<close>

text \<open>
  Several components keep an array with a fill index and drop what does not fit.
  The provider promises what one addition does to the list of entries; the client gets
  the contents after any number of additions.
\<close>

locale bounded_table =
  fixes add :: "'x \<Rightarrow> 't \<Rightarrow> 't"
    and contents :: "'t \<Rightarrow> 'x list"
    and cap :: nat
    and wf :: "'t \<Rightarrow> bool"
  assumes add_room: "wf t \<Longrightarrow> length (contents t) < cap \<Longrightarrow> contents (add x t) = contents t @ [x]"
    and add_full: "wf t \<Longrightarrow> cap \<le> length (contents t) \<Longrightarrow> contents (add x t) = contents t"
    and wf_add: "wf t \<Longrightarrow> wf (add x t)"
    and wf_cap: "wf t \<Longrightarrow> length (contents t) \<le> cap"
begin

lemma wf_adds: "wf t \<Longrightarrow> wf (fold add xs t)"
  by (induction xs arbitrary: t) (auto intro: wf_add)

lemma contents_add: "wf t \<Longrightarrow> contents (add x t) = take cap (contents t @ [x])"
  using add_room [of t x] add_full [of t x] wf_cap [of t]
  by (cases "length (contents t) < cap") auto

lemma contents_adds: "wf t \<Longrightarrow> contents (fold add xs t) = take cap (contents t @ xs)"
proof (induction xs arbitrary: t)
  case Nil
  then show ?case by (simp add: wf_cap)
next
  case (Cons x xs)
  have "contents (fold add (x # xs) t) = take cap (take cap (contents t @ [x]) @ xs)"
    using Cons by (simp add: wf_add contents_add)
  also have "\<dots> = take cap (contents t @ x # xs)"
    by (cases "length (contents t) < cap") (auto simp: Cons.prems)
  finally show ?case .
qed

end

section \<open>A machine whose steps keep an invariant\<close>

locale step_invariant =
  fixes step :: "'s \<Rightarrow> 's \<Rightarrow> bool"
    and inv :: "'s \<Rightarrow> bool"
  assumes step_inv: "inv s \<Longrightarrow> step s t \<Longrightarrow> inv t"
begin

lemma steps_inv: "step\<^sup>*\<^sup>* s t \<Longrightarrow> inv s \<Longrightarrow> inv t"
  by (induction rule: rtranclp_induct) (auto intro: step_inv)

end

end
