(* ===== verification/C_Memory.thy ===== *)
theory C_Memory
  imports KPrelude
begin

text \<open>
  The memory the runtime saves and restores: bytes at 64-bit addresses, little-endian
  64-bit loads and stores, \<open>memcpy\<close> between memory and a buffer, and the alignment
  \<open>addr & ~(WRITELOG_GRANULARITY-1)\<close> of the write log.

  The second half is the contract of an undo log (locale \<open>undo_log\<close>): entries hold the
  contents a granule of memory had when it was logged, newest entry first, and undoing
  them gives back the memory of the time the log was empty. It is interpreted on
  8-byte granules with the model's own load and store.
\<close>

section \<open>Byte memory\<close>

type_synonym addr = u64
type_synonym memory = "addr \<Rightarrow> u8"

text \<open>\<open>n\<close> bytes from \<open>a\<close> on, least significant first.\<close>

primrec load_le :: "nat \<Rightarrow> memory \<Rightarrow> addr \<Rightarrow> u64" where
  "load_le 0 m a = 0"
| "load_le (Suc n) m a = ucast (m a) OR push_bit 8 (load_le n m (a + 1))"

definition load64 :: "memory \<Rightarrow> addr \<Rightarrow> u64" where
  "load64 m a = load_le 8 m a"

definition store64 :: "memory \<Rightarrow> addr \<Rightarrow> u64 \<Rightarrow> memory" where
  "store64 m a v = (\<lambda>x. if unat (x - a) < 8 then ucast (drop_bit (8 * unat (x - a)) v) else m x)"

text \<open>\<open>memcpy\<close> out of memory into a buffer and back.\<close>

definition memcpy_from :: "memory \<Rightarrow> addr \<Rightarrow> u64 \<Rightarrow> (nat \<Rightarrow> u8) \<Rightarrow> nat \<Rightarrow> u8" where
  "memcpy_from m src len buf = (\<lambda>i. if i < unat len then m (src + of_nat i) else buf i)"

definition memcpy_to :: "memory \<Rightarrow> addr \<Rightarrow> (nat \<Rightarrow> u8) \<Rightarrow> u64 \<Rightarrow> memory" where
  "memcpy_to m dst buf len =
     (\<lambda>x. if unat (x - dst) < unat len then buf (unat (x - dst)) else m x)"

text \<open>A store of \<open>n\<close> bytes by the instrumented kernel.\<close>

definition write_bytes :: "memory \<Rightarrow> addr \<Rightarrow> u8 list \<Rightarrow> memory" where
  "write_bytes m a bs = (\<lambda>x. if unat (x - a) < length bs then bs ! unat (x - a) else m x)"

definition align8 :: "addr \<Rightarrow> addr" where
  "align8 a = a AND NOT 7"

section \<open>Loads and stores\<close>

lemma bit_u8_high [simp]: "8 \<le> n \<Longrightarrow> \<not> bit (b :: u8) n"
  using bit_imp_le_length [of b n] by auto

lemma bit_load_le:
  "bit (load_le n m a) i \<longleftrightarrow> i < 64 \<and> i < 8 * n \<and> bit (m (a + of_nat (i div 8))) (i mod 8)"
proof (induction n arbitrary: a i)
  case 0
  then show ?case by simp
next
  case (Suc n)
  show ?case
  proof (cases "i < 8")
    case True
    then show ?thesis by (auto simp: bit_simps)
  next
    case False
    then have "i div 8 = Suc ((i - 8) div 8)" and "(i - 8) mod 8 = i mod 8"
      by (auto simp: le_div_geq le_mod_geq)
    with False Suc show ?thesis by (auto simp: bit_simps add.assoc)
  qed
qed

lemma byte_of_load64:
  assumes "k < 8"
  shows "ucast (drop_bit (8 * k) (load64 m a)) = m (a + of_nat k)"
proof (rule bit_word_eqI)
  fix n assume "n < LENGTH(8)"
  then have "n < 8" by simp
  then have "(8 * k + n) div 8 = k" and "(8 * k + n) mod 8 = n" by auto
  with assms \<open>n < 8\<close> show "bit (ucast (drop_bit (8 * k) (load64 m a)) :: u8) n = bit (m (a + of_nat k)) n"
    by (auto simp: load64_def bit_simps bit_load_le)
qed

lemma store64_load64:
  "store64 m' a (load64 m a) x = (if unat (x - a) < 8 then m x else m' x)"
  by (simp add: store64_def byte_of_load64)

lemma load64_store64_same [simp]: "load64 (store64 m a v) a = v"
proof (rule bit_word_eqI)
  fix i assume "i < LENGTH(64)"
  then have i: "i < 64" and d: "i div 8 < 8" by auto
  have "unat (of_nat (i div 8) :: u64) = i div 8"
    using d by (simp add: unsigned_of_nat take_bit_eq_mod)
  then show "bit (load64 (store64 m a v) a) i = bit v i"
    using i d by (simp add: load64_def bit_load_le store64_def bit_simps)
qed

lemma memcpy_round_trip:
  "memcpy_to m' a (memcpy_from m a len buf) len = (\<lambda>x. if unat (x - a) < unat len then m x else m' x)"
  by (rule ext) (simp add: memcpy_to_def memcpy_from_def)

section \<open>Alignment to the granularity of the write log\<close>

lemma align8_push_drop: "align8 a = push_bit 3 (drop_bit 3 a)"
proof (rule bit_word_eqI)
  fix i assume "i < LENGTH(64)"
  then show "bit (align8 a) i = bit (push_bit 3 (drop_bit 3 a)) i"
    unfolding align8_def mask_eq_exp_minus_1 [of 3, where 'a = "64 word", simplified, symmetric]
    by (auto simp: bit_simps)
qed

lemma unat_less_64: "unat (a :: u64) < 18446744073709551616"
  by (rule order_less_le_trans [OF unsigned_less]) simp

lemma unat_align8: "unat (align8 a) = 8 * (unat a div 8)"
proof -
  have "unat a div 8 * 8 < 18446744073709551616"
    using unat_less_64 [of a] by simp
  then show ?thesis
    unfolding align8_push_drop push_bit_eq_mult drop_bit_eq_div
    by (simp add: unat_word_ariths unat_div)
qed

lemma align8_idem [simp]: "align8 (align8 a) = align8 a"
  by (simp add: word_unat_eq_iff unat_align8)

lemma aligned_unat: "align8 a = a \<longleftrightarrow> unat a mod 8 = 0"
  by (metis unat_align8 word_unat_eq_iff mod_mult_self1_is_0 mult_div_mod_eq add_0_right)

lemma unat_of_nat_8: "k < 8 \<Longrightarrow> unat (of_nat k :: u64) = k"
  by (simp add: unsigned_of_nat take_bit_eq_mod)

lemma aligned_offset_unat:
  assumes "align8 w = w" and "k < 8"
  shows "unat (w + of_nat k) = unat w + k"
proof -
  have "unat w mod 8 = 0" using assms(1) by (simp add: aligned_unat)
  then obtain q where q: "unat w = 8 * q" by (auto elim: dvdE)
  with assms(2) unat_less_64 [of w] have "unat w + k < 18446744073709551616" by simp
  then show ?thesis
    using assms(2) by (simp add: unat_word_ariths unat_of_nat_8)
qed

lemma align8_offset:
  assumes "align8 w = w" and "k < 8"
  shows "align8 (w + of_nat k) = w"
proof -
  have "unat w mod 8 = 0" using assms(1) by (simp add: aligned_unat)
  then have "8 * ((unat w + k) div 8) = unat w" using assms(2) by (auto elim!: dvdE)
  then show ?thesis
    by (simp add: word_unat_eq_iff unat_align8 aligned_offset_unat assms)
qed

lemma align8_within: "unat (x - align8 x) < 8" and align8_le: "align8 x \<le> x"
proof -
  have "unat (align8 x) \<le> unat x" by (simp add: unat_align8)
  then show le: "align8 x \<le> x" by (simp add: word_le_nat_alt)
  have "unat x = 8 * (unat x div 8) + unat x mod 8" by simp
  then show "unat (x - align8 x) < 8"
    using le by (simp add: unat_sub unat_align8 minus_mult_div_eq_mod)
qed

lemma in_granule_iff:
  assumes "align8 w = w"
  shows "unat (x - w) < 8 \<longleftrightarrow> align8 x = w"
proof
  assume "unat (x - w) < 8"
  moreover have "x = w + of_nat (unat (x - w))" by simp
  ultimately show "align8 x = w" using align8_offset [OF assms] by metis
next
  assume "align8 x = w"
  then show "unat (x - w) < 8" using align8_within [of x] by simp
qed

lemma aligned_add_8: "align8 w = w \<Longrightarrow> align8 (w + 8) = w + 8"
proof -
  assume "align8 w = w"
  then have "unat w mod 8 = 0" by (simp add: aligned_unat)
  then have "(unat w + 8) mod 18446744073709551616 mod 8 = 0" by (simp add: mod_mod_cancel mod_eq_0_iff_dvd)
  then show ?thesis by (simp add: aligned_unat unat_word_ariths)
qed

text \<open>Eight bytes from any address lie in its granule and, if it is not aligned, the next one.\<close>

lemma granules_of_8_bytes:
  assumes "unat (x - a) < 8"
  shows "align8 x = align8 a \<or> (a \<noteq> align8 a \<and> align8 x = align8 a + 8)"
proof -
  define k j where "k = unat (a - align8 a)" and "j = unat (x - a)"
  have k: "k < 8" and j: "j < 8" using align8_within assms by (auto simp: k_def j_def)
  have a: "a = align8 a + of_nat k" and x: "x = a + of_nat j" by (simp_all add: k_def j_def)
  have xk: "x = align8 a + of_nat (k + j)" by (metis a x add.assoc of_nat_add)
  show ?thesis
  proof (cases "k + j < 8")
    case True
    then show ?thesis using xk align8_offset [of "align8 a" "k + j"] by simp
  next
    case False
    then have "of_nat (k + j) = (of_nat (8 + (k + j - 8)) :: u64)" by simp
    then have "of_nat (k + j) = (8 :: u64) + of_nat (k + j - 8)" by (simp only: of_nat_add of_nat_numeral)
    with xk have "x = (align8 a + 8) + of_nat (k + j - 8)" by (simp only: add.assoc)
    with False k j have "align8 x = align8 a + 8"
      using align8_offset [OF aligned_add_8, of "align8 a" "k + j - 8"] by simp
    moreover have "k \<noteq> 0" using False j by auto
    ultimately show ?thesis by (auto simp: k_def)
  qed
qed

text \<open>A range that lies below another one.\<close>

lemma ranges_disjoint:
  fixes a b x :: addr
  assumes "unat (x - a) < n" and "n \<le> unat (b - a)" and "unat (b - a) + m \<le> 2 ^ 64"
  shows "\<not> unat (x - b) < m"
proof
  assume "unat (x - b) < m"
  define d e where "d = x - b" and "e = b - a"
  have "unat d < m" and "unat e + m \<le> 2 ^ 64" and "n \<le> unat e"
    using \<open>unat (x - b) < m\<close> assms by (simp_all add: d_def e_def)
  then have "unat (e + d) = unat e + unat d" by (simp add: unat_word_ariths)
  moreover have "e + d = x - a" by (simp add: d_def e_def)
  ultimately show False using assms(1) \<open>n \<le> unat e\<close> by simp
qed

section \<open>The contract of an undo log\<close>

text \<open>Undo the entries, the newest first: put the logged contents back, one after the other.\<close>

primrec undo :: "(('a \<Rightarrow> 'b) \<Rightarrow> 'g \<Rightarrow> 'v \<Rightarrow> 'a \<Rightarrow> 'b) \<Rightarrow> ('g \<times> 'v) list \<Rightarrow> ('a \<Rightarrow> 'b) \<Rightarrow> 'a \<Rightarrow> 'b" where
  "undo wr [] m = m"
| "undo wr (e # es) m = undo wr es (wr m (fst e) (snd e))"

locale undo_log =
  fixes granule :: "'a \<Rightarrow> 'g"
    and ok :: "'g \<Rightarrow> bool"
    and rd :: "('a \<Rightarrow> 'b) \<Rightarrow> 'g \<Rightarrow> 'v"
    and wr :: "('a \<Rightarrow> 'b) \<Rightarrow> 'g \<Rightarrow> 'v \<Rightarrow> 'a \<Rightarrow> 'b"
  assumes wr_inside: "ok g \<Longrightarrow> granule x = g \<Longrightarrow> wr m g v x = wr m' g v x"
    and wr_outside: "ok g \<Longrightarrow> granule x \<noteq> g \<Longrightarrow> wr m g v x = m x"
    and wr_rd: "ok g \<Longrightarrow> wr m g (rd m g) x = m x"
begin

lemma undo_unlogged:
  "\<forall>e \<in> set es. ok (fst e) \<Longrightarrow> granule x \<notin> fst ` set es \<Longrightarrow> undo wr es m x = m x"
  by (induction es arbitrary: m) (auto simp: wr_outside)

lemma wr_cong: "ok g \<Longrightarrow> m x = m' x \<Longrightarrow> wr m g v x = wr m' g v x"
  by (cases "granule x = g") (rule wr_inside, simp_all add: wr_outside)

lemma undo_cong:
  "\<forall>e \<in> set es. ok (fst e) \<Longrightarrow> m x = m' x \<Longrightarrow> undo wr es m x = undo wr es m' x"
proof (induction es arbitrary: m m')
  case Nil
  then show ?case by simp
next
  case (Cons e es)
  from Cons.prems have e: "ok (fst e)" and es: "\<forall>e \<in> set es. ok (fst e)" by simp_all
  from e Cons.prems(2) have "wr m (fst e) (snd e) x = wr m' (fst e) (snd e) x" by (rule wr_cong)
  with es show ?case unfolding undo.simps by (rule Cons.IH)
qed

text \<open>A logged granule is put back whatever was written to it since.\<close>

lemma undo_logged:
  "\<forall>e \<in> set es. ok (fst e) \<Longrightarrow> granule x \<in> fst ` set es \<Longrightarrow> undo wr es m x = undo wr es m' x"
proof (induction es arbitrary: m m')
  case Nil
  then show ?case by simp
next
  case (Cons e es)
  from Cons.prems have e: "ok (fst e)" and es: "\<forall>e \<in> set es. ok (fst e)" by simp_all
  show ?case
  proof (cases "granule x = fst e")
    case True
    with e have "wr m (fst e) (snd e) x = wr m' (fst e) (snd e) x" by (rule wr_inside)
    with es show ?thesis unfolding undo.simps by (rule undo_cong)
  next
    case False
    with Cons.prems have "granule x \<in> fst ` set es" by auto
    from Cons.IH [OF es this] show ?thesis by (simp only: undo.simps)
  qed
qed

text \<open>Logging the present contents of a granule does not change what undoing gives.\<close>

lemma undo_log_entry:
  assumes "ok g" and "\<forall>e \<in> set es. ok (fst e)"
  shows "undo wr ((g, rd m g) # es) m x = undo wr es m x"
  using undo_cong [OF assms(2), of "wr m g (rd m g)" x m] wr_rd [OF assms(1)] by simp

text \<open>Writing to logged granules only does not change what undoing gives.\<close>

lemma undo_write:
  assumes "\<forall>e \<in> set es. ok (fst e)" and "m' x \<noteq> m x \<Longrightarrow> granule x \<in> fst ` set es"
  shows "undo wr es m' x = undo wr es m x"
proof (cases "m' x = m x")
  case True
  with assms(1) show ?thesis by (rule undo_cong)
next
  case False
  with assms show ?thesis by (intro undo_logged) simp_all
qed

text \<open>Leaving out the entries of some granules changes nothing in the others.\<close>

lemma undo_filter:
  "\<forall>e \<in> set es. ok (fst e) \<Longrightarrow>
   undo wr (filter (\<lambda>e. P (fst e)) es) m x = (if P (granule x) then undo wr es m x else m x)"
proof (induction es arbitrary: m)
  case Nil
  then show ?case by simp
next
  case (Cons e es)
  from Cons.prems have e: "ok (fst e)" and es: "\<forall>e \<in> set es. ok (fst e)" by simp_all
  have skip: "undo wr es (wr m (fst e) (snd e)) x = undo wr es m x" if "granule x \<noteq> fst e"
    using es wr_outside [OF e that] by (rule undo_cong)
  show ?case
    using Cons.IH [OF es] skip wr_outside [OF e, of x m "snd e"]
    by (cases "granule x = fst e") simp_all
qed

end

interpretation u64_log: undo_log align8 "\<lambda>w. align8 w = w" load64 store64
proof unfold_locales
  fix g x :: addr and m m' :: memory and v :: u64
  assume g: "align8 g = g"
  show "store64 m g v x = store64 m' g v x" if "align8 x = g"
    using that g by (simp add: store64_def in_granule_iff)
  show "store64 m g v x = m x" if "align8 x \<noteq> g"
    using that g by (simp add: store64_def in_granule_iff)
  show "store64 m g (load64 m g) x = m x"
    by (simp add: store64_load64)
qed

end
