(* ===== verification/KRegisters.thy ===== *)
theory KRegisters
  imports C_Memory
begin

text \<open>
  The saved register file of the checkpoint: \<open>struct pt_regs\<close> with the offsets of
  \<open>static/kspecem/include/calling.h\<close>, the assembly of \<open>kspecem_regs.S\<close> that saves it and
  jumps back to it, and the copy the interrupt handlers of \<open>kspecem_interrupt.c\<close> make
  into the interrupted context's \<open>pt_regs\<close>.

  The machine's registers are a \<open>pt_regs\<close> too; \<open>RIP\<close> is the address control goes to next.
\<close>

section \<open>Definitions\<close>

datatype reg = R15 | R14 | R13 | R12 | RBP | RBX | R11 | R10 | R9 | R8 | RAX | RCX | RDX
  | RSI | RDI | ORIG_RAX | RIP | CS | EFLAGS | RSP | SS

type_synonym pt_regs = "reg \<Rightarrow> u64"

fun reg_slot :: "reg \<Rightarrow> nat" where
  "reg_slot R15 = 0" | "reg_slot R14 = 1" | "reg_slot R13 = 2" | "reg_slot R12 = 3"
| "reg_slot RBP = 4" | "reg_slot RBX = 5" | "reg_slot R11 = 6" | "reg_slot R10 = 7"
| "reg_slot R9 = 8" | "reg_slot R8 = 9" | "reg_slot RAX = 10" | "reg_slot RCX = 11"
| "reg_slot RDX = 12" | "reg_slot RSI = 13" | "reg_slot RDI = 14" | "reg_slot ORIG_RAX = 15"
| "reg_slot RIP = 16" | "reg_slot CS = 17" | "reg_slot EFLAGS = 18" | "reg_slot RSP = 19"
| "reg_slot SS = 20"

definition reg_offset :: "reg \<Rightarrow> u64" where
  "reg_offset r = of_nat (reg_slot r * 8)"

definition SIZEOF_PTREGS :: u64 where
  "SIZEOF_PTREGS = 21 * 8"

text \<open>
  \<open>kspecem_asm_save_registers\<close>: nothing is saved when the second argument, read as a signed
  number, is at most \<open>-1\<close>. \<open>flags\<close> is the value of \<open>EFLAGS\<close> at the \<open>pushfq\<close>, which leaves
  it in the word below the stack pointer. The function returns with \<open>%rax\<close> cleared.
  Results: the saved registers, the machine's registers, memory.
\<close>

definition kspecem_asm_save_registers ::
  "u64 \<Rightarrow> u64 \<Rightarrow> pt_regs \<Rightarrow> pt_regs \<Rightarrow> memory \<Rightarrow> pt_regs \<times> pt_regs \<times> memory" where
  "kspecem_asm_save_registers are_irqs_disabled flags registers hw m =
     (let ret = hw(RAX := 0, RIP := load64 m (hw RSP), RSP := hw RSP + 8) in
      if sint are_irqs_disabled \<le> -1 then (registers, ret, m)
      else
        (registers(RAX := hw RAX, RBX := hw RBX, RCX := hw RCX, RDX := hw RDX, RBP := hw RBP,
           R8 := hw R8, R9 := hw R9, R10 := hw R10, R11 := hw R11, R12 := hw R12, R13 := hw R13,
           R14 := hw R14, R15 := hw R15, RSP := hw RSP + 8, RIP := load64 m (hw RSP),
           EFLAGS := flags),
         ret(RDX := hw RSP + 8, EFLAGS := flags),
         store64 m (hw RSP - 8) flags))"

text \<open>\<open>kspecem_asm_restore_registers\<close>: loads the registers and jumps to the saved \<open>RIP\<close>,
  which it holds in \<open>%rdx\<close>; \<open>EFLAGS\<close> goes through the word below the restored stack pointer.\<close>

definition kspecem_asm_restore_registers :: "pt_regs \<Rightarrow> pt_regs \<Rightarrow> memory \<Rightarrow> pt_regs \<times> memory" where
  "kspecem_asm_restore_registers registers hw m =
     (hw(RSP := registers RSP, RBP := registers RBP, RDX := registers RIP, RBX := registers RBX,
         R10 := registers R10, R11 := registers R11, R12 := registers R12, R13 := registers R13,
         R14 := registers R14, R15 := registers R15, RCX := registers RCX, R8 := registers R8,
         R9 := registers R9, EFLAGS := registers EFLAGS, RAX := registers RAX,
         RIP := registers RIP),
      store64 m (registers RSP - 8) (registers EFLAGS))"

text \<open>The inline assembly of \<open>kspecem_interrupt_timer\<close> and \<open>kspecem_interrupt_exception\<close>: one
  load and one store per register, in this order, from \<open>kspecem_registers\<close> to \<open>*regs\<close>.\<close>

definition interrupt_regs :: "reg list" where
  "interrupt_regs = [R15, R14, R13, R12, R11, R10, R9, R8, RBP, RAX, RBX, RCX, RDX, RSI, RDI,
     EFLAGS, RIP, RSP]"

definition copy_registers :: "reg list \<Rightarrow> pt_regs \<Rightarrow> addr \<Rightarrow> memory \<Rightarrow> memory" where
  "copy_registers rs kspecem_regs regs m =
     fold (\<lambda>r m. store64 m (regs + reg_offset r) (kspecem_regs r)) rs m"

section \<open>Saving and jumping back\<close>

text \<open>The registers the checkpoint gives back; \<open>RDX\<close>, \<open>RSI\<close> and \<open>RDI\<close> may hold anything
  after a call.\<close>

definition preserved_regs :: "reg set" where
  "preserved_regs = {RBP, RBX, R8, R9, R10, R11, R12, R13, R14, R15, RAX, RCX}"

text \<open>
  C34. Jumping back to a checkpoint continues where \<open>kspecem_asm_save_registers\<close> was called:
  whatever the machine's registers were meanwhile, control returns to the call's return
  address with the caller's stack pointer and the saved registers and flags.
\<close>

theorem kspecem_registers_round_trip:
  assumes "kspecem_asm_save_registers irq_flags flags registers hw m = (registers', hw1, m1)"
    and "- 1 < sint irq_flags"
    and "kspecem_asm_restore_registers registers' hw2 m2 = (hw', m')"
  shows "hw' RIP = load64 m (hw RSP) \<and> hw' RSP = hw RSP + 8 \<and> hw' EFLAGS = flags
    \<and> (\<forall>r \<in> preserved_regs. hw' r = hw r)"
  using assms
  by (auto simp: kspecem_asm_save_registers_def kspecem_asm_restore_registers_def
      preserved_regs_def Let_def)

theorem kspecem_registers_round_trip_witness:
  "let hw = (\<lambda>r. of_nat (reg_slot r)) in
   \<exists>registers' hw1 m1 hw' m'.
     kspecem_asm_save_registers 512 2 (\<lambda>_. 0) hw (\<lambda>_. 7) = (registers', hw1, m1)
   \<and> kspecem_asm_restore_registers registers' (\<lambda>_. 0) m1 = (hw', m')
   \<and> hw' RIP = load64 (\<lambda>_. 7) (hw RSP) \<and> hw' RSP = 27 \<and> hw' EFLAGS = 2
   \<and> (\<forall>r \<in> preserved_regs. hw' r = hw r)"
proof -
  let ?hw = "\<lambda>r. of_nat (reg_slot r) :: u64"
  obtain registers' hw1 m1 where s:
    "kspecem_asm_save_registers 512 2 (\<lambda>_. 0) ?hw (\<lambda>_. 7) = (registers', hw1, m1)"
    by (metis prod_cases3)
  obtain hw' m' where r: "kspecem_asm_restore_registers registers' (\<lambda>_. 0) m1 = (hw', m')"
    by fastforce
  have "- 1 < sint (512 :: u64)" by simp
  from kspecem_registers_round_trip [OF s this r] s r show ?thesis
    by (simp add: Let_def)
qed

section \<open>Copying registers into an interrupted context\<close>

lemma load_le_cong: "(\<And>k. k < n \<Longrightarrow> m (a + of_nat k) = m' (a + of_nat k)) \<Longrightarrow> load_le n m a = load_le n m' a"
proof (induction n arbitrary: a)
  case 0
  then show ?case by simp
next
  case (Suc n)
  have "m (a + 1 + of_nat k) = m' (a + 1 + of_nat k)" if "k < n" for k
    using Suc.prems [of "Suc k"] that by (simp add: add.assoc)
  with Suc.IH [of "a + 1"] Suc.prems [of 0] show ?case by simp
qed

lemma load64_cong: "(\<And>x. unat (x - a) < 8 \<Longrightarrow> m x = m' x) \<Longrightarrow> load64 m a = load64 m' a"
  unfolding load64_def by (rule load_le_cong) (simp add: unat_of_nat_8)

lemma slot_distance:
  fixes x a :: addr
  assumes "i < 21" and "j < 21" and "i \<noteq> j" and "unat (x - (a + of_nat (i * 8))) < 8"
  shows "\<not> unat (x - (a + of_nat (j * 8))) < 8"
proof
  assume j: "unat (x - (a + of_nat (j * 8))) < 8"
  define p q where "p = unat (x - (a + of_nat (i * 8)))" and "q = unat (x - (a + of_nat (j * 8)))"
  have "x - a = of_nat (i * 8 + p)" and "x - a = of_nat (j * 8 + q)"
    by (simp_all add: p_def q_def)
  then have "(of_nat (i * 8 + p) :: u64) = of_nat (j * 8 + q)" by metis
  then have "unat (of_nat (i * 8 + p) :: u64) = unat (of_nat (j * 8 + q) :: u64)" by simp
  moreover have "p < 8" "q < 8" using assms(4) j by (simp_all add: p_def q_def)
  ultimately have "i * 8 + p = j * 8 + q"
    using assms(1,2) by (simp add: unsigned_of_nat take_bit_eq_mod del: of_nat_add of_nat_mult)
  with \<open>p < 8\<close> \<open>q < 8\<close> assms(3) show False by linarith
qed

lemma reg_slot_inj: "reg_slot r = reg_slot r' \<Longrightarrow> r = r'"
  by (cases r; cases r') simp_all

text \<open>Registers in the order of their slots; the frame ends with \<open>SS\<close>.\<close>

instantiation reg :: linorder
begin

definition less_eq_reg :: "reg \<Rightarrow> reg \<Rightarrow> bool" where
  "r \<le> r' \<longleftrightarrow> reg_slot r \<le> reg_slot r'"

definition less_reg :: "reg \<Rightarrow> reg \<Rightarrow> bool" where
  "r < r' \<longleftrightarrow> reg_slot r < reg_slot r'"

instance
  by standard (auto simp: less_eq_reg_def less_reg_def reg_slot_inj)

end

lemma reg_le_SS: "r \<le> SS"
  by (cases r) (simp_all add: less_eq_reg_def)

lemma reg_slot_less: "reg_slot r < 21"
  using reg_le_SS [of r] by (simp add: less_eq_reg_def)

lemma reg_offset_unat: "unat (reg_offset r) = reg_slot r * 8"
  using reg_slot_less [of r] by (simp add: reg_offset_def unsigned_of_nat take_bit_eq_mod del: of_nat_mult)

lemma reg_offset_last: "unat (reg_offset r) + 8 \<le> unat SIZEOF_PTREGS"
  using reg_slot_less [of r] by (simp add: reg_offset_unat SIZEOF_PTREGS_def)

lemma load64_store64_slot:
  "r \<noteq> r' \<Longrightarrow> load64 (store64 m (a + reg_offset r') v) (a + reg_offset r) = load64 m (a + reg_offset r)"
  using slot_distance [of "reg_slot r" "reg_slot r'" _ a] reg_slot_less reg_slot_inj
  by (intro load64_cong) (auto simp: store64_def reg_offset_def)

lemma copy_registers_skip:
  "r \<notin> set rs \<Longrightarrow> load64 (copy_registers rs k a m) (a + reg_offset r) = load64 m (a + reg_offset r)"
  unfolding copy_registers_def
  by (induction rs arbitrary: m) (auto simp: load64_store64_slot)

lemma copy_registers_read:
  "r \<in> set rs \<Longrightarrow> load64 (copy_registers rs k a m) (a + reg_offset r) = k r"
proof (induction rs arbitrary: m)
  case Nil
  then show ?case by simp
next
  case (Cons r' rs)
  show ?case
  proof (cases "r \<in> set rs")
    case True
    with Cons.IH show ?thesis by (simp add: copy_registers_def)
  next
    case False
    with Cons.prems have "r = r'" by simp
    with False copy_registers_skip [OF False, of k a "store64 m (a + reg_offset r) (k r)"]
    show ?thesis by (simp add: copy_registers_def)
  qed
qed

lemma slot_inside:
  assumes "SIZEOF_PTREGS \<le> x - a"
  shows "\<not> unat (x - (a + reg_offset r)) < 8"
proof -
  have o: "unat (reg_offset r) + 8 \<le> unat SIZEOF_PTREGS" by (rule reg_offset_last)
  have big: "unat SIZEOF_PTREGS \<le> unat (x - a)" using assms by (simp add: word_le_nat_alt)
  then have "reg_offset r \<le> x - a" using o by (simp add: word_le_nat_alt)
  then have "unat (x - a - reg_offset r) = unat (x - a) - unat (reg_offset r)" by (rule unat_sub)
  with o big show ?thesis by (simp add: algebra_simps)
qed

lemma copy_registers_outside:
  "SIZEOF_PTREGS \<le> x - a \<Longrightarrow> copy_registers rs k a m x = m x"
  unfolding copy_registers_def
  by (induction rs arbitrary: m) (auto simp: store64_def slot_inside)

end
