(* ===== verification/KStatistics.thy ===== *)
theory KStatistics
  imports KPrelude
begin

text \<open>
  The trace of one speculation (\<open>static/kspecem/kspecem_statistics.c\<close>): an array of
  \<open>KSPECEM_SPEC_STATISTICS_SIZE\<close> entries and a fill index. It is an instance of the
  bounded table of the prelude.
\<close>

section \<open>Definitions\<close>

datatype kspecem_func_type_e =
    KSPECEM_FUNC_NEW_CHECKPOINT
  | KSPECEM_FUNC_NEW_CHECKPOINT_INSPEC
  | KSPECEM_FUNC_RESTART
  | KSPECEM_FUNC_RESTART_RETURN
  | KSPECEM_FUNC_CHECK_CALL_DEPTH

record kspecem_spec_stats_entry_t =
  kspecem_function_type :: kspecem_func_type_e
  kspecem_function_arg1 :: u64
  kspecem_function_arg2 :: u64
  kspecem_function_arg3 :: u64
  kspecem_function_return_addr :: u64

definition KSPECEM_SPEC_STATISTICS_SIZE :: nat where
  "KSPECEM_SPEC_STATISTICS_SIZE = 10000"

text \<open>The file's globals: the pointer \<open>kspecem_spec_statistics\<close> (0 is NULL), what the array
  behind it holds, and the index of the next free entry.\<close>

record spec_statistics =
  kspecem_spec_statistics :: u64
  spec_statistics_entries :: "nat \<Rightarrow> kspecem_spec_stats_entry_t"
  kspecem_curr_spec_statistics_index :: nat

definition zero_stats_entry :: kspecem_spec_stats_entry_t where
  "zero_stats_entry = \<lparr>kspecem_function_type = KSPECEM_FUNC_NEW_CHECKPOINT,
     kspecem_function_arg1 = 0, kspecem_function_arg2 = 0, kspecem_function_arg3 = 0,
     kspecem_function_return_addr = 0\<rparr>"

text \<open>\<open>p\<close> is the pointer \<open>kzalloc\<close> returned; the memory behind it is zeroed.\<close>

definition kspecem_statistics_init :: "u64 \<Rightarrow> spec_statistics" where
  "kspecem_statistics_init p = \<lparr>kspecem_spec_statistics = p,
     spec_statistics_entries = (\<lambda>_. zero_stats_entry), kspecem_curr_spec_statistics_index = 0\<rparr>"

definition push_spec_statistics :: "kspecem_spec_stats_entry_t \<Rightarrow> spec_statistics \<Rightarrow> spec_statistics" where
  "push_spec_statistics entry t =
     (if KSPECEM_SPEC_STATISTICS_SIZE \<le> kspecem_curr_spec_statistics_index t then t
      else t\<lparr>spec_statistics_entries :=
               (spec_statistics_entries t)(kspecem_curr_spec_statistics_index t := entry),
             kspecem_curr_spec_statistics_index := kspecem_curr_spec_statistics_index t + 1\<rparr>)"

text \<open>
  \<open>kspecem_add_spec_statistics\<close>: the early return on a full table, then the entry. The
  assertion that follows the early return repeats its test. \<open>None\<close> is the write through a
  NULL table (\<open>kzalloc\<close> is not checked by \<open>kspecem_statistics_init\<close>).
\<close>

definition kspecem_add_spec_statistics ::
  "kspecem_func_type_e \<Rightarrow> u64 \<Rightarrow> u64 \<Rightarrow> u64 \<Rightarrow> u64 \<Rightarrow> spec_statistics \<Rightarrow> spec_statistics option" where
  "kspecem_add_spec_statistics func_type func_arg1 func_arg2 func_arg3 return_addr t =
     (if KSPECEM_SPEC_STATISTICS_SIZE \<le> kspecem_curr_spec_statistics_index t then Some t
      else if kspecem_spec_statistics t = 0 then None
      else Some (push_spec_statistics
        \<lparr>kspecem_function_type = func_type, kspecem_function_arg1 = func_arg1,
         kspecem_function_arg2 = func_arg2, kspecem_function_arg3 = func_arg3,
         kspecem_function_return_addr = return_addr\<rparr> t))"

text \<open>The recorded entries, oldest first, and the bound on the index.\<close>

definition spec_statistics_list :: "spec_statistics \<Rightarrow> kspecem_spec_stats_entry_t list" where
  "spec_statistics_list t = map (spec_statistics_entries t) [0..<kspecem_curr_spec_statistics_index t]"

definition spec_statistics_wf :: "spec_statistics \<Rightarrow> bool" where
  "spec_statistics_wf t \<longleftrightarrow> kspecem_curr_spec_statistics_index t \<le> KSPECEM_SPEC_STATISTICS_SIZE"

section \<open>The trace keeps the first entries\<close>

interpretation spec_trace: bounded_table push_spec_statistics spec_statistics_list
  KSPECEM_SPEC_STATISTICS_SIZE spec_statistics_wf
  by unfold_locales
    (auto simp: push_spec_statistics_def spec_statistics_list_def spec_statistics_wf_def)

lemma kspecem_add_spec_statistics_wf:
  "spec_statistics_wf t \<Longrightarrow> kspecem_add_spec_statistics f a b c r t = Some t' \<Longrightarrow> spec_statistics_wf t'"
  by (auto simp: kspecem_add_spec_statistics_def intro: spec_trace.wf_add split: if_splits)

lemma kspecem_add_spec_statistics_Some:
  "kspecem_spec_statistics t \<noteq> 0 \<Longrightarrow> \<exists>t'. kspecem_add_spec_statistics f a b c r t = Some t'
     \<and> kspecem_spec_statistics t' = kspecem_spec_statistics t"
  by (auto simp: kspecem_add_spec_statistics_def push_spec_statistics_def)

lemma kspecem_add_spec_statistics_list:
  assumes "spec_statistics_wf t" and "kspecem_add_spec_statistics f a b c r t = Some t'"
  shows "spec_statistics_list t' = take KSPECEM_SPEC_STATISTICS_SIZE (spec_statistics_list t @
    [\<lparr>kspecem_function_type = f, kspecem_function_arg1 = a, kspecem_function_arg2 = b,
      kspecem_function_arg3 = c, kspecem_function_return_addr = r\<rparr>])"
proof (cases "KSPECEM_SPEC_STATISTICS_SIZE \<le> kspecem_curr_spec_statistics_index t")
  case True
  with assms show ?thesis
    by (auto simp: kspecem_add_spec_statistics_def spec_statistics_list_def spec_statistics_wf_def)
next
  case False
  with assms show ?thesis
    by (auto simp: kspecem_add_spec_statistics_def spec_trace.contents_add split: if_splits)
qed

text \<open>Recording any entries in any order never moves the index past the end of the array.\<close>

lemma spec_trace_bounded:
  "spec_statistics_list (fold push_spec_statistics es (kspecem_statistics_init p))
     = take KSPECEM_SPEC_STATISTICS_SIZE es
   \<and> kspecem_curr_spec_statistics_index (fold push_spec_statistics es (kspecem_statistics_init p))
     \<le> KSPECEM_SPEC_STATISTICS_SIZE"
proof -
  have wf: "spec_statistics_wf (kspecem_statistics_init p)"
    and e: "spec_statistics_list (kspecem_statistics_init p) = []"
    by (simp_all add: spec_statistics_wf_def kspecem_statistics_init_def spec_statistics_list_def)
  show ?thesis
    using spec_trace.contents_adds [OF wf, of es] spec_trace.wf_adds [OF wf, of es] e
    by (simp add: spec_statistics_wf_def)
qed

end
