(* ===== verification/KStats_Inlineasm.thy ===== *)
theory KStats_Inlineasm
  imports KPrelude "HOL-Library.Multiset"
begin

text \<open>
  The table of instruction pointers at which an inline assembly statement ended a
  speculation (\<open>static/kspecem/kspecem_stats_inlineasm.c\<close>): at most
  \<open>NUM_INLINEASM_RESTART_IPS\<close> entries, kept in order of decreasing \<open>restart_count\<close>.
\<close>

section \<open>Definitions\<close>

definition NUM_INLINEASM_RESTART_IPS :: nat where
  "NUM_INLINEASM_RESTART_IPS = 40"

record kspecem_inlineasm_restart_stat_t =
  restart_ip :: u64
  restart_count :: u64

text \<open>
  The file's globals. The array is the list of its elements: 40 of them once
  \<open>kspecem_stats_inlineasm_init\<close> has allocated it, none while the pointer is NULL.
\<close>

record inlineasm_stats =
  kspecem_inlineasm_restart_stats_enabled :: bool
  kspecem_inlineasm_restart_stats :: "kspecem_inlineasm_restart_stat_t list"
  kspecem_inlineasm_restart_stat_size :: nat

definition initial_inlineasm_stats :: inlineasm_stats where
  "initial_inlineasm_stats = \<lparr>kspecem_inlineasm_restart_stats_enabled = False,
     kspecem_inlineasm_restart_stats = [], kspecem_inlineasm_restart_stat_size = 0\<rparr>"

text \<open>\<open>alloc\<close> says whether \<open>kzalloc\<close> succeeded; its result is not checked.\<close>

definition kspecem_stats_inlineasm_init :: "bool \<Rightarrow> inlineasm_stats \<Rightarrow> inlineasm_stats" where
  "kspecem_stats_inlineasm_init alloc t =
     (if kspecem_inlineasm_restart_stats_enabled t
      then t\<lparr>kspecem_inlineasm_restart_stats :=
               (if alloc then replicate NUM_INLINEASM_RESTART_IPS \<lparr>restart_ip = 0, restart_count = 0\<rparr> else []),
             kspecem_inlineasm_restart_stat_size := 0\<rparr>
      else t)"

text \<open>
  The inner loop. Its variable \<open>i\<close> is \<open>k - 1\<close>: the incremented element is at index \<open>k\<close>
  and moves one place forward while the element before it has a smaller count.
\<close>

fun shift_forward ::
  "nat \<Rightarrow> kspecem_inlineasm_restart_stat_t list \<Rightarrow> kspecem_inlineasm_restart_stat_t
   \<Rightarrow> kspecem_inlineasm_restart_stat_t list" where
  "shift_forward 0 stats tmp_stat = stats"
| "shift_forward (Suc i) stats tmp_stat =
     (if restart_count (stats ! i) < restart_count tmp_stat
      then shift_forward i (stats[Suc i := stats ! i, i := tmp_stat]) tmp_stat
      else stats)"

text \<open>The search loop: the first index below \<open>size\<close> whose entry has this \<open>ip\<close>.\<close>

fun find_ip :: "kspecem_inlineasm_restart_stat_t list \<Rightarrow> u64 \<Rightarrow> nat option" where
  "find_ip [] ip = None"
| "find_ip (e # es) ip = (if restart_ip e = ip then Some 0 else map_option Suc (find_ip es ip))"

text \<open>\<open>None\<close> is the write past the end of the array, or through NULL.\<close>

definition kspecem_add_inlineasm_restart :: "u64 \<Rightarrow> inlineasm_stats \<Rightarrow> inlineasm_stats option" where
  "kspecem_add_inlineasm_restart ip t =
     (let stats = kspecem_inlineasm_restart_stats t; n = kspecem_inlineasm_restart_stat_size t in
      case find_ip (take n stats) ip of
        Some i \<Rightarrow>
          (let tmp_stat = \<lparr>restart_ip = ip, restart_count = restart_count (stats ! i) + 1\<rparr> in
           Some (t\<lparr>kspecem_inlineasm_restart_stats := shift_forward i (stats[i := tmp_stat]) tmp_stat\<rparr>))
      | None \<Rightarrow>
          (if NUM_INLINEASM_RESTART_IPS \<le> n then Some t
           else if length stats \<le> n then None
           else Some (t\<lparr>kspecem_inlineasm_restart_stats :=
                          stats[n := \<lparr>restart_ip = ip, restart_count = 1\<rparr>],
                        kspecem_inlineasm_restart_stat_size := n + 1\<rparr>)))"

text \<open>What \<open>kspecem_print_inlineasm_stats\<close> prints: one line per entry and whether the
  table-full warning follows.\<close>

definition kspecem_print_inlineasm_stats :: "inlineasm_stats \<Rightarrow> (u64 \<times> u64) list \<times> bool" where
  "kspecem_print_inlineasm_stats t =
     (map (\<lambda>e. (restart_ip e, restart_count e))
        (take (kspecem_inlineasm_restart_stat_size t) (kspecem_inlineasm_restart_stats t)),
      NUM_INLINEASM_RESTART_IPS \<le> kspecem_inlineasm_restart_stat_size t)"

section \<open>The invariant of the table\<close>

text \<open>The entries in use, and the count recorded for an instruction pointer.\<close>

definition used :: "inlineasm_stats \<Rightarrow> kspecem_inlineasm_restart_stat_t list" where
  "used t = take (kspecem_inlineasm_restart_stat_size t) (kspecem_inlineasm_restart_stats t)"

definition count_of :: "inlineasm_stats \<Rightarrow> u64 \<Rightarrow> u64 option" where
  "count_of t = map_of (map (\<lambda>e. (restart_ip e, restart_count e)) (used t))"

definition decreasing :: "kspecem_inlineasm_restart_stat_t list \<Rightarrow> bool" where
  "decreasing es \<longleftrightarrow> sorted_wrt (\<lambda>x y. restart_count y \<le> restart_count x) es"

definition inlineasm_wf :: "inlineasm_stats \<Rightarrow> bool" where
  "inlineasm_wf t \<longleftrightarrow>
     length (kspecem_inlineasm_restart_stats t) = NUM_INLINEASM_RESTART_IPS \<and>
     kspecem_inlineasm_restart_stat_size t \<le> NUM_INLINEASM_RESTART_IPS \<and>
     decreasing (used t) \<and>
     distinct (map restart_ip (used t)) \<and>
     (\<forall>e \<in> set (used t). 0 < restart_count e)"

section \<open>Moving one element to its place\<close>

lemma shift_forward_eq:
  assumes "decreasing ys"
  shows "shift_forward (length ys) (ys @ t # zs) t =
    takeWhile (\<lambda>y. restart_count t \<le> restart_count y) ys @ t #
    dropWhile (\<lambda>y. restart_count t \<le> restart_count y) ys @ zs"
  using assms
proof (induction ys arbitrary: zs rule: rev_induct)
  case Nil
  then show ?case by simp
next
  case (snoc y ys)
  have dec: "decreasing ys" and ge: "\<forall>x \<in> set ys. restart_count y \<le> restart_count x"
    using snoc.prems by (auto simp: decreasing_def sorted_wrt_append)
  show ?case
  proof (cases "restart_count y < restart_count t")
    case True
    have "((ys @ [y]) @ t # zs)[Suc (length ys) := y, length ys := t] = ys @ t # y # zs"
      by (simp add: list_update_append)
    with True snoc.IH [OF dec, of "y # zs"] show ?thesis
      by (simp add: not_le)
  next
    case False
    then have "\<forall>x \<in> set (ys @ [y]). restart_count t \<le> restart_count x"
      using ge by force
    then have "takeWhile (\<lambda>y. restart_count t \<le> restart_count y) (ys @ [y]) = ys @ [y]"
      and "dropWhile (\<lambda>y. restart_count t \<le> restart_count y) (ys @ [y]) = []"
      by (simp_all only: takeWhile_eq_all_conv dropWhile_eq_Nil_conv)
    with False show ?thesis by simp
  qed
qed

lemma mset_moved: "mset (takeWhile P ys @ t # dropWhile P ys @ zs) = mset (ys @ t # zs)"
proof -
  have "mset (takeWhile P ys) + mset (dropWhile P ys) = mset ys"
    by (metis mset_append takeWhile_dropWhile_id)
  then show ?thesis by (simp add: union_assoc [symmetric])
qed

lemma decreasing_between:
  "decreasing (xs @ ys @ zs) \<Longrightarrow> \<forall>x \<in> set xs. restart_count t \<le> restart_count x
   \<Longrightarrow> \<forall>y \<in> set ys. restart_count y \<le> restart_count t
   \<Longrightarrow> \<forall>z \<in> set zs. restart_count z \<le> restart_count t \<Longrightarrow> decreasing (xs @ t # ys @ zs)"
  by (auto simp: decreasing_def sorted_wrt_append)

lemma decreasing_insert:
  assumes "decreasing (ys @ zs)" and "\<forall>z \<in> set zs. restart_count z \<le> restart_count t"
  shows "decreasing (takeWhile (\<lambda>y. restart_count t \<le> restart_count y) ys @ t #
    dropWhile (\<lambda>y. restart_count t \<le> restart_count y) ys @ zs)"
proof -
  let ?P = "\<lambda>y. restart_count t \<le> restart_count y"
  have sp: "takeWhile ?P ys @ dropWhile ?P ys = ys" by simp
  have dec: "decreasing (takeWhile ?P ys @ dropWhile ?P ys @ zs)"
    using assms(1) sp by (metis append.assoc)
  have hi: "\<forall>y \<in> set (takeWhile ?P ys). ?P y" by (auto dest: set_takeWhileD)
  have lo: "\<forall>y \<in> set (dropWhile ?P ys). restart_count y \<le> restart_count t"
  proof (cases "dropWhile ?P ys")
    case Nil
    show ?thesis unfolding Nil by simp
  next
    case (Cons d ds)
    have "\<not> ?P d" using hd_dropWhile [of ?P ys] unfolding Cons by simp
    then have d: "restart_count d \<le> restart_count t" by simp
    have "\<forall>x \<in> set ds. restart_count x \<le> restart_count d"
      using dec unfolding Cons by (auto simp: decreasing_def sorted_wrt_append)
    with d show ?thesis unfolding Cons by (auto intro: order_trans)
  qed
  from dec hi lo assms(2) show ?thesis by (rule decreasing_between)
qed

section \<open>One restart\<close>

lemma find_ip_Some: "find_ip es ip = Some i \<Longrightarrow> i < length es \<and> restart_ip (es ! i) = ip"
  by (induction es arbitrary: i) (auto split: if_splits)

lemma find_ip_None: "find_ip es ip = None \<longleftrightarrow> ip \<notin> restart_ip ` set es"
  by (induction es) auto

text \<open>An entry that is found: the entries before and after it, and the table after the call.\<close>

lemma add_found:
  assumes wf: "inlineasm_wf t"
    and found: "find_ip (used t) ip = Some i"
  obtains ys e zs t' where "used t = ys @ e # zs" "restart_ip e = ip"
    and "kspecem_add_inlineasm_restart ip t = Some t'"
    and "used t' = takeWhile (\<lambda>y. restart_count e + 1 \<le> restart_count y) ys
      @ \<lparr>restart_ip = ip, restart_count = restart_count e + 1\<rparr>
      # dropWhile (\<lambda>y. restart_count e + 1 \<le> restart_count y) ys @ zs"
    and "kspecem_inlineasm_restart_stat_size t' = kspecem_inlineasm_restart_stat_size t"
    and "length (kspecem_inlineasm_restart_stats t') = length (kspecem_inlineasm_restart_stats t)"
proof -
  define n stats where "n = kspecem_inlineasm_restart_stat_size t"
    and "stats = kspecem_inlineasm_restart_stats t"
  have n: "n \<le> length stats" using wf by (simp add: inlineasm_wf_def n_def stats_def)
  have u: "used t = take n stats" by (simp add: used_def n_def stats_def)
  have i: "i < n" "restart_ip (stats ! i) = ip"
    using find_ip_Some [OF found] n by (auto simp: u)
  define ys e zs where "ys = take i stats" and "e = stats ! i" and "zs = drop (Suc i) (take n stats)"
  have uyz: "used t = ys @ e # zs"
    using id_take_nth_drop [of i "take n stats"] i n by (simp add: u ys_def e_def zs_def min_def)
  define t1 where "t1 = \<lparr>restart_ip = ip, restart_count = restart_count e + 1\<rparr>"
  have st: "stats[i := t1] = ys @ t1 # (zs @ drop n stats)"
    using upd_conv_take_nth_drop [of i stats t1] i n
    by (simp add: ys_def zs_def) (metis append_take_drop_id drop_drop drop_take take_drop add.commute le_add_diff_inverse2 Suc_leI)
  have len: "length ys = i" using i n by (simp add: ys_def)
  have dec: "decreasing ys" using wf uyz by (auto simp: inlineasm_wf_def decreasing_def sorted_wrt_append)
  define stats' where "stats' = shift_forward i (stats[i := t1]) t1"
  have stats': "stats' = takeWhile (\<lambda>y. restart_count e + 1 \<le> restart_count y) ys @ t1
      # dropWhile (\<lambda>y. restart_count e + 1 \<le> restart_count y) ys @ zs @ drop n stats"
    using shift_forward_eq [OF dec, of t1 "zs @ drop n stats"] st len by (simp add: stats'_def t1_def)
  have ly: "length (takeWhile P ys) + length (dropWhile P ys) = i" for P
    using len by (metis length_append takeWhile_dropWhile_id)
  have lz: "length zs = n - Suc i" using i n by (simp add: zs_def)
  have tk: "take n stats' = takeWhile (\<lambda>y. restart_count e + 1 \<le> restart_count y) ys @ t1
      # dropWhile (\<lambda>y. restart_count e + 1 \<le> restart_count y) ys @ zs"
    using ly [of "\<lambda>y. restart_count e + 1 \<le> restart_count y"] lz i unfolding stats'
    by (simp add: take_Cons')
  have "kspecem_add_inlineasm_restart ip t = Some (t\<lparr>kspecem_inlineasm_restart_stats := stats'\<rparr>)"
    using found unfolding kspecem_add_inlineasm_restart_def Let_def used_def
    by (simp add: stats'_def t1_def e_def stats_def)
  moreover have "length stats' = length stats" unfolding stats'
    using ly [of "\<lambda>y. restart_count e + 1 \<le> restart_count y"] lz i n by simp
  ultimately show thesis
    using that [of ys e zs "t\<lparr>kspecem_inlineasm_restart_stats := stats'\<rparr>"] uyz i tk
    by (simp add: used_def e_def n_def stats_def t1_def)
qed

text \<open>An entry that is not found: the full table stays, otherwise the entry goes to the end.\<close>

lemma add_not_found:
  assumes wf: "inlineasm_wf t" and found: "find_ip (used t) ip = None"
  obtains t' where "kspecem_add_inlineasm_restart ip t = Some t'"
    and "used t' = (if kspecem_inlineasm_restart_stat_size t < NUM_INLINEASM_RESTART_IPS
        then used t @ [\<lparr>restart_ip = ip, restart_count = 1\<rparr>] else used t)"
    and "kspecem_inlineasm_restart_stat_size t' \<le> NUM_INLINEASM_RESTART_IPS"
    and "length (kspecem_inlineasm_restart_stats t') = length (kspecem_inlineasm_restart_stats t)"
proof (cases "kspecem_inlineasm_restart_stat_size t < NUM_INLINEASM_RESTART_IPS")
  case True
  with wf have "kspecem_inlineasm_restart_stat_size t < length (kspecem_inlineasm_restart_stats t)"
    by (simp add: inlineasm_wf_def)
  with True found that [of "t\<lparr>kspecem_inlineasm_restart_stats := (kspecem_inlineasm_restart_stats t)
      [kspecem_inlineasm_restart_stat_size t := \<lparr>restart_ip = ip, restart_count = 1\<rparr>],
      kspecem_inlineasm_restart_stat_size := kspecem_inlineasm_restart_stat_size t + 1\<rparr>"]
  show ?thesis
    by (simp add: kspecem_add_inlineasm_restart_def used_def take_Suc_conv_app_nth Let_def)
next
  case False
  with wf found that [of t] show ?thesis
    by (simp add: kspecem_add_inlineasm_restart_def used_def inlineasm_wf_def)
qed

lemma count_of_split:
  assumes "used t = ys @ e # zs" and "restart_ip e = ip" and "distinct (map restart_ip (ys @ e # zs))"
  shows "count_of t ip = Some (restart_count e)"
proof -
  have "map_of (map (\<lambda>e. (restart_ip e, restart_count e)) ys) ip = None"
    using assms(2,3) by (force simp: map_of_eq_None_iff)
  with assms(1,2) show ?thesis by (simp add: count_of_def map_add_def)
qed

lemma count_of_perm:
  assumes "distinct (map restart_ip es)" and "mset es = mset fs"
  shows "map_of (map (\<lambda>e. (restart_ip e, restart_count e)) es)
    = map_of (map (\<lambda>e. (restart_ip e, restart_count e)) fs)"
proof -
  have "mset (map restart_ip es) = mset (map restart_ip fs)" using assms(2) by simp
  then have "distinct (map restart_ip fs)" using assms(1) mset_eq_imp_distinct_iff by blast
  with assms show ?thesis
    by (subst map_of_inject_set) (auto simp: o_def dest: mset_eq_setD)
qed

lemma add_found_wf:
  assumes wf: "inlineasm_wf t" and no_overflow: "count_of t ip \<noteq> Some (- 1)" and found: "find_ip (used t) ip = Some i"
  shows "\<exists>t'. kspecem_add_inlineasm_restart ip t = Some t' \<and> inlineasm_wf t'"
proof -
  from found obtain ys e zs t' where e: "used t = ys @ e # zs" "restart_ip e = ip"
    and t': "kspecem_add_inlineasm_restart ip t = Some t'"
      "used t' = takeWhile (\<lambda>y. restart_count e + 1 \<le> restart_count y) ys
      @ \<lparr>restart_ip = ip, restart_count = restart_count e + 1\<rparr>
      # dropWhile (\<lambda>y. restart_count e + 1 \<le> restart_count y) ys @ zs"
      "kspecem_inlineasm_restart_stat_size t' = kspecem_inlineasm_restart_stat_size t"
      "length (kspecem_inlineasm_restart_stats t') = length (kspecem_inlineasm_restart_stats t)"
    by (rule add_found [OF wf])
  let ?t = "\<lparr>restart_ip = ip, restart_count = restart_count e + 1\<rparr>"
  have dist: "distinct (map restart_ip (ys @ e # zs))" using wf e by (simp add: inlineasm_wf_def)
  have "count_of t ip = Some (restart_count e)" by (rule count_of_split [OF e dist])
  then have c: "restart_count e < restart_count e + 1"
    using no_overflow by (simp add: less_plus_1)
  have ms: "mset (used t') = mset (ys @ ?t # zs)"
    unfolding t'(2) by (rule mset_moved)
  have yz: "decreasing (ys @ zs)" and z: "\<forall>z \<in> set zs. restart_count z \<le> restart_count e"
    using wf unfolding inlineasm_wf_def e(1) by (auto simp: decreasing_def sorted_wrt_append)
  have "\<forall>z \<in> set zs. restart_count z \<le> restart_count ?t"
    using z c by (auto intro: order_trans less_imp_le)
  from decreasing_insert [OF yz this] have "decreasing (used t')"
    unfolding t'(2) by simp
  moreover have "distinct (map restart_ip (used t'))"
  proof -
    have "mset (map restart_ip (used t')) = mset (map restart_ip (ys @ e # zs))"
      using ms e(2) by simp
    with dist show ?thesis using mset_eq_imp_distinct_iff by blast
  qed
  moreover have "\<forall>x \<in> set (used t'). 0 < restart_count x"
    using mset_eq_setD [OF ms] wf e c by (auto simp: inlineasm_wf_def)
  ultimately show ?thesis using wf t' by (auto simp: inlineasm_wf_def)
qed

text \<open>
  C38. \<open>kspecem_add_inlineasm_restart\<close> keeps the table sorted by decreasing count, without
  duplicates and within its 40 entries, as long as the count of this instruction pointer
  does not overflow; it never writes outside the array.
\<close>

theorem kspecem_add_inlineasm_restart_wf:
  assumes wf: "inlineasm_wf t" and no_overflow: "count_of t ip \<noteq> Some (- 1)"
  shows "\<exists>t'. kspecem_add_inlineasm_restart ip t = Some t' \<and> inlineasm_wf t'"
proof (cases "find_ip (used t) ip")
  case None
  then obtain t' where t': "kspecem_add_inlineasm_restart ip t = Some t'"
    "used t' = (if kspecem_inlineasm_restart_stat_size t < NUM_INLINEASM_RESTART_IPS
        then used t @ [\<lparr>restart_ip = ip, restart_count = 1\<rparr>] else used t)"
    "kspecem_inlineasm_restart_stat_size t' \<le> NUM_INLINEASM_RESTART_IPS"
    "length (kspecem_inlineasm_restart_stats t') = length (kspecem_inlineasm_restart_stats t)"
    using add_not_found [OF wf] by blast
  have "1 \<le> c" if "0 < c" for c :: u64 using that by (simp add: word_le_nat_alt word_less_nat_alt)
  with wf t' None show ?thesis
    by (auto simp: inlineasm_wf_def decreasing_def sorted_wrt_append find_ip_None image_iff)
next
  case (Some i)
  with assms show ?thesis by (rule add_found_wf)
qed

definition example_inlineasm :: inlineasm_stats where
  "example_inlineasm = \<lparr>kspecem_inlineasm_restart_stats_enabled = True,
     kspecem_inlineasm_restart_stats = \<lparr>restart_ip = 16, restart_count = 2\<rparr>
       # \<lparr>restart_ip = 32, restart_count = 2\<rparr> # replicate 38 \<lparr>restart_ip = 0, restart_count = 0\<rparr>,
     kspecem_inlineasm_restart_stat_size = 2\<rparr>"

lemma example_inlineasm_wf: "inlineasm_wf example_inlineasm"
  by (auto simp: inlineasm_wf_def example_inlineasm_def used_def decreasing_def
      NUM_INLINEASM_RESTART_IPS_def)

lemma example_inlineasm_count: "count_of example_inlineasm 32 = Some 2"
  by (simp add: count_of_def example_inlineasm_def used_def)

theorem kspecem_add_inlineasm_restart_wf_witness:
  "\<exists>t'. kspecem_add_inlineasm_restart 32 example_inlineasm = Some t' \<and> inlineasm_wf t'"
  by (rule kspecem_add_inlineasm_restart_wf) (simp_all add: example_inlineasm_wf example_inlineasm_count)

text \<open>
  C39. Seen as a map from instruction pointers to counts, \<open>kspecem_add_inlineasm_restart\<close> adds
  one to the count of its argument, starts it at one when it is new and the table has room,
  and changes nothing else.
\<close>

theorem kspecem_add_inlineasm_restart_counts:
  assumes wf: "inlineasm_wf t" and t': "kspecem_add_inlineasm_restart ip t = Some t'"
  shows "count_of t' = (case count_of t ip of
      Some c \<Rightarrow> (count_of t)(ip \<mapsto> c + 1)
    | None \<Rightarrow> if kspecem_inlineasm_restart_stat_size t < NUM_INLINEASM_RESTART_IPS
              then (count_of t)(ip \<mapsto> 1) else count_of t)"
proof (cases "find_ip (used t) ip")
  case None
  then have n: "count_of t ip = None" by (auto simp: count_of_def map_of_eq_None_iff find_ip_None)
  have u: "used t' = (if kspecem_inlineasm_restart_stat_size t < NUM_INLINEASM_RESTART_IPS
        then used t @ [\<lparr>restart_ip = ip, restart_count = 1\<rparr>] else used t)"
    by (rule add_not_found [OF wf None]) (use t' in simp)
  have "map_of (xs @ [(ip, 1)]) = (map_of xs)(ip \<mapsto> 1)" if "map_of xs ip = None" for xs :: "(u64 \<times> u64) list"
    using that by (auto simp: fun_eq_iff map_add_def split: option.splits)
  with n show ?thesis by (simp add: count_of_def u)
next
  case (Some i)
  then obtain ys e zs t'' where e: "used t = ys @ e # zs" "restart_ip e = ip"
    and t'': "kspecem_add_inlineasm_restart ip t = Some t''"
      "used t'' = takeWhile (\<lambda>y. restart_count e + 1 \<le> restart_count y) ys
      @ \<lparr>restart_ip = ip, restart_count = restart_count e + 1\<rparr>
      # dropWhile (\<lambda>y. restart_count e + 1 \<le> restart_count y) ys @ zs"
    by (rule add_found [OF wf])
  let ?t = "\<lparr>restart_ip = ip, restart_count = restart_count e + 1\<rparr>"
  let ?kv = "\<lambda>e. (restart_ip e, restart_count e)"
  have dist: "distinct (map restart_ip (ys @ e # zs))" using wf e by (simp add: inlineasm_wf_def)
  have ms: "mset (used t'') = mset (ys @ ?t # zs)"
    unfolding t''(2) by (rule mset_moved)
  have "distinct (map restart_ip (ys @ ?t # zs))" using dist e(2) by simp
  then have "count_of t'' = map_of (map ?kv (ys @ ?t # zs))"
    using count_of_perm [OF _ ms [symmetric]] by (simp add: count_of_def)
  also have "\<dots> = (count_of t)(ip \<mapsto> restart_count e + 1)"
    using dist e by (auto simp: count_of_def fun_eq_iff map_add_def image_iff
        split: option.splits dest!: map_of_SomeD)
  finally show ?thesis
    using t' t''(1) count_of_split [OF e dist] by simp
qed

theorem kspecem_add_inlineasm_restart_counts_witness:
  "\<exists>t'. kspecem_add_inlineasm_restart 32 example_inlineasm = Some t'
    \<and> count_of t' = (count_of example_inlineasm)(32 \<mapsto> 2 + 1)"
proof -
  obtain t' where t': "kspecem_add_inlineasm_restart 32 example_inlineasm = Some t'"
    by (simp add: kspecem_add_inlineasm_restart_def example_inlineasm_def Let_def)
  from kspecem_add_inlineasm_restart_counts [OF example_inlineasm_wf t']
  have "count_of t' = (count_of example_inlineasm)(32 \<mapsto> 2 + 1)"
    by (simp add: example_inlineasm_count)
  with t' show ?thesis by blast
qed

text \<open>
  The array is only allocated when the statistics are enabled before initialisation. They
  are off by default and can be switched on later through debugfs; the first inline assembly
  restart then writes through the NULL array.
\<close>

theorem kspecem_inlineasm_enabled_late_null_write:
  "kspecem_add_inlineasm_restart ip
     ((kspecem_stats_inlineasm_init alloc initial_inlineasm_stats)
        \<lparr>kspecem_inlineasm_restart_stats_enabled := True\<rparr>) = None"
  by (simp add: kspecem_add_inlineasm_restart_def kspecem_stats_inlineasm_init_def
      initial_inlineasm_stats_def NUM_INLINEASM_RESTART_IPS_def)

text \<open>A freshly allocated table satisfies the invariant.\<close>

lemma kspecem_stats_inlineasm_init_wf:
  "kspecem_inlineasm_restart_stats_enabled t \<Longrightarrow> inlineasm_wf (kspecem_stats_inlineasm_init True t)"
  by (simp add: kspecem_stats_inlineasm_init_def inlineasm_wf_def used_def decreasing_def)

lemma length_shift_forward [simp]: "length (shift_forward i es e) = length es"
  by (induction i es e rule: shift_forward.induct) auto

lemma kspecem_add_inlineasm_restart_Some:
  assumes "length (kspecem_inlineasm_restart_stats t) = NUM_INLINEASM_RESTART_IPS"
  shows "\<exists>t'. kspecem_add_inlineasm_restart ip t = Some t'
    \<and> length (kspecem_inlineasm_restart_stats t') = NUM_INLINEASM_RESTART_IPS
    \<and> kspecem_inlineasm_restart_stats_enabled t' = kspecem_inlineasm_restart_stats_enabled t"
  using assms by (auto simp: kspecem_add_inlineasm_restart_def Let_def split: option.splits)

end
