(* ===== verification/KStats_Restarts.thy ===== *)
theory KStats_Restarts
  imports KStats_Inlineasm
begin

text \<open>
  The counters of why speculations ended (\<open>static/kspecem/kspecem_stats_restarts.c\<close>): one
  per restart type and a total. The restart type is a C \<open>int\<close>; the assertion path passes
  \<open>0xffff\<close>, which is none of the enumeration's values.
\<close>

section \<open>Definitions\<close>

abbreviation (input) KSPECEM_RESTART_RETURN :: int where "KSPECEM_RESTART_RETURN \<equiv> 0"
abbreviation (input) KSPECEM_RESTART_CALL :: int where "KSPECEM_RESTART_CALL \<equiv> 1"
abbreviation (input) KSPECEM_RESTART_CALL_UNDEFINED :: int where "KSPECEM_RESTART_CALL_UNDEFINED \<equiv> 2"
abbreviation (input) KSPECEM_RESTART_CALL_INLINE_ASM :: int where "KSPECEM_RESTART_CALL_INLINE_ASM \<equiv> 3"
abbreviation (input) KSPECEM_RESTART_BLACKLIST :: int where "KSPECEM_RESTART_BLACKLIST \<equiv> 4"
abbreviation (input) KSPECEM_RESTART_TIMER :: int where "KSPECEM_RESTART_TIMER \<equiv> 5"
abbreviation (input) KSPECEM_RESTART_EXCEPTION :: int where "KSPECEM_RESTART_EXCEPTION \<equiv> 6"
abbreviation (input) KSPECEM_RESTART_LIMIT_SPEC :: int where "KSPECEM_RESTART_LIMIT_SPEC \<equiv> 7"
abbreviation (input) KSPECEM_RESTART_CALL_DEPTH :: int where "KSPECEM_RESTART_CALL_DEPTH \<equiv> 8"
abbreviation (input) KSPECEM_RESTART_CALL_DISABLED :: int where "KSPECEM_RESTART_CALL_DISABLED \<equiv> 9"
abbreviation (input) KSPECEM_RESTART_WRITELOG_FULL :: int where "KSPECEM_RESTART_WRITELOG_FULL \<equiv> 10"
abbreviation (input) KSPECEM_RESTART_PAGE_FAULT :: int where "KSPECEM_RESTART_PAGE_FAULT \<equiv> 11"
abbreviation (input) NUM_RESTART_TYPES :: int where "NUM_RESTART_TYPES \<equiv> 12"

record kspecem_function_stats_t =
  kspecem_on_return_restarts :: u64
  kspecem_on_call_restarts :: u64
  kspecem_on_call_undefined_restarts :: u64
  kspecem_on_call_inlineasm_restarts :: u64
  kspecem_on_blacklist_restarts :: u64
  kspecem_on_exception_restarts :: u64
  kspecem_on_timer_restarts :: u64
  kspecem_on_limit_spec_restarts :: u64
  kspecem_on_call_depth_restarts :: u64
  kspecem_on_call_disabled :: u64
  kspecem_on_writelog_full_restarts :: u64
  kspecem_on_page_fault :: u64
  kspecem_total_restarts :: u64

definition zero_function_stats :: kspecem_function_stats_t where
  "zero_function_stats = \<lparr>kspecem_on_return_restarts = 0, kspecem_on_call_restarts = 0,
     kspecem_on_call_undefined_restarts = 0, kspecem_on_call_inlineasm_restarts = 0,
     kspecem_on_blacklist_restarts = 0, kspecem_on_exception_restarts = 0,
     kspecem_on_timer_restarts = 0, kspecem_on_limit_spec_restarts = 0,
     kspecem_on_call_depth_restarts = 0, kspecem_on_call_disabled = 0,
     kspecem_on_writelog_full_restarts = 0, kspecem_on_page_fault = 0, kspecem_total_restarts = 0\<rparr>"

text \<open>The global \<open>kspecem_total_statistics\<close> is \<open>None\<close> while the pointer is NULL (before
  initialisation, or after a failed \<open>kzalloc\<close>, which is not checked).\<close>

definition kspecem_stats_restarts_init :: "bool \<Rightarrow> kspecem_function_stats_t option" where
  "kspecem_stats_restarts_init alloc = (if alloc then Some zero_function_stats else None)"

text \<open>The switch over the restart type, on the per-type counters.\<close>

definition count_restart :: "int \<Rightarrow> kspecem_function_stats_t \<Rightarrow> kspecem_function_stats_t" where
  "count_restart restart_type t =
     (if restart_type = KSPECEM_RESTART_RETURN then
        t\<lparr>kspecem_on_return_restarts := kspecem_on_return_restarts t + 1\<rparr>
      else if restart_type = KSPECEM_RESTART_CALL then
        t\<lparr>kspecem_on_call_restarts := kspecem_on_call_restarts t + 1\<rparr>
      else if restart_type = KSPECEM_RESTART_CALL_UNDEFINED then
        t\<lparr>kspecem_on_call_undefined_restarts := kspecem_on_call_undefined_restarts t + 1\<rparr>
      else if restart_type = KSPECEM_RESTART_CALL_INLINE_ASM then
        t\<lparr>kspecem_on_call_inlineasm_restarts := kspecem_on_call_inlineasm_restarts t + 1\<rparr>
      else if restart_type = KSPECEM_RESTART_BLACKLIST then
        t\<lparr>kspecem_on_blacklist_restarts := kspecem_on_blacklist_restarts t + 1\<rparr>
      else if restart_type = KSPECEM_RESTART_TIMER then
        t\<lparr>kspecem_on_timer_restarts := kspecem_on_timer_restarts t + 1\<rparr>
      else if restart_type = KSPECEM_RESTART_EXCEPTION then
        t\<lparr>kspecem_on_exception_restarts := kspecem_on_exception_restarts t + 1\<rparr>
      else if restart_type = KSPECEM_RESTART_LIMIT_SPEC then
        t\<lparr>kspecem_on_limit_spec_restarts := kspecem_on_limit_spec_restarts t + 1\<rparr>
      else if restart_type = KSPECEM_RESTART_CALL_DEPTH then
        t\<lparr>kspecem_on_call_depth_restarts := kspecem_on_call_depth_restarts t + 1\<rparr>
      else if restart_type = KSPECEM_RESTART_CALL_DISABLED then
        t\<lparr>kspecem_on_call_disabled := kspecem_on_call_disabled t + 1\<rparr>
      else if restart_type = KSPECEM_RESTART_WRITELOG_FULL then
        t\<lparr>kspecem_on_writelog_full_restarts := kspecem_on_writelog_full_restarts t + 1\<rparr>
      else if restart_type = KSPECEM_RESTART_PAGE_FAULT then
        t\<lparr>kspecem_on_page_fault := kspecem_on_page_fault t + 1\<rparr>
      else t)"

text \<open>
  \<open>kspecem_add_restart_to_statistics\<close> on the counters and the inline assembly table. The
  outer \<open>None\<close> is a write through NULL, either here or in the table.
\<close>

definition kspecem_add_restart_to_statistics ::
  "int \<Rightarrow> u64 \<Rightarrow> kspecem_function_stats_t option \<Rightarrow> inlineasm_stats
   \<Rightarrow> (kspecem_function_stats_t option \<times> inlineasm_stats) option" where
  "kspecem_add_restart_to_statistics restart_type call_arg tot inl =
     (case tot of
        None \<Rightarrow> None
      | Some t \<Rightarrow>
          (let t = count_restart restart_type
                     (t\<lparr>kspecem_total_restarts := kspecem_total_restarts t + 1\<rparr>) in
           if restart_type = KSPECEM_RESTART_CALL_INLINE_ASM
              \<and> kspecem_inlineasm_restart_stats_enabled inl
           then map_option (\<lambda>inl'. (Some t, inl')) (kspecem_add_inlineasm_restart call_arg inl)
           else Some (Some t, inl)))"

text \<open>The numbers \<open>kspecem_print_restart_statistics\<close> prints, in its order, and the inline
  assembly lines that follow when they are enabled; \<open>None\<close> is the read through NULL.\<close>

definition kspecem_print_restart_statistics ::
  "kspecem_function_stats_t option \<Rightarrow> inlineasm_stats
   \<Rightarrow> (u64 list \<times> ((u64 \<times> u64) list \<times> bool) option) option" where
  "kspecem_print_restart_statistics tot inl =
     map_option (\<lambda>t.
       ([0, kspecem_total_restarts t, kspecem_on_return_restarts t, kspecem_on_call_restarts t,
         kspecem_on_call_undefined_restarts t, kspecem_on_call_inlineasm_restarts t,
         kspecem_on_blacklist_restarts t, kspecem_on_timer_restarts t,
         kspecem_on_exception_restarts t, kspecem_on_limit_spec_restarts t,
         kspecem_on_call_depth_restarts t, kspecem_on_call_disabled t,
         kspecem_on_writelog_full_restarts t, kspecem_on_page_fault t],
        if kspecem_inlineasm_restart_stats_enabled inl
        then Some (kspecem_print_inlineasm_stats inl) else None)) tot"

section \<open>The total is the sum of the counters\<close>

definition sum_of_counters :: "kspecem_function_stats_t \<Rightarrow> u64" where
  "sum_of_counters t = kspecem_on_return_restarts t + kspecem_on_call_restarts t
     + kspecem_on_call_undefined_restarts t + kspecem_on_call_inlineasm_restarts t
     + kspecem_on_blacklist_restarts t + kspecem_on_exception_restarts t
     + kspecem_on_timer_restarts t + kspecem_on_limit_spec_restarts t
     + kspecem_on_call_depth_restarts t + kspecem_on_call_disabled t
     + kspecem_on_writelog_full_restarts t + kspecem_on_page_fault t"

lemma count_restart_sum:
  assumes "0 \<le> ty" and "ty < NUM_RESTART_TYPES"
  shows "sum_of_counters (count_restart ty t) = sum_of_counters t + 1"
proof -
  have "ty = 0 \<or> ty = 1 \<or> ty = 2 \<or> ty = 3 \<or> ty = 4 \<or> ty = 5 \<or> ty = 6 \<or> ty = 7 \<or> ty = 8
      \<or> ty = 9 \<or> ty = 10 \<or> ty = 11" using assms by presburger
  then show ?thesis
    by (elim disjE) (simp_all add: count_restart_def sum_of_counters_def)
qed

lemma count_restart_total: "kspecem_total_restarts (count_restart ty t) = kspecem_total_restarts t"
  by (simp add: count_restart_def)

text \<open>
  For every restart type of the enumeration, \<open>kspecem_add_restart_to_statistics\<close> keeps the
  total equal to the sum of the per-type counters and raises the total by one (modulo the
  width of \<open>unsigned long\<close>).
\<close>

lemma kspecem_add_restart_keeps_sum:
  assumes "sum_of_counters t = kspecem_total_restarts t"
    and "0 \<le> ty" and "ty < NUM_RESTART_TYPES"
    and "kspecem_add_restart_to_statistics ty a (Some t) inl = Some (tot', inl')"
  shows "\<exists>t'. tot' = Some t' \<and> sum_of_counters t' = kspecem_total_restarts t'
    \<and> kspecem_total_restarts t' = kspecem_total_restarts t + 1"
proof -
  let ?t = "t\<lparr>kspecem_total_restarts := kspecem_total_restarts t + 1\<rparr>"
  have "tot' = Some (count_restart ty ?t)"
    using assms(4) by (auto simp: kspecem_add_restart_to_statistics_def Let_def split: if_splits)
  moreover have "sum_of_counters ?t = sum_of_counters t" by (simp add: sum_of_counters_def)
  ultimately show ?thesis
    using count_restart_sum [OF assms(2,3), of ?t] assms(1) by (simp add: count_restart_total)
qed

end
