(* ===== verification/KUtils.thy ===== *)
theory KUtils
  imports KPrelude "HOL-Library.Signed_Division"
begin

text \<open>
  The string and memory helpers of \<open>static/kspecem/kspecem_utils.c\<close>.

  A pointer into an object is the list of bytes from the pointer to the end of the
  object; reading or writing past that end is \<open>OutOfBounds\<close>. Functions that write
  return the changed object. The C string held by a buffer is the part before its first
  NUL (\<open>cstr\<close>).
\<close>

section \<open>Definitions\<close>

datatype c_error = OutOfBounds | AssertFailed

definition cstr :: "u8 list \<Rightarrow> u8 list" where
  "cstr s = takeWhile (\<lambda>c. c \<noteq> 0) s"

fun kspecem_strlen :: "u8 list \<Rightarrow> c_error + nat" where
  "kspecem_strlen [] = Inl OutOfBounds"
| "kspecem_strlen (c # cs) =
     (if c \<noteq> 0 then (case kspecem_strlen cs of Inl e \<Rightarrow> Inl e | Inr n \<Rightarrow> Inr (Suc n)) else Inr 0)"

text \<open>\<open>count\<close> is a C \<open>int\<close>; the loop tests it against 0 and decrements it, with wrap-around.\<close>

fun kspecem_strncmp :: "u8 list \<Rightarrow> u8 list \<Rightarrow> u32 \<Rightarrow> c_error + int" where
  "kspecem_strncmp cs ct count =
     (if count = 0 then Inr 0
      else (case (cs, ct) of
          (c1 # cs', c2 # ct') \<Rightarrow>
            (if c1 \<noteq> c2 then Inr (if c1 < c2 then -1 else 1)
             else if c1 = 0 then Inr 0
             else kspecem_strncmp cs' ct' (count - 1))
        | _ \<Rightarrow> Inl OutOfBounds))"

declare kspecem_strncmp.simps [simp del]

definition kspecem_strlcpy :: "u8 list \<Rightarrow> u8 list \<Rightarrow> nat \<Rightarrow> c_error + (nat \<times> u8 list)" where
  "kspecem_strlcpy dest src sz =
     (case kspecem_strlen src of
        Inl e \<Rightarrow> Inl e
      | Inr ret \<Rightarrow>
          (if sz \<noteq> 0 then
             (let len = (if sz \<le> ret then sz - 1 else ret) in
              if len < length dest
              then Inr (ret, take len src @ 0 # drop (Suc len) dest)
              else Inl OutOfBounds)
           else Inr (ret, dest)))"

definition kspecem_strlcat :: "u8 list \<Rightarrow> u8 list \<Rightarrow> nat \<Rightarrow> c_error + (nat \<times> u8 list)" where
  "kspecem_strlcat dest src count =
     (case kspecem_strlen dest of
        Inl e \<Rightarrow> Inl e
      | Inr dsize \<Rightarrow>
          (case kspecem_strlen src of
             Inl e \<Rightarrow> Inl e
           | Inr len \<Rightarrow>
               (let res = dsize + len in
                if \<not> dsize < count then Inl AssertFailed
                else
                  (let count = count - dsize;
                       len = (if count \<le> len then count - 1 else len) in
                   if dsize + len < length dest
                   then Inr (res, take dsize dest @ take len src @ 0 # drop (Suc (dsize + len)) dest)
                   else Inl OutOfBounds))))"

fun kspecem_memset :: "u8 list \<Rightarrow> u32 \<Rightarrow> nat \<Rightarrow> c_error + u8 list" where
  "kspecem_memset s c 0 = Inr s"
| "kspecem_memset [] c (Suc count) = Inl OutOfBounds"
| "kspecem_memset (x # xs) c (Suc count) =
     (case kspecem_memset xs c count of Inl e \<Rightarrow> Inl e | Inr ys \<Rightarrow> Inr (ucast c # ys))"

fun kspecem_checkzero :: "u8 list \<Rightarrow> nat \<Rightarrow> c_error + bool" where
  "kspecem_checkzero p 0 = Inr True"
| "kspecem_checkzero [] (Suc count) = Inl OutOfBounds"
| "kspecem_checkzero (b # p) (Suc count) = (if b \<noteq> 0 then Inr False else kspecem_checkzero p count)"

text \<open>The swap loop of \<open>kspecem_reverse_str\<close>; \<open>end\<close> starts at \<open>length - 1\<close>, which may be \<open>-1\<close>.\<close>

function reverse_loop :: "u8 list \<Rightarrow> int \<Rightarrow> int \<Rightarrow> u8 list" where
  "reverse_loop str st en =
     (if st < en
      then reverse_loop (str[nat en := str ! nat st, nat st := str ! nat en]) (st + 1) (en - 1)
      else str)"
  by pat_completeness auto
termination
  by (relation "measure (\<lambda>(str, st, en). nat (en - st))") auto

declare reverse_loop.simps [simp del]

definition kspecem_reverse_str :: "u8 list \<Rightarrow> nat \<Rightarrow> u8 list" where
  "kspecem_reverse_str str len = reverse_loop str 0 (int len - 1)"

text \<open>
  \<open>kspecem_itoa\<close> writes its result through \<open>str\<close>; the model returns the bytes written.
  Negation of a \<open>long long\<close> wraps (the kernel is built with \<open>-fno-strict-overflow\<close>).
  The digit loop need not end (base 1) and divides by \<open>base\<close> (base 0), so it is partial.
\<close>

definition neg_ll :: "int \<Rightarrow> int" where
  "neg_ll num = sint (- (word_of_int num :: u64))"

definition itoa_digit :: "int \<Rightarrow> u8" where
  "itoa_digit r = word_of_int (if r > 9 then (r - 10) + 97 else r + 48)"

partial_function (option) itoa_digits :: "int \<Rightarrow> int \<Rightarrow> u8 list \<Rightarrow> u8 list option" where
  "itoa_digits num base str =
     (if num \<noteq> 0
      then (if base = 0 then None
            else itoa_digits (num sdiv base) base (str @ [itoa_digit (num smod base)]))
      else Some str)"

definition kspecem_itoa :: "int \<Rightarrow> int \<Rightarrow> u8 list option" where
  "kspecem_itoa num base =
     (if num = 0 then Some [48, 0]
      else
        (let is_negative = (num < 0 \<and> base = 10);
             n = (if is_negative then neg_ll num else num) in
         case itoa_digits n base [] of
           None \<Rightarrow> None
         | Some str \<Rightarrow>
             (let str = (if is_negative then str @ [45] else str) in
              Some (kspecem_reverse_str (str @ [0]) (length str)))))"

section \<open>String length and comparison\<close>

lemma kspecem_strlen_cstr:
  "kspecem_strlen s = (if 0 \<in> set s then Inr (length (cstr s)) else Inl OutOfBounds)"
  by (induction s) (auto simp: cstr_def)

lemma cstr_Cons [simp]: "cstr (c # s) = (if c = 0 then [] else c # cstr s)"
  by (simp add: cstr_def)

lemma unat_minus_1: "(n :: u32) \<noteq> 0 \<Longrightarrow> unat n = Suc (unat (n - 1))"
  using unat_minus_one [of n] by (simp add: unat_gt_0)

lemma kspecem_strncmp_zero:
  assumes "0 \<in> set cs" and "0 \<in> set ct"
  shows "kspecem_strncmp cs ct n = Inr 0 \<longleftrightarrow> take (unat n) (cstr cs) = take (unat n) (cstr ct)"
  using assms
proof (induction cs ct n rule: kspecem_strncmp.induct)
  case (1 cs ct count)
  show ?case
  proof (cases "count = 0")
    case True
    then show ?thesis by (simp add: kspecem_strncmp.simps)
  next
    case False
    obtain c1 cs' c2 ct' where [simp]: "cs = c1 # cs'" "ct = c2 # ct'"
      using "1.prems" by (cases cs; cases ct) auto
    have u: "unat count = Suc (unat (count - 1))" using False by (rule unat_minus_1)
    have ih: "c1 = c2 \<Longrightarrow> c1 \<noteq> 0 \<Longrightarrow> (kspecem_strncmp cs' ct' (count - 1) = Inr 0) =
        (take (unat (count - 1)) (cstr cs') = take (unat (count - 1)) (cstr ct'))"
      using "1.IH" "1.prems" False by auto
    show ?thesis
      unfolding u using ih False by (subst kspecem_strncmp.simps) auto
  qed
qed

lemma kspecem_strncmp_total:
  assumes "0 \<in> set cs" and "0 \<in> set ct"
  shows "\<exists>r. kspecem_strncmp cs ct n = Inr r"
  using assms
proof (induction cs ct n rule: kspecem_strncmp.induct)
  case (1 cs ct count)
  then obtain c1 cs' c2 ct' where [simp]: "cs = c1 # cs'" "ct = c2 # ct'"
    by (cases cs; cases ct) auto
  have "count \<noteq> 0 \<Longrightarrow> c1 = c2 \<Longrightarrow> c1 \<noteq> 0 \<Longrightarrow> \<exists>r. kspecem_strncmp cs' ct' (count - 1) = Inr r"
    using "1.IH" "1.prems" by auto
  then show ?case by (subst kspecem_strncmp.simps) auto
qed

section \<open>Copying\<close>

lemma take_strlen: "n \<le> length (cstr s) \<Longrightarrow> take n s = take n (cstr s)"
  unfolding cstr_def by (metis takeWhile_dropWhile_id take_append diff_is_0_eq' take_0 append_Nil2)

lemma cstr_zero_free: "0 \<notin> set (cstr s)"
  unfolding cstr_def by (auto dest: set_takeWhileD)

lemma cstr_append_zero: "0 \<notin> set p \<Longrightarrow> cstr (p @ 0 # q) = p"
  by (induction p) (auto simp: cstr_def)

lemma zero_free_take: "0 \<notin> set p \<Longrightarrow> 0 \<notin> set (take n p)"
  using set_take_subset [of n p] by auto

text \<open>
  \<open>kspecem_strlcpy\<close> with a destination of at least \<open>size\<close> bytes returns the length of
  the source string, leaves a NUL-terminated copy of it cut to \<open>size - 1\<close> bytes, and writes
  nothing past \<open>size\<close> bytes.
\<close>

theorem kspecem_strlcpy_truncates:
  assumes "0 \<in> set src" and "0 < sz" and "sz \<le> length dest"
  shows "\<exists>dest'. kspecem_strlcpy dest src sz = Inr (length (cstr src), dest')
    \<and> cstr dest' = take (sz - 1) (cstr src) \<and> length dest' = length dest
    \<and> drop sz dest' = drop sz dest"
proof -
  define len where "len = (if sz \<le> length (cstr src) then sz - 1 else length (cstr src))"
  have len: "len \<le> length (cstr src)" "len < sz" using assms(2) by (auto simp: len_def)
  have t: "take len src = take len (cstr src)" using len by (simp add: take_strlen)
  have "cstr (take len src @ 0 # drop (Suc len) dest) = take len (cstr src)"
    unfolding t by (rule cstr_append_zero) (rule zero_free_take [OF cstr_zero_free])
  moreover have "take len (cstr src) = take (sz - 1) (cstr src)" by (simp add: len_def)
  moreover have "length (take len src) = len" unfolding t using len by simp
  moreover have "drop (sz - len) (0 # drop (Suc len) dest) = drop sz dest"
    using len by (simp add: drop_Cons' less_imp_Suc_add)
  ultimately show ?thesis
    using assms len
    by (auto simp: kspecem_strlcpy_def kspecem_strlen_cstr Let_def simp flip: len_def)
qed

theorem kspecem_strlcpy_truncates_witness:
  "\<exists>dest'. kspecem_strlcpy [9, 9, 9, 9] [104, 105, 106, 0] 3 = Inr (length (cstr [104, 105, 106, 0]), dest')
    \<and> cstr dest' = take (3 - 1) (cstr [104, 105, 106, 0]) \<and> length dest' = length [9, 9, 9, 9 :: u8]
    \<and> drop 3 dest' = drop 3 [9, 9, 9, 9]"
  by (rule kspecem_strlcpy_truncates) simp_all

text \<open>
  \<open>kspecem_strlcat\<close> appends the source string to the destination string, cut so that the
  result with its NUL fits in \<open>count\<close> bytes, and returns the length the full result would have;
  a destination string that already fills \<open>count\<close> bytes trips the assertion.
\<close>

theorem kspecem_strlcat_appends:
  assumes "0 \<in> set src" and "0 \<in> set dest" and "count \<le> length dest"
  shows "(if length (cstr dest) < count
    then \<exists>dest'. kspecem_strlcat dest src count = Inr (length (cstr dest) + length (cstr src), dest')
      \<and> cstr dest' = take (count - 1) (cstr dest @ cstr src) \<and> length dest' = length dest
    else kspecem_strlcat dest src count = Inl AssertFailed)"
proof (cases "length (cstr dest) < count")
  case True
  define d where "d = length (cstr dest)"
  define len where "len = (if count - d \<le> length (cstr src) then count - d - 1 else length (cstr src))"
  have len: "len \<le> length (cstr src)" "d + len < count"
    using True by (auto simp: len_def d_def)
  have td: "take d dest = cstr dest" using take_strlen [of d dest] by (simp add: d_def)
  have ts: "take len src = take len (cstr src)" using len by (simp add: take_strlen)
  have "cstr (take d dest @ take len src @ 0 # drop (Suc (d + len)) dest) = cstr dest @ take len (cstr src)"
    using cstr_append_zero [of "cstr dest @ take len (cstr src)"] cstr_zero_free [of dest]
      zero_free_take [OF cstr_zero_free, of len src]
    unfolding td ts by simp
  moreover have "cstr dest @ take len (cstr src) = take (count - 1) (cstr dest @ cstr src)"
    using True by (auto simp: len_def d_def)
  moreover have "length (take d dest @ take len src @ 0 # drop (Suc (d + len)) dest) = length dest"
    using len assms(3) unfolding td ts by (simp add: d_def)
  ultimately show ?thesis
    using True assms len
    by (auto simp: kspecem_strlcat_def kspecem_strlen_cstr Let_def simp flip: d_def len_def)
qed (use assms in \<open>simp add: kspecem_strlcat_def kspecem_strlen_cstr\<close>)

theorem kspecem_strlcat_appends_witness:
  "(if length (cstr [104, 0, 7, 7]) < 3
    then \<exists>dest'. kspecem_strlcat [104, 0, 7, 7] [105, 106, 0] 3
        = Inr (length (cstr [104, 0, 7, 7]) + length (cstr [105, 106, 0]), dest')
      \<and> cstr dest' = take (3 - 1) (cstr [104, 0, 7, 7] @ cstr [105, 106, 0])
      \<and> length dest' = length [104, 0, 7, 7 :: u8]
    else kspecem_strlcat [104, 0, 7, 7] [105, 106, 0] 3 = Inl AssertFailed)"
  by (rule kspecem_strlcat_appends) simp_all

section \<open>Filling and checking memory\<close>

lemma kspecem_memset_eq:
  "kspecem_memset s c n =
     (if n \<le> length s then Inr (replicate n (ucast c) @ drop n s) else Inl OutOfBounds)"
  by (induction s c n rule: kspecem_memset.induct) auto

lemma kspecem_checkzero_eq:
  "n \<le> length p \<Longrightarrow> kspecem_checkzero p n = Inr (\<forall>b \<in> set (take n p). b = 0)"
  by (induction p n rule: kspecem_checkzero.induct) auto

text \<open>A buffer just cleared with \<open>kspecem_memset\<close> passes \<open>kspecem_checkzero\<close>.\<close>

lemma memset_checkzero:
  "kspecem_memset s 0 n = Inr s' \<Longrightarrow> kspecem_checkzero s' n = Inr True"
  by (auto simp: kspecem_memset_eq kspecem_checkzero_eq split: if_splits)

section \<open>Reversal\<close>

lemma length_reverse_loop [simp]: "length (reverse_loop str st en) = length str"
proof (induction str st en rule: reverse_loop.induct)
  case (1 str st en)
  then show ?case by (cases "st < en") (simp_all add: reverse_loop.simps [of str st en])
qed

lemma nth_reverse_loop:
  assumes "0 \<le> st" and "en < int (length str)" and "k < length str"
  shows "reverse_loop str st en ! k =
    (if st \<le> int k \<and> int k \<le> en then str ! nat (st + en - int k) else str ! k)"
  using assms
proof (induction str st en rule: reverse_loop.induct)
  case (1 str st en)
  show ?case
  proof (cases "st < en")
    case True
    let ?str = "str[nat en := str ! nat st, nat st := str ! nat en]"
    have eq: "reverse_loop str st en ! k = reverse_loop ?str (st + 1) (en - 1) ! k"
      using True by (subst reverse_loop.simps) simp
    have ih: "reverse_loop ?str (st + 1) (en - 1) ! k =
      (if st + 1 \<le> int k \<and> int k \<le> en - 1 then ?str ! nat (st + 1 + (en - 1) - int k) else ?str ! k)"
      using "1.IH" True "1.prems" by simp
    have ne: "nat st \<noteq> nat en" "nat st < length str" "nat en < length str"
      using True "1.prems" by auto
    consider "int k = st" | "int k = en" | "st < int k" "int k < en" | "int k < st \<or> en < int k"
      by linarith
    then show ?thesis
    proof cases
      case 1
      then have "k = nat st" by simp
      with 1 show ?thesis unfolding eq ih using True ne by simp
    next
      case 2
      then have "k = nat en" by simp
      with 2 show ?thesis unfolding eq ih using True ne by simp
    next
      case 3
      then have "nat (st + en - int k) \<noteq> nat st" "nat (st + en - int k) \<noteq> nat en"
        using "1.prems"(1) True by (auto simp: nat_eq_iff)
      with 3 show ?thesis unfolding eq ih by simp
    next
      case 4
      then have "k \<noteq> nat st" "k \<noteq> nat en" using "1.prems"(1) True by arith+
      with 4 show ?thesis unfolding eq ih using True by auto
    qed
  next
    case False
    then have "nat (st + en - int k) = k" if "st \<le> int k" "int k \<le> en" using that by simp
    with False show ?thesis by (simp add: reverse_loop.simps [of str st en])
  qed
qed

lemma kspecem_reverse_str_rev:
  assumes "n \<le> length str"
  shows "kspecem_reverse_str str n = rev (take n str) @ drop n str"
proof (rule nth_equalityI)
  show "length (kspecem_reverse_str str n) = length (rev (take n str) @ drop n str)"
    using assms by (simp add: kspecem_reverse_str_def)
next
  fix k assume "k < length (kspecem_reverse_str str n)"
  then have "k < length str" by (simp add: kspecem_reverse_str_def)
  then show "kspecem_reverse_str str n ! k = (rev (take n str) @ drop n str) ! k"
    using assms
    by (auto simp: kspecem_reverse_str_def nth_reverse_loop nth_append rev_nth nat_diff_distrib'
        intro!: arg_cong [where f = "nth str"])
qed

section \<open>Integers as text\<close>

text \<open>Reading the text back: the value of a digit character and of a digit string.\<close>

definition digit_value :: "u8 \<Rightarrow> int" where
  "digit_value c = (if 97 \<le> uint c then uint c - 97 + 10 else uint c - 48)"

definition parse_digits :: "int \<Rightarrow> u8 list \<Rightarrow> int" where
  "parse_digits base cs = foldl (\<lambda>v c. v * base + digit_value c) 0 cs"

lemma digit_value_itoa_digit: "0 \<le> d \<Longrightarrow> d < 36 \<Longrightarrow> digit_value (itoa_digit d) = d"
  by (auto simp: digit_value_def itoa_digit_def uint_word_of_int)

lemma sdiv_smod_nonneg: "0 \<le> (n :: int) \<Longrightarrow> 0 < b \<Longrightarrow> n sdiv b = n div b \<and> n smod b = n mod b"
  by (cases "n = 0") (simp_all add: signed_divide_int_def signed_modulo_int_def minus_div_mult_eq_mod)

lemma itoa_digits_value:
  assumes "0 \<le> n" and "2 \<le> base" and "base \<le> 36"
  shows "\<exists>cs. itoa_digits n base str = Some (str @ cs) \<and> parse_digits base (rev cs) = n
    \<and> (cs = [] \<longleftrightarrow> n = 0) \<and> (\<forall>c \<in> set cs. 0 \<le> digit_value c \<and> digit_value c < base)"
  using assms(1)
proof (induction "nat n" arbitrary: n str rule: less_induct)
  case less
  show ?case
  proof (cases "n = 0")
    case True
    then show ?thesis by (simp add: itoa_digits.simps parse_digits_def)
  next
    case False
    then have n: "0 < n" using less.prems by simp
    have dm: "n sdiv base = n div base" "n smod base = n mod base"
      using sdiv_smod_nonneg [of n base] n assms(2) by auto
    have "n div base < n" using n assms(2) by (intro int_div_less_self) auto
    then have "nat (n div base) < nat n" using n by simp
    moreover have "0 \<le> n div base" using n assms(2) by (simp add: pos_imp_zdiv_nonneg_iff)
    ultimately obtain cs where cs: "itoa_digits (n div base) base (str @ [itoa_digit (n mod base)])
        = Some ((str @ [itoa_digit (n mod base)]) @ cs)"
      and v: "parse_digits base (rev cs) = n div base"
      and r: "\<forall>c \<in> set cs. 0 \<le> digit_value c \<and> digit_value c < base"
      using less.hyps by blast
    let ?cs = "itoa_digit (n mod base) # cs"
    have d: "digit_value (itoa_digit (n mod base)) = n mod base"
      using assms by (intro digit_value_itoa_digit) (auto intro: less_le_trans [OF pos_mod_bound])
    have "itoa_digits n base str = Some (str @ ?cs)"
      using False assms cs by (subst itoa_digits.simps) (simp add: dm)
    moreover have "parse_digits base (rev ?cs) = n"
      using v d by (simp add: parse_digits_def)
    ultimately show ?thesis using False r d assms by (auto intro!: exI [of _ ?cs])
  qed
qed

lemma itoa_reversed: "kspecem_reverse_str (str @ [0]) (length str) = rev str @ [0]"
  by (simp add: kspecem_reverse_str_rev)

text \<open>
  C40. \<open>kspecem_itoa\<close> returns for every non-negative number and base from 2 to 36, writes a
  NUL-terminated, non-empty string of digits of that base, and reading the digits back gives
  the number.
\<close>

theorem kspecem_itoa_round_trip:
  assumes "0 \<le> num" and "2 \<le> base" and "base \<le> 36"
  shows "\<exists>cs. kspecem_itoa num base = Some (cs @ [0]) \<and> parse_digits base cs = num \<and> cs \<noteq> []
    \<and> (\<forall>c \<in> set cs. 0 \<le> digit_value c \<and> digit_value c < base)"
proof (cases "num = 0")
  case True
  then show ?thesis
    using assms by (auto simp: kspecem_itoa_def parse_digits_def digit_value_def intro!: exI [of _ "[48]"])
next
  case False
  obtain cs where "itoa_digits num base [] = Some ([] @ cs)" "parse_digits base (rev cs) = num"
    "cs \<noteq> []" "\<forall>c \<in> set cs. 0 \<le> digit_value c \<and> digit_value c < base"
    using itoa_digits_value [OF assms, of "[]"] False by blast
  then show ?thesis
    using False assms(1) by (auto simp: kspecem_itoa_def itoa_reversed intro!: exI [of _ "rev cs"])
qed

theorem kspecem_itoa_round_trip_witness:
  "\<exists>cs. kspecem_itoa 255 16 = Some (cs @ [0]) \<and> parse_digits 16 cs = 255 \<and> cs \<noteq> []
    \<and> (\<forall>c \<in> set cs. 0 \<le> digit_value c \<and> digit_value c < 16)"
  by (rule kspecem_itoa_round_trip) simp_all

text \<open>A negative number above the least \<open>long long\<close> is written in base 10 with a leading minus sign.\<close>

lemma neg_ll_in_range: "- (2 ^ 63) < num \<Longrightarrow> num < 0 \<Longrightarrow> neg_ll num = - num"
  by (simp add: neg_ll_def signed_of_int signed_take_bit_int_eq_self flip: of_int_minus)

lemma kspecem_itoa_negative:
  assumes "- (2 ^ 63) < num" and "num < 0"
  shows "\<exists>cs. kspecem_itoa num 10 = Some (45 # cs @ [0]) \<and> parse_digits 10 cs = - num"
proof -
  obtain cs where "itoa_digits (- num) 10 [] = Some ([] @ cs)" "parse_digits 10 (rev cs) = - num"
    using itoa_digits_value [of "- num" 10 "[]"] assms(2) by auto
  then show ?thesis
    using assms itoa_reversed [of "cs @ [45]"]
    by (auto simp: kspecem_itoa_def neg_ll_in_range intro!: exI [of _ "rev cs"])
qed

text \<open>
  For the least \<open>long long\<close> the negation in \<open>kspecem_itoa\<close> overflows, every remainder is
  negative, and the bytes written after the minus sign are below the digit zero: the text is
  not a number.
\<close>

theorem kspecem_itoa_llong_min:
  "kspecem_itoa (- 9223372036854775808) 10 = Some (map word_of_int
     [45, 39, 46, 46, 45, 45, 41, 46, 48, 45, 42, 40, 43, 44, 41, 41, 43, 40, 48, 40, 0])"
proof -
  have neg: "neg_ll (- 9223372036854775808) = - 9223372036854775808"
    by (simp add: neg_ll_def)
  have "itoa_digits (- 9223372036854775808) 10 [] = Some (map word_of_int
     [40, 48, 40, 43, 41, 41, 44, 43, 40, 42, 45, 48, 46, 41, 45, 45, 46, 46, 39])"
    by (simp add: itoa_digits.simps signed_divide_int_def signed_modulo_int_def itoa_digit_def)
  with itoa_reversed show ?thesis
    by (simp add: kspecem_itoa_def neg)
qed

end
