(* ===== verification/KWhitelist.thy ===== *)
theory KWhitelist
  imports KUtils
begin

text \<open>
  Which tasks may start a speculation (\<open>static/kspecem/kspecem_whitelist.c\<close>). The system
  call number (\<open>kspecem_syscall_get_nr\<close>, provided by the kernel) and the task's name
  (\<open>current->comm\<close>) are arguments.
\<close>

section \<open>Definitions\<close>

abbreviation (input) KSPECEM_WHITELIST_DISABLED :: u32 where "KSPECEM_WHITELIST_DISABLED \<equiv> 0"
abbreviation (input) KSPECEM_WHITELIST_TASKS :: u32 where "KSPECEM_WHITELIST_TASKS \<equiv> 1"
abbreviation (input) KSPECEM_WHITELIST_SYSCALL :: u32 where "KSPECEM_WHITELIST_SYSCALL \<equiv> 2"

text \<open>The kernel's size of a task name.\<close>

definition TASK_COMM_LEN :: u32 where
  "TASK_COMM_LEN = 16"

definition kspecem_whitelist_init :: u32 where
  "kspecem_whitelist_init = KSPECEM_WHITELIST_SYSCALL"

text \<open>A string literal of the source as bytes, with its NUL.\<close>

definition c_string :: "string \<Rightarrow> u8 list" where
  "c_string s = map of_char s @ [0]"

definition name_is :: "u8 list \<Rightarrow> string \<Rightarrow> u32 \<Rightarrow> c_error + bool" where
  "name_is task_name lit n =
     (case kspecem_strncmp task_name (c_string lit) n of Inl e \<Rightarrow> Inl e | Inr r \<Rightarrow> Inr (r = 0))"

text \<open>The disjunction \<open>||\<close> of comparisons, from left to right, stopping at the first match.\<close>

fun any_match :: "(c_error + bool) list \<Rightarrow> c_error + bool" where
  "any_match [] = Inr False"
| "any_match (Inl e # ms) = Inl e"
| "any_match (Inr b # ms) = (if b then Inr True else any_match ms)"

definition task_name_matches :: "u8 list \<Rightarrow> c_error + bool" where
  "task_name_matches task_name =
     any_match
      [name_is task_name ''kasper_task'' TASK_COMM_LEN,
       name_is task_name ''syz-executor'' (of_nat (projr (kspecem_strlen (c_string ''syz-executor'')))),
       name_is task_name ''mkdir'' TASK_COMM_LEN,
       name_is task_name ''pwd'' TASK_COMM_LEN,
       name_is task_name ''cat'' TASK_COMM_LEN,
       name_is task_name ''tail'' TASK_COMM_LEN,
       name_is task_name ''ls'' TASK_COMM_LEN]"

definition kspecem_is_whitelist_task :: "u32 \<Rightarrow> u64 \<Rightarrow> u8 list \<Rightarrow> c_error + bool" where
  "kspecem_is_whitelist_task whitelist_type syscall_nr task_name =
     (if whitelist_type = KSPECEM_WHITELIST_DISABLED then Inr True
      else if whitelist_type = KSPECEM_WHITELIST_SYSCALL then
        (if syscall_nr < 600 \<or> 1200 < syscall_nr then Inr False
         else task_name_matches task_name)
      else if whitelist_type = KSPECEM_WHITELIST_TASKS then task_name_matches task_name
      else Inr True)"

section \<open>What is whitelisted\<close>

lemma name_is_eq:
  assumes "0 \<in> set task_name"
  shows "name_is task_name lit n =
    Inr (take (unat n) (cstr task_name) = take (unat n) (cstr (c_string lit)))"
proof -
  have lit: "0 \<in> set (c_string lit)" by (simp add: c_string_def)
  obtain r where "kspecem_strncmp task_name (c_string lit) n = Inr r"
    using kspecem_strncmp_total [OF assms lit] by blast
  with kspecem_strncmp_zero [OF assms lit, of n] show ?thesis
    by (simp add: name_is_def)
qed

lemma cstr_comm_length: "0 \<in> set (take n s) \<Longrightarrow> length (cstr s) < n"
proof (induction s arbitrary: n)
  case (Cons c s)
  then show ?case by (cases n) auto
qed simp

definition whitelisted_name :: "u8 list \<Rightarrow> bool" where
  "whitelisted_name name \<longleftrightarrow>
     name \<in> map of_char ` {''kasper_task'', ''mkdir'', ''pwd'', ''cat'', ''tail'', ''ls''}
     \<or> take 12 name = map of_char ''syz-executor''"

lemma task_name_matches_eq:
  assumes "0 \<in> set (take 16 task_name)"
  shows "task_name_matches task_name = Inr (whitelisted_name (cstr task_name))"
proof -
  have z: "0 \<in> set task_name" using assms set_take_subset by fast
  have l: "take 16 (cstr task_name) = cstr task_name"
    using cstr_comm_length [OF assms] by simp
  have len: "projr (kspecem_strlen (c_string ''syz-executor'')) = 12"
    by (simp add: c_string_def)
  have c: "cstr (c_string lit) = map of_char lit" if "\<forall>x \<in> set lit. (of_char x :: u8) \<noteq> 0" for lit
    unfolding c_string_def using that by (intro cstr_append_zero) force
  have lits: "cstr (c_string ''kasper_task'') = map of_char ''kasper_task''"
    "cstr (c_string ''syz-executor'') = map of_char ''syz-executor''"
    "cstr (c_string ''mkdir'') = map of_char ''mkdir''" "cstr (c_string ''pwd'') = map of_char ''pwd''"
    "cstr (c_string ''cat'') = map of_char ''cat''" "cstr (c_string ''tail'') = map of_char ''tail''"
    "cstr (c_string ''ls'') = map of_char ''ls''"
    by (rule c, simp)+
  have short: "take 16 (map of_char lit :: u8 list) = map of_char lit" if "length lit \<le> 16" for lit
    using that by simp
  have n: "unat TASK_COMM_LEN = 16" "unat (of_nat 12 :: u32) = 12" by (simp_all add: TASK_COMM_LEN_def)
  show ?thesis
    unfolding task_name_matches_def len name_is_eq [OF z] lits n l whitelisted_name_def
    by (simp only: any_match.simps short list.size) auto
qed

lemma whitelist_task_total:
  assumes "0 \<in> set (take 16 task_name)"
  shows "\<exists>w. kspecem_is_whitelist_task ty nr task_name = Inr w"
  using task_name_matches_eq [OF assms] by (auto simp: kspecem_is_whitelist_task_def)

text \<open>
  C37. With a task name that is NUL-terminated within \<open>TASK_COMM_LEN\<close> bytes, a task is
  whitelisted exactly when whitelisting is off (or has an unknown value), or its name is one of
  six exact names or starts with \<open>syz-executor\<close> and, in system call mode, its system call
  number is between 600 and 1200.
\<close>

theorem kspecem_is_whitelist_task_iff:
  assumes "0 \<in> set (take 16 task_name)"
  shows "kspecem_is_whitelist_task ty nr task_name = Inr
    (ty \<notin> {KSPECEM_WHITELIST_TASKS, KSPECEM_WHITELIST_SYSCALL}
     \<or> (ty = KSPECEM_WHITELIST_SYSCALL \<longrightarrow> 600 \<le> nr \<and> nr \<le> 1200)
        \<and> whitelisted_name (cstr task_name))"
  using task_name_matches_eq [OF assms]
  by (auto simp: kspecem_is_whitelist_task_def not_less)

theorem kspecem_is_whitelist_task_iff_witness:
  "kspecem_is_whitelist_task KSPECEM_WHITELIST_SYSCALL 700 (c_string ''ls'') = Inr True
   \<and> kspecem_is_whitelist_task KSPECEM_WHITELIST_SYSCALL 599 (c_string ''ls'') = Inr False"
proof -
  have z: "0 \<in> set (take 16 (c_string ''ls''))" by (simp add: c_string_def)
  show ?thesis
    unfolding kspecem_is_whitelist_task_iff [OF z]
    by (simp add: whitelisted_name_def) (simp add: c_string_def)
qed

end
