(* ===== verification/KState.thy ===== *)
theory KState
  imports KRegisters KStatistics KStats_Restarts KWhitelist
begin

text \<open>
  The globals of the runtime library in one record, what it uses of the kernel, and the
  assertion machinery of \<open>static/kspecem/kspecem_assert.c\<close>.

  \<^item> \<open>'c kernel\<close>: the kernel functions and addresses the library is linked against, as
    parameters. \<open>'c\<close> is whatever the kernel keeps (interrupt flag, preemption count, NMI
    handling, the current task).
  \<^item> \<open>site\<close>: where the frames of \<open>kspecem_restart\<close> and \<open>kspecem_restore_writelog\<close> lie on the
    stack during one call of a hook, and the hook's return address.
  \<^item> \<open>'c kstate\<close>: memory, the machine's registers, the kernel log, and one field per global
    variable, under its C name.
\<close>

section \<open>Data of kspecem\_bugs.h\<close>

definition BUGS_LIST_SIZE :: nat where
  "BUGS_LIST_SIZE = 100"

definition LABEL_INFO_STR_MAX :: nat where
  "LABEL_INFO_STR_MAX = 400"

text \<open>Labels of the data flow sanitizer are only stored, compared and printed here.\<close>

type_synonym dfsan_label = u32

record kasan_access_info =
  access_addr :: u64
  first_bad_addr :: u64
  access_size :: u64
  access_is_write :: bool
  access_ip :: u64

record kspecem_label_info =
  label_of :: dfsan_label
  label_info :: "u8 list"

datatype access_type_enum = UNDEF_ACCESS | KASAN_ACCESS | MDS_ACCESS | CC_ACCESS | PC_ACCESS

record kspecem_bug =
  kinfo :: kasan_access_info
  bug_in_spec :: bool
  spec_length :: u32
  data_label :: kspecem_label_info
  ptr_label :: kspecem_label_info
  access_type :: access_type_enum

abbreviation (input) PRINT_DEFAULT :: u32 where "PRINT_DEFAULT \<equiv> 0"
abbreviation (input) PRINT_NONE :: u32 where "PRINT_NONE \<equiv> 1"
abbreviation (input) PRINT_DUPLICATES :: u32 where "PRINT_DUPLICATES \<equiv> 2"

text \<open>A bug whose bytes are all zero.\<close>

definition zero_bug :: kspecem_bug where
  "zero_bug = \<lparr>kinfo = \<lparr>access_addr = 0, first_bad_addr = 0, access_size = 0,
       access_is_write = False, access_ip = 0\<rparr>,
     bug_in_spec = False, spec_length = 0,
     data_label = \<lparr>label_of = 0, label_info = replicate LABEL_INFO_STR_MAX 0\<rparr>,
     ptr_label = \<lparr>label_of = 0, label_info = replicate LABEL_INFO_STR_MAX 0\<rparr>,
     access_type = UNDEF_ACCESS\<rparr>"

section \<open>The kernel log\<close>

text \<open>One constructor per message of the library, with the values it prints, and for the
  kernel's own reports (\<open>kasan_report_original\<close>, \<open>show_stack\<close>) the call.\<close>

datatype klog_line =
    Restart_Begin
  | Bug_Begin string dfsan_label dfsan_label bool u32
  | Data_Label "u8 list"
  | Ptr_Label "u8 list"
  | Kasan_Report u64 u64 bool u64
  | Bug_End
  | Restart_Info u64 u64 int u32
  | Show_Stack
  | Restart_End
  | Restart_Statistics "u64 list"
  | Inlineasm_Statistics "(u64 \<times> u64) list" bool
  | Panic_Header bool nat
  | Panic_Entry nat kspecem_func_type_e u64 u64
  | Printk string

section \<open>What the kernel provides\<close>

record 'c kernel =
  preempt_disable :: "'c \<Rightarrow> 'c"
  preempt_enable :: "'c \<Rightarrow> 'c"
  local_irq_save :: "'c \<Rightarrow> u64 \<times> 'c"
  local_irq_restore :: "u64 \<Rightarrow> 'c \<Rightarrow> 'c"
  irqs_disabled :: "'c \<Rightarrow> bool"
  stop_nmi :: "'c \<Rightarrow> 'c"
  restart_nmi :: "'c \<Rightarrow> 'c"
  in_interrupt :: "'c \<Rightarrow> bool"
  kspecem_syscall_get_nr :: "'c \<Rightarrow> u64"
  current_comm :: "'c \<Rightarrow> u8 list"
  dfsan_copy_label_info :: "dfsan_label \<Rightarrow> u8 list \<Rightarrow> nat \<Rightarrow> u8 list"
  kdf_virt_addr_valid :: "'c \<Rightarrow> addr \<Rightarrow> bool"
  text_start :: u64
  text_end :: u64
  adr_writelog_addrs :: addr
  adr_writelog_data :: addr
  adr_wl_position :: addr
  adr_writelog_enabled :: addr
  adr_registers :: addr

record site =
  ret_addr :: u64
  restart_frame :: addr
  restore_rsp :: addr
  adr_i :: addr
  adr_num_entries :: addr

section \<open>The globals\<close>

text \<open>\<open>fmt\<close> is \<open>None\<close> while it holds the initial \<open>(char *)-1\<close>.\<close>

record kspecem_spec_assert_t =
  assert_fmt :: "string option"
  assert_file :: string
  assert_line :: string
  assert_condition :: string

record 'c kstate =
  mem :: memory
  hw :: pt_regs
  cpu :: 'c
  klog :: "klog_line list"
  kspecem_max_speculative_instructions :: u32
  kspecem_max_call_depth :: u32
  kspecem_speculative_instr_count :: u32
  kspecem_in_speculative_emulation :: bool
  kspecem_init_done :: bool
  kspecem_is_in_rt :: bool
  kspecem_is_in_restart :: bool
  kspecem_spec_assert :: kspecem_spec_assert_t
  kspecem_swap_branch_enabled :: bool
  kspecem_swap_branch_condition :: bool
  kspecem_spec_call_depth :: u32
  kspecem_call_depth :: u32
  kspecem_writelog_addrs :: addr
  kspecem_writelog_data :: addr
  kspecem_writelog_meta :: addr
  wl_addrs :: "nat \<Rightarrow> addr"
  wl_data :: "nat \<Rightarrow> u64"
  wl_meta :: "nat \<Rightarrow> u64"
  kspecem_wl_position :: u64
  kspecem_writelog_enabled :: bool
  kspecem_wl_stack :: addr
  wl_stack_bytes :: "nat \<Rightarrow> u8"
  kspecem_wl_stack_base_address :: addr
  kspecem_wl_stack_len :: u64
  kspecem_registers :: pt_regs
  kspecem_registers_ptr :: addr
  spec_stats :: spec_statistics
  inlineasm :: inlineasm_stats
  kspecem_total_statistics :: "kspecem_function_stats_t option"
  kspecem_print_level :: u32
  kspecem_next_bug_index :: nat
  kspecem_bugs_ptr :: addr
  kspecem_bugs :: "nat \<Rightarrow> kspecem_bug"
  kspecem_previous_bugs_map :: "nat \<Rightarrow> (nat \<Rightarrow> u8) option"
  kspecem_report_error_dump_stack :: bool
  kspecem_whitelist_type :: u32
  pf_dummy_region :: addr
  kdf_is_init_done :: bool
  kdf_is_in_rt :: bool
  kdfinit_is_init_done :: bool
  kdfinit_is_in_rt :: bool

type_synonym ('c, 'a) kop = "('c kstate, 'a) km"

definition printk :: "klog_line \<Rightarrow> ('c, unit) kop" where
  "printk l = modifyM (\<lambda>s. s\<lparr>klog := klog s @ [l]\<rparr>)"

definition lt_panic :: "string \<Rightarrow> string \<Rightarrow> string \<Rightarrow> ('c, 'a) kop" where
  "lt_panic file line m = panicM [''%s:%d: panic: %s'', file, line, m]"

section \<open>Assertions\<close>

text \<open>
  \<open>kspecem_panic\<close>. Outside a speculation the kernel panics. Inside one the failure is
  recorded and, unless a restart is already under way, \<open>kspecem_hook_restart\<close> is called to
  leave the speculation first; that call is the argument \<open>rst\<close>. During a restart the
  function returns and the code after the assertion goes on.
\<close>

definition kspecem_panic ::
  "('c, unit) kop \<Rightarrow> string \<Rightarrow> string \<Rightarrow> string \<Rightarrow> string \<Rightarrow> ('c, unit) kop" where
  "kspecem_panic rst fmt file line condition =
     ifM kspecem_in_speculative_emulation
       (thenM (modifyM (\<lambda>s. s\<lparr>kspecem_spec_assert :=
            \<lparr>assert_fmt = Some fmt, assert_file = file, assert_line = line,
             assert_condition = condition\<rparr>\<rparr>))
          (whenM (\<lambda>s. \<not> kspecem_is_in_restart s) rst))
       (panicM [fmt, file, line, condition])"

definition kspecem_assert_print :: "('c, unit) kop \<Rightarrow> string \<Rightarrow> string \<Rightarrow> string \<Rightarrow> ('c, unit) kop" where
  "kspecem_assert_print rst file line condition =
     kspecem_panic rst ''assert failed in %s: %s: %s'' file line condition"

definition lt_assert ::
  "('c, unit) kop \<Rightarrow> string \<Rightarrow> string \<Rightarrow> string \<Rightarrow> ('c kstate \<Rightarrow> bool) \<Rightarrow> ('c, unit) kop" where
  "lt_assert rst file line condition test =
     whenM (\<lambda>s. \<not> test s) (kspecem_assert_print rst file line condition)"

text \<open>\<open>kspecem_panic_info\<close>: the header, then one line per recorded entry of the speculation.\<close>

definition kspecem_panic_info :: "('c, unit) kop" where
  "kspecem_panic_info =
     thenM (bindM (getM (\<lambda>s. (kspecem_in_speculative_emulation s,
              kspecem_curr_spec_statistics_index (spec_stats s)))) (\<lambda>(sp, n). printk (Panic_Header sp n)))
       (modifyM (\<lambda>s. s\<lparr>klog := klog s @ map (\<lambda>i.
            let entry = spec_statistics_entries (spec_stats s) i in
            Panic_Entry i (kspecem_function_type entry) (kspecem_function_arg2 entry)
              (kspecem_function_return_addr entry))
          [0..<kspecem_curr_spec_statistics_index (spec_stats s)]\<rparr>))"

section \<open>Statistics on the state\<close>

definition add_spec_statistics ::
  "kspecem_func_type_e \<Rightarrow> u64 \<Rightarrow> u64 \<Rightarrow> u64 \<Rightarrow> u64 \<Rightarrow> ('c, unit) kop" where
  "add_spec_statistics f a b c r s =
     (case kspecem_add_spec_statistics f a b c r (spec_stats s) of
        None \<Rightarrow> Fault ''kspecem_spec_statistics'' s
      | Some t \<Rightarrow> Ret () (s\<lparr>spec_stats := t\<rparr>))"

definition add_restart_to_statistics :: "int \<Rightarrow> u64 \<Rightarrow> ('c, unit) kop" where
  "add_restart_to_statistics restart_type call_arg s =
     (case kspecem_add_restart_to_statistics restart_type call_arg
             (kspecem_total_statistics s) (inlineasm s) of
        None \<Rightarrow> Fault ''restart statistics'' s
      | Some (t, i) \<Rightarrow> Ret () (s\<lparr>kspecem_total_statistics := t, inlineasm := i\<rparr>))"

section \<open>Lemmas\<close>

lemma lt_assert_ok [km_simps]: "test s \<Longrightarrow> lt_assert rst file line c test s = Ret () s"
  by (simp add: lt_assert_def km_simps)

lemma lt_assert_not_spec [km_simps]:
  "\<not> test s \<Longrightarrow> \<not> kspecem_in_speculative_emulation s \<Longrightarrow>
   lt_assert rst file line c test s = Panic [''assert failed in %s: %s: %s'', file, line, c] s"
  by (simp add: lt_assert_def kspecem_assert_print_def kspecem_panic_def km_simps)

text \<open>A failed assertion during a restart is recorded and execution continues.\<close>

definition record_assert :: "string \<Rightarrow> string \<Rightarrow> string \<Rightarrow> 'c kstate \<Rightarrow> 'c kstate" where
  "record_assert file line c s = s\<lparr>kspecem_spec_assert :=
     \<lparr>assert_fmt = Some ''assert failed in %s: %s: %s'', assert_file = file, assert_line = line,
      assert_condition = c\<rparr>\<rparr>"

lemma lt_assert_in_restart [km_simps]:
  "\<not> test s \<Longrightarrow> kspecem_in_speculative_emulation s \<Longrightarrow> kspecem_is_in_restart s \<Longrightarrow>
   lt_assert rst file line c test s = Ret () (record_assert file line c s)"
  by (simp add: lt_assert_def kspecem_assert_print_def kspecem_panic_def record_assert_def km_simps)

lemma lt_assert_in_spec [km_simps]:
  "\<not> test s \<Longrightarrow> kspecem_in_speculative_emulation s \<Longrightarrow> \<not> kspecem_is_in_restart s \<Longrightarrow>
   lt_assert rst file line c test s = rst (record_assert file line c s)"
  by (simp add: lt_assert_def kspecem_assert_print_def kspecem_panic_def record_assert_def km_simps)

text \<open>Outside a speculation a failed assertion panics.\<close>

definition outside_spec :: "'c kstate \<Rightarrow> bool" where
  "outside_spec s \<longleftrightarrow> \<not> kspecem_in_speculative_emulation s"

lemma agree_assert_not_spec [agree_rules]:
  "agree outside_spec outside_spec
     (lt_assert rst f l c test) (lt_assert rst' f l c test)"
  by (simp add: agree_def outside_spec_def lt_assert_def kspecem_assert_print_def kspecem_panic_def km_simps)

text \<open>While a restart runs, assertions do not call it again.\<close>

definition restarting :: "'c kstate \<Rightarrow> bool" where
  "restarting s \<longleftrightarrow> kspecem_in_speculative_emulation s \<and> kspecem_is_in_restart s"

lemma agree_assert_restarting [agree_rules]:
  "agree restarting restarting (lt_assert rst f l c test) (lt_assert rst' f l c test)"
  by (auto simp: agree_def restarting_def lt_assert_def kspecem_assert_print_def kspecem_panic_def
      km_simps)

text \<open>Either there is no speculation or a restart runs: an assertion does not start one.\<close>

definition settled :: "'c kstate \<Rightarrow> bool" where
  "settled s \<longleftrightarrow> outside_spec s \<or> restarting s"

lemma agree_assert_settled [agree_rules]:
  "agree settled settled (lt_assert rst f l c test) (lt_assert rst' f l c test)"
  using agree_assert_not_spec [of rst f l c test rst'] agree_assert_restarting [of rst f l c test rst']
  unfolding agree_def settled_def by blast

text \<open>An assertion keeps what the recording of its failure and the restart keep.\<close>

lemma keeps_lt_assert [keeps_rules]:
  "(\<And>s v. I s \<Longrightarrow> I (s\<lparr>kspecem_spec_assert := v\<rparr>)) \<Longrightarrow> keeps I R rst \<Longrightarrow> keeps I R (lt_assert rst f l c test)"
  unfolding lt_assert_def kspecem_assert_print_def kspecem_panic_def
  by (intro keeps_rules)

section \<open>The state at boot\<close>

text \<open>The static initialisers of the globals, given memory, registers and what the kernel keeps.\<close>

definition boot_state :: "memory \<Rightarrow> pt_regs \<Rightarrow> 'c \<Rightarrow> 'c kstate" where
  "boot_state m r c = \<lparr>mem = m, hw = r, cpu = c, klog = [],
     kspecem_max_speculative_instructions = 250, kspecem_max_call_depth = 100,
     kspecem_speculative_instr_count = 0, kspecem_in_speculative_emulation = False,
     kspecem_init_done = False, kspecem_is_in_rt = False, kspecem_is_in_restart = False,
     kspecem_spec_assert = \<lparr>assert_fmt = None, assert_file = [], assert_line = [], assert_condition = []\<rparr>,
     kspecem_swap_branch_enabled = True, kspecem_swap_branch_condition = False,
     kspecem_spec_call_depth = 0, kspecem_call_depth = 0,
     kspecem_writelog_addrs = 0, kspecem_writelog_data = 0, kspecem_writelog_meta = 0,
     wl_addrs = (\<lambda>_. 0), wl_data = (\<lambda>_. 0), wl_meta = (\<lambda>_. 0), kspecem_wl_position = 0,
     kspecem_writelog_enabled = False, kspecem_wl_stack = 0, wl_stack_bytes = (\<lambda>_. 0),
     kspecem_wl_stack_base_address = 0, kspecem_wl_stack_len = 0,
     kspecem_registers = (\<lambda>_. 0), kspecem_registers_ptr = 0,
     spec_stats = kspecem_statistics_init 0, inlineasm = initial_inlineasm_stats,
     kspecem_total_statistics = None, kspecem_print_level = PRINT_DEFAULT,
     kspecem_next_bug_index = 0, kspecem_bugs_ptr = 0, kspecem_bugs = (\<lambda>_. zero_bug),
     kspecem_previous_bugs_map = (\<lambda>_. None), kspecem_report_error_dump_stack = True,
     kspecem_whitelist_type = KSPECEM_WHITELIST_DISABLED, pf_dummy_region = - 1,
     kdf_is_init_done = False, kdf_is_in_rt = False, kdfinit_is_init_done = False,
     kdfinit_is_in_rt = False\<rparr>"

section \<open>A concrete kernel\<close>

text \<open>
  The parameters instantiated: interrupts are a flag, preemption and NMI handling are counters,
  the label and address functions are the weak defaults of \<open>kspecem_kdf.c\<close>, and the text
  segment is 64 KiB long. It shows that what the theorems assume of the kernel can hold.
\<close>

record machine =
  irq_off :: bool
  preempt_count :: nat
  nmi_stopped :: nat

definition plain_kernel :: "machine kernel" where
  "plain_kernel = \<lparr>preempt_disable = (\<lambda>c. c\<lparr>preempt_count := preempt_count c + 1\<rparr>),
     preempt_enable = (\<lambda>c. c\<lparr>preempt_count := preempt_count c - 1\<rparr>),
     local_irq_save = (\<lambda>c. (if irq_off c then 0 else 0x200, c\<lparr>irq_off := True\<rparr>)),
     local_irq_restore = (\<lambda>f c. c\<lparr>irq_off := (f = 0)\<rparr>),
     irqs_disabled = irq_off,
     stop_nmi = (\<lambda>c. c\<lparr>nmi_stopped := nmi_stopped c + 1\<rparr>),
     restart_nmi = (\<lambda>c. c\<lparr>nmi_stopped := nmi_stopped c - 1\<rparr>),
     in_interrupt = (\<lambda>_. False), kspecem_syscall_get_nr = (\<lambda>_. 1000),
     current_comm = (\<lambda>_. map of_char ''ls'' @ [0]),
     dfsan_copy_label_info = (\<lambda>_ dest _. dest), kdf_virt_addr_valid = (\<lambda>_ _. True),
     text_start = 0xffffffff81000000, text_end = 0xffffffff81010000,
     adr_writelog_addrs = 0xffffffff82000000, adr_writelog_data = 0xffffffff82000008,
     adr_wl_position = 0xffffffff82000010, adr_writelog_enabled = 0xffffffff82000018,
     adr_registers = 0xffffffff82000100\<rparr>"

definition plain_machine :: machine where
  "plain_machine = \<lparr>irq_off = False, preempt_count = 0, nmi_stopped = 0\<rparr>"

end
