(* ===== verification/KUndolog.thy ===== *)
theory KUndolog
  imports KState
begin

text \<open>
  The write log's storage and its replay (\<open>static/kspecem/kspecem_undolog.c\<close>, the part
  \<open>kspecem_restart\<close> depends on; the part that writes the log is in \<open>KWritelog\<close>).
  An entry is an 8-byte aligned address, the 64 bits found there and the address of the
  code that was about to store.
\<close>

section \<open>Definitions\<close>

definition WRITELOG_MAXLEN :: u64 where
  "WRITELOG_MAXLEN = 1024 * 8 * 8"

definition WRITELOG_GRANULARITY :: u64 where
  "WRITELOG_GRANULARITY = 8"

definition WRITELOG_BYTES :: u64 where
  "WRITELOG_BYTES = WRITELOG_MAXLEN * (WRITELOG_GRANULARITY + 8)"

definition kspecem_overlaps :: "addr \<Rightarrow> u64 \<Rightarrow> addr \<Rightarrow> u64 \<Rightarrow> bool" where
  "kspecem_overlaps p1 s1 p2 s2 \<longleftrightarrow>
     (let ps1 = p1; pe1 = ps1 + s1; ps2 = p2; pe2 = ps2 + s2 in
      (ps1 \<le> ps2 \<and> pe1 > ps2) \<or> (ps2 \<le> ps1 \<and> pe2 > ps1))"

definition kspecem_can_restore :: "'c kernel \<Rightarrow> 'c kstate \<Rightarrow> addr \<Rightarrow> bool" where
  "kspecem_can_restore k s a \<longleftrightarrow>
     \<not> kspecem_overlaps a 8 (kspecem_writelog_addrs s) WRITELOG_BYTES \<and>
     \<not> kspecem_overlaps a 8 (kspecem_writelog_data s) WRITELOG_BYTES \<and>
     \<not> kspecem_overlaps a 8 (adr_writelog_addrs k) 8 \<and>
     \<not> kspecem_overlaps a 8 (adr_writelog_data k) 8 \<and>
     \<not> kspecem_overlaps a 8 (adr_wl_position k) 8"

text \<open>The three results of \<open>kmalloc\<close> are arguments.\<close>

definition kspecem_writelog_init :: "('c, unit) kop \<Rightarrow> addr \<Rightarrow> addr \<Rightarrow> addr \<Rightarrow> ('c, unit) kop" where
  "kspecem_writelog_init rst addrs_bytes data_bytes meta_bytes =
     seqM
      [modifyM (\<lambda>s. s\<lparr>kspecem_writelog_meta := 0, kspecem_wl_position := 0,
         kspecem_writelog_enabled := False\<rparr>),
       lt_assert rst ''kspecem_undolog.c'' ''40'' ''writelog_addrs_bytes'' (\<lambda>_. addrs_bytes \<noteq> 0),
       lt_assert rst ''kspecem_undolog.c'' ''41'' ''writelog_data_bytes'' (\<lambda>_. data_bytes \<noteq> 0),
       lt_assert rst ''kspecem_undolog.c'' ''42'' ''kspecem_writelog_meta_bytes'' (\<lambda>_. meta_bytes \<noteq> 0),
       modifyM (\<lambda>s. s\<lparr>kspecem_writelog_meta := meta_bytes, kspecem_writelog_data := data_bytes,
         kspecem_writelog_addrs := addrs_bytes\<rparr>)]"

text \<open>Entries left alone: the stack of the running restart, and the \<open>pt_regs\<close> an interrupt
  handler will return through.\<close>

definition skip_entry :: "site \<Rightarrow> addr \<Rightarrow> addr \<Rightarrow> addr \<Rightarrow> bool" where
  "skip_entry st frameaddr regs a \<longleftrightarrow>
     (restore_rsp st < a \<and> a \<le> frameaddr) \<or>
     (regs \<noteq> 0 \<and> regs \<le> a \<and> a < regs + SIZEOF_PTREGS)"

text \<open>
  The loop of \<open>kspecem_restore_writelog\<close>. Its argument is the value of
  \<open>kspecem_wl_position\<close> at the loop test; the result is the number of iterations \<open>i\<close>. The
  \<open>memcpy\<close> of the entry is evaluated inside an assertion that its result is not NULL.
\<close>

primrec restore_loop ::
  "('c, unit) kop \<Rightarrow> 'c kernel \<Rightarrow> site \<Rightarrow> addr \<Rightarrow> addr \<Rightarrow> nat \<Rightarrow> nat \<Rightarrow> ('c, nat) kop" where
  "restore_loop rst k st frameaddr regs 0 i = returnM i"
| "restore_loop rst k st frameaddr regs (Suc n) i =
     thenM (modifyM (\<lambda>s. s\<lparr>kspecem_wl_position := of_nat n\<rparr>))
      (thenM
        (ifM (\<lambda>s. skip_entry st frameaddr regs (wl_addrs s n)) (returnM ())
          (bindM (getM (\<lambda>s. wl_addrs s n)) (\<lambda>a.
            seqM
             [lt_assert rst ''kspecem_undolog.c'' ''149'' ''kspecem_can_restore(addr)''
                (\<lambda>s. kspecem_can_restore k s a),
              lt_assert rst ''kspecem_undolog.c'' ''150'' ''&i != addr'' (\<lambda>_. adr_i st \<noteq> a),
              lt_assert rst ''kspecem_undolog.c'' ''151'' ''&num_entries != addr''
                (\<lambda>_. adr_num_entries st \<noteq> a),
              modifyM (\<lambda>s. s\<lparr>mem := store64 (mem s) a (wl_data s n)\<rparr>),
              lt_assert rst ''kspecem_undolog.c'' ''154''
                ''__memcpy(addr, region, sizeof(uint64_t)) != NULL'' (\<lambda>_. a \<noteq> 0)])))
        (restore_loop rst k st frameaddr regs n (Suc i)))"

definition kspecem_restore_writelog ::
  "('c, unit) kop \<Rightarrow> 'c kernel \<Rightarrow> site \<Rightarrow> addr \<Rightarrow> addr \<Rightarrow> ('c, int) kop" where
  "kspecem_restore_writelog rst k st frameaddr regs =
     bindM (getM (\<lambda>s. unat (kspecem_wl_position s))) (\<lambda>num_entries.
       thenM (lt_assert rst ''kspecem_undolog.c'' ''125'' ''rsp'' (\<lambda>_. restore_rsp st \<noteq> 0))
        (bindM (restore_loop rst k st frameaddr regs num_entries 0) (\<lambda>i.
          thenM
           (seqM
             [lt_assert rst ''kspecem_undolog.c'' ''156'' ''i == num_entries'' (\<lambda>_. i = num_entries),
              lt_assert rst ''kspecem_undolog.c'' ''157'' ''kspecem_wl_position == 0''
                (\<lambda>s. kspecem_wl_position s = 0)])
           (returnM 0))))"

section \<open>The log as a list\<close>

text \<open>The first \<open>n\<close> entries, the newest first.\<close>

primrec log_entries :: "'c kstate \<Rightarrow> nat \<Rightarrow> (addr \<times> u64) list" where
  "log_entries s 0 = []"
| "log_entries s (Suc n) = (wl_addrs s n, wl_data s n) # log_entries s n"

definition wl_list :: "'c kstate \<Rightarrow> (addr \<times> u64) list" where
  "wl_list s = log_entries s (unat (kspecem_wl_position s))"

definition restorable :: "'c kernel \<Rightarrow> site \<Rightarrow> 'c kstate \<Rightarrow> addr \<Rightarrow> bool" where
  "restorable k st s a \<longleftrightarrow>
     kspecem_can_restore k s a \<and> a \<noteq> adr_i st \<and> a \<noteq> adr_num_entries st \<and> a \<noteq> 0"

lemma log_entries_cong:
  "(\<And>i. i < n \<Longrightarrow> wl_addrs s i = wl_addrs t i \<and> wl_data s i = wl_data t i)
   \<Longrightarrow> log_entries s n = log_entries t n"
  by (induction n) auto

lemma can_restore_cong:
  "kspecem_writelog_addrs s = kspecem_writelog_addrs t \<Longrightarrow> kspecem_writelog_data s = kspecem_writelog_data t
   \<Longrightarrow> kspecem_can_restore k s a = kspecem_can_restore k t a"
  by (simp add: kspecem_can_restore_def)

section \<open>Replaying the log\<close>

lemma log_entries_record [simp]:
  "log_entries (record_assert f l c s) n = log_entries s n"
  by (rule log_entries_cong) (simp add: record_assert_def)

lemma log_entries_mem [simp]:
  "log_entries (s\<lparr>mem := m, kspecem_wl_position := p\<rparr>) n = log_entries s n"
  "log_entries (s\<lparr>kspecem_wl_position := p\<rparr>) n = log_entries s n"
  "log_entries (s\<lparr>mem := m\<rparr>) n = log_entries s n"
  by (rule log_entries_cong; simp)+

text \<open>
  The loop in the sense of the undo log: with every entry restorable, memory becomes the
  undoing of the entries that are not skipped, and nothing else changes.
\<close>

lemma restore_loop_undo:
  assumes "\<And>i. i < n \<Longrightarrow> skip_entry st fa regs (wl_addrs s i) \<or> restorable k st s (wl_addrs s i)"
  shows "restore_loop rst k st fa regs n i s =
    Ret (i + n) (s\<lparr>mem := undo store64 (filter (\<lambda>e. \<not> skip_entry st fa regs (fst e)) (log_entries s n)) (mem s),
      kspecem_wl_position := (if n = 0 then kspecem_wl_position s else 0)\<rparr>)"
  using assms
proof (induction n arbitrary: s i)
  case 0
  then show ?case by simp
next
  case (Suc n)
  let ?a = "wl_addrs s n"
  let ?s1 = "s\<lparr>kspecem_wl_position := of_nat n\<rparr>"
  let ?s2 = "if skip_entry st fa regs ?a then ?s1 else ?s1\<lparr>mem := store64 (mem s) ?a (wl_data s n)\<rparr>"
  have body: "restore_loop rst k st fa regs (Suc n) i s = restore_loop rst k st fa regs n (Suc i) ?s2"
    using Suc.prems [of n]
    by (auto simp: km_simps restorable_def kspecem_can_restore_def)
  have e: "log_entries ?s2 n = log_entries s n" by (rule log_entries_cong) simp
  have c: "skip_entry st fa regs (wl_addrs ?s2 j) \<or> restorable k st ?s2 (wl_addrs ?s2 j)" if "j < n" for j
    using Suc.prems [of j] that by (auto simp: restorable_def kspecem_can_restore_def)
  have "restore_loop rst k st fa regs n (Suc i) ?s2 = Ret (Suc i + n) (?s2\<lparr>mem := undo store64
      (filter (\<lambda>e. \<not> skip_entry st fa regs (fst e)) (log_entries ?s2 n)) (mem ?s2),
      kspecem_wl_position := (if n = 0 then kspecem_wl_position ?s2 else 0)\<rparr>)"
    by (rule Suc.IH) (rule c)
  then show ?case unfolding body e by (simp del: restore_loop.simps)
qed

lemma kspecem_restore_writelog_undo:
  assumes "\<And>e. e \<in> set (wl_list s) \<Longrightarrow> skip_entry st fa regs (fst e) \<or> restorable k st s (fst e)"
    and "restore_rsp st \<noteq> 0"
  shows "kspecem_restore_writelog rst k st fa regs s =
    Ret 0 (s\<lparr>mem := undo store64 (filter (\<lambda>e. \<not> skip_entry st fa regs (fst e)) (wl_list s)) (mem s),
      kspecem_wl_position := 0\<rparr>)"
proof -
  let ?n = "unat (kspecem_wl_position s)"
  have mem_log: "i < n \<Longrightarrow> (wl_addrs s i, wl_data s i) \<in> set (log_entries s n)" for i n
    by (induction n) (auto simp: less_Suc_eq)
  have c: "skip_entry st fa regs (wl_addrs s i) \<or> restorable k st s (wl_addrs s i)" if "i < ?n" for i
    using assms(1) [of "(wl_addrs s i, wl_data s i)"] mem_log [OF that] by (simp add: wl_list_def)
  have "kspecem_wl_position s = 0" if "?n = 0" using that by (simp add: unat_eq_0)
  then show ?thesis
    using assms(2)
    by (auto simp: kspecem_restore_writelog_def km_simps restore_loop_undo [OF c] wl_list_def)
qed

end
