(* ===== verification/KStack.thy ===== *)
theory KStack
  imports KState
begin

text \<open>
  The copy of the checkpoint's stack frame (\<open>static/kspecem/kspecem_stack.c\<close>). The bytes
  between the stack pointer of the instrumented function and its frame address are saved
  when the checkpoint is taken and copied back by \<open>kspecem_restart\<close>.
\<close>

section \<open>Definitions\<close>

definition STACKLOG_MAXLEN :: u64 where
  "STACKLOG_MAXLEN = 4096 * 16"

definition kspecem_stack_init :: "('c, unit) kop \<Rightarrow> addr \<Rightarrow> ('c, unit) kop" where
  "kspecem_stack_init rst stacklog_bytes =
     seqM
      [modifyM (\<lambda>s. s\<lparr>kspecem_wl_stack := 0, kspecem_wl_stack_base_address := 0,
         kspecem_wl_stack_len := 0\<rparr>),
       lt_assert rst ''kspecem_stack.c'' ''16'' ''stacklog_bytes'' (\<lambda>_. stacklog_bytes \<noteq> 0),
       modifyM (\<lambda>s. s\<lparr>kspecem_wl_stack := stacklog_bytes\<rparr>)]"

text \<open>\<open>fp\<close> is \<open>__builtin_frame_address(0)\<close> of the hook this function is inlined into. The
  copy into the buffer fails only for a NULL buffer; past its end it is undefined.\<close>

definition kspecem_save_stack :: "('c, unit) kop \<Rightarrow> addr \<Rightarrow> addr \<Rightarrow> ('c, unit) kop" where
  "kspecem_save_stack rst fp frameaddress =
     (let rsp = fp + 0x10 in
      seqM
       [modifyM (\<lambda>s. s\<lparr>kspecem_wl_stack_base_address := frameaddress\<rparr>),
        modifyM (\<lambda>s. s\<lparr>kspecem_wl_stack_len := kspecem_wl_stack_base_address s - rsp\<rparr>),
        lt_assert rst ''kspecem_stack.c'' ''30'' ''kspecem_wl_stack_base_address''
          (\<lambda>s. kspecem_wl_stack_base_address s \<noteq> 0),
        lt_assert rst ''kspecem_stack.c'' ''31'' ''rsp'' (\<lambda>_. rsp \<noteq> 0),
        lt_assert rst ''kspecem_stack.c'' ''32'' ''kspecem_wl_stack_len <= STACKLOG_MAXLEN''
          (\<lambda>s. kspecem_wl_stack_len s \<le> STACKLOG_MAXLEN),
        lt_assert rst ''kspecem_stack.c'' ''33'' ''wl_stack_start'' (\<lambda>s. kspecem_wl_stack s \<noteq> 0),
        ifM (\<lambda>s. kspecem_wl_stack s = 0)
          (lt_panic ''kspecem_stack.c'' ''39'' ''memcpy for stack saving did not work'')
          (ifM (\<lambda>s. STACKLOG_MAXLEN < kspecem_wl_stack_len s) (faultM ''kspecem_wl_stack'')
            (modifyM (\<lambda>s. s\<lparr>wl_stack_bytes := memcpy_from (mem s)
               (kspecem_wl_stack_base_address s - kspecem_wl_stack_len s) (kspecem_wl_stack_len s)
               (wl_stack_bytes s)\<rparr>)))])"

text \<open>The copy back in \<open>kspecem_restart\<close>; \<open>memcpy\<close> returns its destination.\<close>

definition restore_stack :: "('c, unit) kop" where
  "restore_stack =
     ifM (\<lambda>s. kspecem_wl_stack_base_address s - kspecem_wl_stack_len s = 0)
       (lt_panic ''kspecem_internal.c'' ''101'' ''memcpy for stack restoring did not work'')
       (modifyM (\<lambda>s. s\<lparr>mem := memcpy_to (mem s)
          (kspecem_wl_stack_base_address s - kspecem_wl_stack_len s) (wl_stack_bytes s)
          (kspecem_wl_stack_len s)\<rparr>))"

section \<open>Saving\<close>

definition saved_frame_ok :: "addr \<Rightarrow> addr \<Rightarrow> 'c kstate \<Rightarrow> bool" where
  "saved_frame_ok fp frameaddress s \<longleftrightarrow>
     frameaddress \<noteq> 0 \<and> fp + 0x10 \<noteq> 0 \<and> frameaddress - (fp + 0x10) \<le> STACKLOG_MAXLEN
     \<and> kspecem_wl_stack s \<noteq> 0"

lemma kspecem_save_stack_saves:
  assumes "saved_frame_ok fp frameaddress s"
  shows "kspecem_save_stack rst fp frameaddress s = Ret ()
    (s\<lparr>wl_stack_bytes := memcpy_from (mem s) (fp + 0x10) (frameaddress - (fp + 0x10)) (wl_stack_bytes s),
       kspecem_wl_stack_base_address := frameaddress,
       kspecem_wl_stack_len := frameaddress - (fp + 0x10)\<rparr>)"
  using assms by (auto simp: kspecem_save_stack_def saved_frame_ok_def km_simps)

text \<open>What is inside the saved frame comes back; the rest of memory is not touched.\<close>

lemma saved_frame_restored:
  assumes "wl_stack_bytes s = memcpy_from m (kspecem_wl_stack_base_address s - kspecem_wl_stack_len s)
      (kspecem_wl_stack_len s) buf"
    and "kspecem_wl_stack_base_address s - kspecem_wl_stack_len s \<noteq> 0"
  shows "restore_stack s = Ret () (s\<lparr>mem := (\<lambda>x.
      if unat (x - (kspecem_wl_stack_base_address s - kspecem_wl_stack_len s)) < unat (kspecem_wl_stack_len s)
      then m x else mem s x)\<rparr>)"
  using assms by (simp add: restore_stack_def km_simps memcpy_round_trip)

end
