(* ===== verification/KBugs.thy ===== *)
theory KBugs
  imports KState
begin

text \<open>
  Pending gadget reports and their printing (\<open>static/kspecem/kspecem_bugs.c\<close> and
  \<open>kspecem_report.c\<close>): an array of \<open>BUGS_LIST_SIZE\<close> pending reports, and for every byte of
  the kernel text a mask of the access types already reported there, kept in blocks of
  \<open>1024 * PAGE_SIZE\<close> bytes.
\<close>

section \<open>Definitions\<close>

definition PAGE_SIZE :: u64 where
  "PAGE_SIZE = 4096"

definition kspecem_report_clear_globals :: "('c, unit) kop" where
  "kspecem_report_clear_globals =
     modifyM (\<lambda>s. s\<lparr>kspecem_bugs := (\<lambda>i. if i < BUGS_LIST_SIZE then zero_bug else kspecem_bugs s i),
       kspecem_next_bug_index := 0\<rparr>)"

definition bitmap_size :: "'c kernel \<Rightarrow> u64" where
  "bitmap_size k = ((text_end k - text_start k) + PAGE_SIZE) AND NOT 0xfff"

definition alloc_blocks :: "'c kernel \<Rightarrow> u64" where
  "alloc_blocks k =
     (let blocks = bitmap_size k div (1024 * PAGE_SIZE) in
      if bitmap_size k mod (1024 * PAGE_SIZE) \<noteq> 0 then blocks + 1 else blocks)"

text \<open>The allocator: whether the block array and each block could be allocated (neither is
  checked), and the pointer to the list of pending reports.\<close>

definition kspecem_report_init ::
  "('c, unit) kop \<Rightarrow> 'c kernel \<Rightarrow> bool \<Rightarrow> (nat \<Rightarrow> bool) \<Rightarrow> addr \<Rightarrow> ('c, unit) kop" where
  "kspecem_report_init rst k map_alloc block_alloc bugs_bytes =
     seqM
      [(if map_alloc \<or> alloc_blocks k = 0 then
          modifyM (\<lambda>s. s\<lparr>kspecem_previous_bugs_map := (\<lambda>i.
            if i < unat (alloc_blocks k) \<and> block_alloc i then Some (\<lambda>_. 0) else None)\<rparr>)
        else faultM ''kspecem_previous_bugs_map''),
       modifyM (\<lambda>s. s\<lparr>kspecem_bugs_ptr := bugs_bytes\<rparr>),
       lt_assert rst ''kspecem_bugs.c'' ''45'' ''kspecem_bugs'' (\<lambda>s. kspecem_bugs_ptr s \<noteq> 0),
       kspecem_report_clear_globals]"

definition kspecem_get_bug_mask :: "kspecem_bug \<Rightarrow> u8" where
  "kspecem_get_bug_mask bug =
     (case access_type bug of
        MDS_ACCESS \<Rightarrow> 0x1
      | CC_ACCESS \<Rightarrow> 0x2
      | KASAN_ACCESS \<Rightarrow> 0x4
      | PC_ACCESS \<Rightarrow> 0x8
      | UNDEF_ACCESS \<Rightarrow> 0xff)"

definition kspecem_get_offset_by_ip :: "('c, unit) kop \<Rightarrow> 'c kernel \<Rightarrow> u64 \<Rightarrow> ('c, u64) kop" where
  "kspecem_get_offset_by_ip rst k ip =
     thenM (lt_assert rst ''kspecem_bugs.c'' ''78'' ''ip >= (uint64_t)_text && ip < (uint64_t)_etext''
              (\<lambda>_. text_start k \<le> ip \<and> ip < text_end k))
       (thenM (lt_assert rst ''kspecem_bugs.c'' ''81'' ''offset < bitmap_size''
                (\<lambda>_. ip - text_start k < bitmap_size k))
          (returnM (ip - text_start k)))"

definition map_block :: "u64 \<Rightarrow> nat" where
  "map_block offset = unat (offset div (1024 * PAGE_SIZE))"

definition map_index :: "u64 \<Rightarrow> nat" where
  "map_index offset = unat (offset mod (1024 * PAGE_SIZE))"

definition kspecem_bug_already_reported :: "('c, unit) kop \<Rightarrow> 'c kernel \<Rightarrow> kspecem_bug \<Rightarrow> ('c, bool) kop" where
  "kspecem_bug_already_reported rst k bug =
     bindM (kspecem_get_offset_by_ip rst k (access_ip (kinfo bug))) (\<lambda>offset s.
       let bug_mask = kspecem_get_bug_mask bug in
       case kspecem_previous_bugs_map s (map_block offset) of
         None \<Rightarrow> Fault ''kspecem_previous_bugs_map'' s
       | Some block \<Rightarrow> Ret (block (map_index offset) AND bug_mask = bug_mask \<or> bug_mask = 0xff) s)"

definition kspecem_bug_set_ip_as_reported :: "('c, unit) kop \<Rightarrow> 'c kernel \<Rightarrow> kspecem_bug \<Rightarrow> ('c, unit) kop" where
  "kspecem_bug_set_ip_as_reported rst k bug =
     bindM (kspecem_get_offset_by_ip rst k (access_ip (kinfo bug))) (\<lambda>offset s.
       let bug_mask = kspecem_get_bug_mask bug in
       case kspecem_previous_bugs_map s (map_block offset) of
         None \<Rightarrow> Fault ''kspecem_previous_bugs_map'' s
       | Some block \<Rightarrow> Ret () (s\<lparr>kspecem_previous_bugs_map := (kspecem_previous_bugs_map s)
           (map_block offset \<mapsto> block(map_index offset := block (map_index offset) OR bug_mask))\<rparr>))"

definition kspecem_should_report_access_bug :: "('c, unit) kop \<Rightarrow> 'c kernel \<Rightarrow> kspecem_bug \<Rightarrow> ('c, bool) kop" where
  "kspecem_should_report_access_bug rst k bug =
     ifM (\<lambda>s. kspecem_print_level s = PRINT_NONE) (returnM False)
      (ifM (\<lambda>s. kspecem_print_level s = PRINT_DUPLICATES) (returnM True)
        (thenM (lt_assert rst ''kspecem_bugs.c'' ''118'' ''kspecem_print_level == PRINT_DEFAULT''
                 (\<lambda>s. kspecem_print_level s = PRINT_DEFAULT))
          (bindM (kspecem_bug_already_reported rst k bug) (\<lambda>reported.
             if reported then returnM False
             else thenM (kspecem_bug_set_ip_as_reported rst k bug) (returnM True)))))"

definition kspecem_report_print_bug_begin ::
  "string \<Rightarrow> kspecem_label_info \<Rightarrow> kspecem_label_info \<Rightarrow> bool \<Rightarrow> u32 \<Rightarrow> ('c, unit) kop" where
  "kspecem_report_print_bug_begin bug_type_str data ptr in_spec len =
     seqM [printk (Bug_Begin bug_type_str (label_of data) (label_of ptr) in_spec len),
           printk (Data_Label (label_info data)), printk (Ptr_Label (label_info ptr))]"

definition kspecem_report_print_bug_end :: "('c, unit) kop" where
  "kspecem_report_print_bug_end = printk Bug_End"

definition kspecem_report_print_access_bug :: "kspecem_bug \<Rightarrow> ('c, unit) kop" where
  "kspecem_report_print_access_bug this_bug =
     (let finish = (\<lambda>access_type_str. seqM
        [kspecem_report_print_bug_begin access_type_str (data_label this_bug) (ptr_label this_bug)
           (bug_in_spec this_bug) (spec_length this_bug),
         printk (Kasan_Report (access_addr (kinfo this_bug)) (access_size (kinfo this_bug))
           (access_is_write (kinfo this_bug)) (access_ip (kinfo this_bug))),
         kspecem_report_print_bug_end]) in
      case access_type this_bug of
        KASAN_ACCESS \<Rightarrow> finish ''KASAN''
      | MDS_ACCESS \<Rightarrow> finish ''MDS''
      | CC_ACCESS \<Rightarrow> finish ''CC''
      | PC_ACCESS \<Rightarrow> finish ''PC''
      | UNDEF_ACCESS \<Rightarrow> lt_panic ''kspecem_report.c'' ''49''
          ''Trying to print an access report with an unknown access type!'')"

definition kspecem_report_print_restart_begin :: "('c, unit) kop" where
  "kspecem_report_print_restart_begin = printk Restart_Begin"

definition kspecem_report_print_restart_end :: "u64 \<Rightarrow> u64 \<Rightarrow> int \<Rightarrow> ('c, unit) kop" where
  "kspecem_report_print_restart_end nr checkpoint_ip restart_type =
     seqM
      [bindM (getM kspecem_speculative_instr_count)
         (\<lambda>n. printk (Restart_Info nr checkpoint_ip restart_type n)),
       whenM kspecem_report_error_dump_stack (printk Show_Stack),
       printk Restart_End]"

text \<open>The loop over the pending reports; the last argument is \<open>reports_printed\<close>.\<close>

primrec print_bugs :: "('c, unit) kop \<Rightarrow> 'c kernel \<Rightarrow> nat list \<Rightarrow> bool \<Rightarrow> ('c, bool) kop" where
  "print_bugs rst k [] reports_printed = returnM reports_printed"
| "print_bugs rst k (i # is) reports_printed =
     bindM (getM (\<lambda>s. kspecem_bugs s i)) (\<lambda>this_bug.
       bindM (kspecem_should_report_access_bug rst k this_bug) (\<lambda>should.
         if \<not> should then print_bugs rst k is reports_printed
         else thenM (if \<not> reports_printed then kspecem_report_print_restart_begin else returnM ())
           (thenM (kspecem_report_print_access_bug this_bug) (print_bugs rst k is True))))"

definition kspecem_report_print_and_clear ::
  "('c, unit) kop \<Rightarrow> 'c kernel \<Rightarrow> bool \<Rightarrow> int \<Rightarrow> ('c, unit) kop" where
  "kspecem_report_print_and_clear rst k called_from_restart restart_type =
     bindM (getM (\<lambda>s. kspecem_syscall_get_nr k (cpu s))) (\<lambda>current_syscall_nr.
     bindM (getM (\<lambda>s. if called_from_restart then kspecem_registers s RIP else 0)) (\<lambda>current_checkpoint_ip.
       ifM (\<lambda>s. kspecem_next_bug_index s = 0) (returnM ())
        (bindM (getM kspecem_next_bug_index) (\<lambda>n.
          bindM (print_bugs rst k [0..<n] False) (\<lambda>reports_printed.
            thenM (if reports_printed
                   then kspecem_report_print_restart_end current_syscall_nr current_checkpoint_ip restart_type
                   else returnM ())
              kspecem_report_clear_globals)))))"

text \<open>Writing the entry at \<open>BUGS_LIST_SIZE\<close> or beyond is outside the array.\<close>

definition kspecem_access_report ::
  "('c, unit) kop \<Rightarrow> 'c kernel \<Rightarrow> u64 \<Rightarrow> u64 \<Rightarrow> bool \<Rightarrow> u64 \<Rightarrow> dfsan_label \<Rightarrow> dfsan_label
   \<Rightarrow> access_type_enum \<Rightarrow> ('c, unit) kop" where
  "kspecem_access_report rst k a sz w ip dl pl ty =
     thenM (lt_assert rst ''kspecem_bugs.c'' ''166'' ''kspecem_next_bug_index < BUGS_LIST_SIZE''
              (\<lambda>s. kspecem_next_bug_index s < BUGS_LIST_SIZE))
      (bindM (getM kspecem_next_bug_index) (\<lambda>i.
        thenM (modifyM (\<lambda>s. s\<lparr>kspecem_next_bug_index := i + 1\<rparr>))
         (if BUGS_LIST_SIZE \<le> i then faultM ''kspecem_bugs''
          else seqM
           [lt_assert rst ''kspecem_bugs.c'' ''172'' ''kspecem_checkzero(this_bug,sizeof( *this_bug))''
              (\<lambda>s. kspecem_bugs s i = zero_bug),
            modifyM (\<lambda>s. s\<lparr>kspecem_bugs := (kspecem_bugs s)(i :=
              \<lparr>kinfo = \<lparr>access_addr = a, first_bad_addr = a, access_size = sz,
                 access_is_write = w, access_ip = ip\<rparr>,
               bug_in_spec = kspecem_in_speculative_emulation s,
               spec_length = kspecem_speculative_instr_count s,
               data_label = \<lparr>label_of = dl, label_info = dfsan_copy_label_info k dl
                 (label_info (data_label (kspecem_bugs s i))) LABEL_INFO_STR_MAX\<rparr>,
               ptr_label = \<lparr>label_of = pl, label_info = dfsan_copy_label_info k pl
                 (label_info (ptr_label (kspecem_bugs s i))) LABEL_INFO_STR_MAX\<rparr>,
               access_type = ty\<rparr>)\<rparr>),
            whenM (\<lambda>s. \<not> kspecem_in_speculative_emulation s)
              (kspecem_report_print_and_clear rst k False (-1))])))"

definition kspecem_kasan_report ::
  "('c, unit) kop \<Rightarrow> 'c kernel \<Rightarrow> u64 \<Rightarrow> u64 \<Rightarrow> bool \<Rightarrow> u64 \<Rightarrow> ('c, unit) kop" where
  "kspecem_kasan_report rst k a sz w ip = kspecem_access_report rst k a sz w ip 0 0 KASAN_ACCESS"

definition kspecem_ridl_report ::
  "('c, unit) kop \<Rightarrow> 'c kernel \<Rightarrow> u64 \<Rightarrow> u64 \<Rightarrow> bool \<Rightarrow> u64 \<Rightarrow> dfsan_label \<Rightarrow> dfsan_label \<Rightarrow> ('c, unit) kop" where
  "kspecem_ridl_report rst k a sz w ip dl pl = kspecem_access_report rst k a sz w ip dl pl MDS_ACCESS"

definition kspecem_specv1_report ::
  "('c, unit) kop \<Rightarrow> 'c kernel \<Rightarrow> u64 \<Rightarrow> u64 \<Rightarrow> bool \<Rightarrow> u64 \<Rightarrow> dfsan_label \<Rightarrow> dfsan_label \<Rightarrow> ('c, unit) kop" where
  "kspecem_specv1_report rst k a sz w ip dl pl = kspecem_access_report rst k a sz w ip dl pl CC_ACCESS"

definition kspecem_smotherspectre_report ::
  "('c, unit) kop \<Rightarrow> 'c kernel \<Rightarrow> u64 \<Rightarrow> dfsan_label \<Rightarrow> ('c, unit) kop" where
  "kspecem_smotherspectre_report rst k ip lab = kspecem_access_report rst k 0 0 False ip 0 lab PC_ACCESS"

section \<open>Outside a speculation\<close>

text \<open>Reports are only printed outside a speculation, where a failed assertion panics. There
  the functions do not depend on the restart an assertion would call.\<close>

lemma get_offset_not_spec:
  assumes "\<not> kspecem_in_speculative_emulation s"
  shows "kspecem_get_offset_by_ip rst k ip s =
    (if \<not> (text_start k \<le> ip \<and> ip < text_end k)
     then Panic [''assert failed in %s: %s: %s'', ''kspecem_bugs.c'', ''78'',
       ''ip >= (uint64_t)_text && ip < (uint64_t)_etext''] s
     else if \<not> ip - text_start k < bitmap_size k
     then Panic [''assert failed in %s: %s: %s'', ''kspecem_bugs.c'', ''81'', ''offset < bitmap_size''] s
     else Ret (ip - text_start k) s)"
proof -
  consider "\<not> (text_start k \<le> ip \<and> ip < text_end k)"
    | "text_start k \<le> ip \<and> ip < text_end k" "\<not> ip - text_start k < bitmap_size k"
    | "text_start k \<le> ip \<and> ip < text_end k" "ip - text_start k < bitmap_size k" by blast
  then show ?thesis
    by cases (use assms in \<open>simp_all add: kspecem_get_offset_by_ip_def km_simps\<close>)
qed

lemma agree_get_offset [agree_rules]:
  "agree outside_spec outside_spec
     (kspecem_get_offset_by_ip rst k ip) (kspecem_get_offset_by_ip rst' k ip)"
  unfolding kspecem_get_offset_by_ip_def by (intro agree_rules)

lemma agree_already_reported [agree_rules]:
  "agree outside_spec outside_spec
     (kspecem_bug_already_reported rst k bug) (kspecem_bug_already_reported rst' k bug)"
  unfolding kspecem_bug_already_reported_def
  by (intro agree_rules) (auto simp: agree_def outside_spec_def Let_def split: option.splits)

lemma agree_set_ip [agree_rules]:
  "agree outside_spec outside_spec
     (kspecem_bug_set_ip_as_reported rst k bug) (kspecem_bug_set_ip_as_reported rst' k bug)"
  unfolding kspecem_bug_set_ip_as_reported_def
  by (intro agree_rules) (auto simp: agree_def outside_spec_def Let_def split: option.splits)

lemma agree_print_access_bug [agree_rules]:
  "agree outside_spec outside_spec
     (kspecem_report_print_access_bug bug) (kspecem_report_print_access_bug bug)"
  by (auto simp: agree_def outside_spec_def kspecem_report_print_access_bug_def kspecem_report_print_bug_begin_def
      kspecem_report_print_bug_end_def printk_def lt_panic_def km_simps Let_def
      split: access_type_enum.splits)

lemma agree_print_bugs [agree_rules]:
  "agree outside_spec outside_spec
     (print_bugs rst k is p) (print_bugs rst' k is p)"
proof (induction "is" arbitrary: p)
  case Nil
  show ?case unfolding print_bugs.simps by (rule agree_return)
next
  case (Cons i "is")
  show ?case
    unfolding print_bugs.simps kspecem_should_report_access_bug_def
      kspecem_report_print_restart_begin_def printk_def
    by (intro agree_rules Cons.IH) (simp add: outside_spec_def)
qed

text \<open>Printing the pending reports never calls back into the restart.\<close>

lemma agree_print_and_clear [agree_rules]:
  "agree outside_spec outside_spec
     (kspecem_report_print_and_clear rst k from_restart ty)
     (kspecem_report_print_and_clear rst' k from_restart ty)"
  unfolding kspecem_report_print_and_clear_def kspecem_report_print_restart_end_def
    kspecem_report_clear_globals_def printk_def
  by (intro agree_rules) (simp_all add: outside_spec_def)

section \<open>The map of earlier reports\<close>

text \<open>What the linker promises about the kernel text, and what \<open>kspecem_report_init\<close> sets up.\<close>

definition text_ok :: "'c kernel \<Rightarrow> bool" where
  "text_ok k \<longleftrightarrow> text_start k \<le> text_end k \<and> text_end k - text_start k < 0x100000000"

definition in_text :: "'c kernel \<Rightarrow> u64 \<Rightarrow> bool" where
  "in_text k ip \<longleftrightarrow> text_start k \<le> ip \<and> ip < text_end k"

definition map_ready :: "'c kernel \<Rightarrow> 'c kstate \<Rightarrow> bool" where
  "map_ready k s \<longleftrightarrow> (\<forall>i < unat (alloc_blocks k). kspecem_previous_bugs_map s i \<noteq> None)"

lemma unat_page_align: "unat ((x :: u64) AND NOT 0xfff) = 4096 * (unat x div 4096)"
proof -
  have "x AND NOT 0xfff = push_bit 12 (drop_bit 12 x)"
    unfolding mask_eq_exp_minus_1 [of 12, where 'a = "64 word", simplified, symmetric]
    by (rule bit_word_eqI) (auto simp: bit_simps)
  moreover have "unat x div 4096 * 4096 < 18446744073709551616"
    using unat_less_64 [of x] by simp
  ultimately show ?thesis
    by (simp add: push_bit_eq_mult drop_bit_eq_div unat_word_ariths unat_div_distrib)
qed

lemma text_offset:
  assumes "text_ok k" and "in_text k ip"
  shows "ip - text_start k < bitmap_size k"
    and "map_block (ip - text_start k) < unat (alloc_blocks k)"
proof -
  let ?n = "unat (text_end k - text_start k)" and ?o = "unat (ip - text_start k)"
  have n: "?n < 0x100000000" using assms(1) by (simp add: text_ok_def word_less_nat_alt)
  have o: "?o < ?n"
    using assms by (auto simp: text_ok_def in_text_def word_less_nat_alt word_le_nat_alt unat_sub)
  have b: "unat (bitmap_size k) = 4096 * ((?n + 4096) div 4096)"
    unfolding bitmap_size_def unat_page_align using n by (simp add: PAGE_SIZE_def unat_word_ariths)
  with o show "ip - text_start k < bitmap_size k"
    by (simp add: word_less_nat_alt)
  have bn: "unat (bitmap_size k) \<le> 0x100001000" and ob: "?o < unat (bitmap_size k)"
    using n o b by simp_all
  have a: "unat (alloc_blocks k) = unat (bitmap_size k) div 0x400000
      + (if unat (bitmap_size k) mod 0x400000 \<noteq> 0 then 1 else 0)"
    using bn
    by (auto simp: alloc_blocks_def PAGE_SIZE_def Let_def unat_word_ariths unat_div_distrib
        word_unat_eq_iff unat_mod_distrib)
  have "?o div 0x400000 < unat (alloc_blocks k)"
    unfolding a using ob by (auto simp: less_Suc_eq_le intro: div_le_mono)
  then show "map_block (ip - text_start k) < unat (alloc_blocks k)"
    by (simp add: map_block_def PAGE_SIZE_def unat_div_distrib)
qed

section \<open>Each gadget is reported once\<close>

text \<open>The specification: which pairs of code address and access type have been reported, and
  what of a list of pending reports is still to be printed.\<close>

definition ty_mask :: "access_type_enum \<Rightarrow> u8" where
  "ty_mask ty = kspecem_get_bug_mask (zero_bug\<lparr>access_type := ty\<rparr>)"

definition bug_key :: "kspecem_bug \<Rightarrow> u64 \<times> access_type_enum" where
  "bug_key b = (access_ip (kinfo b), access_type b)"

definition mask_at :: "'c kernel \<Rightarrow> 'c kstate \<Rightarrow> u64 \<Rightarrow> u8" where
  "mask_at k s ip = (case kspecem_previous_bugs_map s (map_block (ip - text_start k)) of
     None \<Rightarrow> 0 | Some block \<Rightarrow> block (map_index (ip - text_start k)))"

definition reported :: "'c kernel \<Rightarrow> 'c kstate \<Rightarrow> (u64 \<times> access_type_enum) set" where
  "reported k s = {(ip, ty). in_text k ip \<and> ty \<noteq> UNDEF_ACCESS \<and> mask_at k s ip AND ty_mask ty = ty_mask ty}"

fun fresh_bugs :: "(u64 \<times> access_type_enum) set \<Rightarrow> kspecem_bug list \<Rightarrow> kspecem_bug list" where
  "fresh_bugs R [] = []"
| "fresh_bugs R (b # bs) =
     (if access_type b = UNDEF_ACCESS \<or> bug_key b \<in> R then fresh_bugs R bs
      else b # fresh_bugs (insert (bug_key b) R) bs)"

lemma get_bug_mask_ty: "kspecem_get_bug_mask b = ty_mask (access_type b)"
  by (simp add: kspecem_get_bug_mask_def ty_mask_def)

lemma mask_at_set:
  assumes "kspecem_previous_bugs_map s (map_block (ip - text_start k)) = Some block"
  shows "mask_at k (s\<lparr>kspecem_previous_bugs_map := (kspecem_previous_bugs_map s)
      (map_block (ip - text_start k) \<mapsto> block(map_index (ip - text_start k) := v))\<rparr>) ip' =
    (if ip' = ip then v else mask_at k s ip')"
proof -
  have "ip' = ip" if "map_block (ip' - text_start k) = map_block (ip - text_start k)"
    and "map_index (ip' - text_start k) = map_index (ip - text_start k)"
  proof -
    have "(ip' - text_start k) div (1024 * PAGE_SIZE) = (ip - text_start k) div (1024 * PAGE_SIZE)"
      and "(ip' - text_start k) mod (1024 * PAGE_SIZE) = (ip - text_start k) mod (1024 * PAGE_SIZE)"
      using that by (simp_all add: map_block_def map_index_def word_unat_eq_iff)
    then have "ip' - text_start k = ip - text_start k" by (metis div_mult_mod_eq)
    then show ?thesis by simp
  qed
  then show ?thesis using assms by (auto simp: mask_at_def split: option.splits)
qed

lemma ty_mask_or:
  "ty \<noteq> UNDEF_ACCESS \<Longrightarrow> ty' \<noteq> UNDEF_ACCESS \<Longrightarrow>
   (x OR ty_mask ty) AND ty_mask ty' = ty_mask ty' \<longleftrightarrow> ty' = ty \<or> x AND ty_mask ty' = ty_mask ty'"
  unfolding bit.conj_disj_distrib2
  by (cases ty; cases ty') (simp_all add: ty_mask_def kspecem_get_bug_mask_def)

lemma map_ready_block:
  assumes "text_ok k" and "in_text k ip" and "map_ready k s"
  obtains block where "kspecem_previous_bugs_map s (map_block (ip - text_start k)) = Some block"
  using text_offset(2) [OF assms(1,2)] assms(3) by (auto simp: map_ready_def)

lemma get_offset_in_text:
  assumes "text_ok k" and "in_text k ip"
  shows "kspecem_get_offset_by_ip rst k ip s = Ret (ip - text_start k) s"
  using assms text_offset(1) [OF assms]
  by (simp add: kspecem_get_offset_by_ip_def km_simps in_text_def)

lemma already_reported_eq:
  assumes "text_ok k" and "map_ready k s" and "in_text k (access_ip (kinfo b))"
  shows "kspecem_bug_already_reported rst k b s =
    Ret (access_type b = UNDEF_ACCESS \<or> bug_key b \<in> reported k s) s"
proof -
  obtain block where b: "kspecem_previous_bugs_map s (map_block (access_ip (kinfo b) - text_start k)) = Some block"
    using assms by (rule_tac map_ready_block)
  have "ty_mask (access_type b) = 0xff \<longleftrightarrow> access_type b = UNDEF_ACCESS"
    by (cases "access_type b") (simp_all add: ty_mask_def kspecem_get_bug_mask_def)
  with b assms show ?thesis
    by (auto simp: kspecem_bug_already_reported_def km_simps get_offset_in_text Let_def
        get_bug_mask_ty reported_def bug_key_def mask_at_def)
qed

lemma set_ip_as_reported_eq:
  assumes "text_ok k" and "map_ready k s" and "in_text k (access_ip (kinfo b))"
    and "access_type b \<noteq> UNDEF_ACCESS"
  obtains m where "kspecem_bug_set_ip_as_reported rst k b s = Ret () (s\<lparr>kspecem_previous_bugs_map := m\<rparr>)"
    and "map_ready k (s\<lparr>kspecem_previous_bugs_map := m\<rparr>)"
    and "reported k (s\<lparr>kspecem_previous_bugs_map := m\<rparr>) = insert (bug_key b) (reported k s)"
proof -
  let ?ip = "access_ip (kinfo b)"
  obtain block where b: "kspecem_previous_bugs_map s (map_block (?ip - text_start k)) = Some block"
    using assms by (rule_tac map_ready_block)
  let ?m = "(kspecem_previous_bugs_map s)(map_block (?ip - text_start k) \<mapsto>
     block(map_index (?ip - text_start k) := block (map_index (?ip - text_start k)) OR ty_mask (access_type b)))"
  let ?t = "s\<lparr>kspecem_previous_bugs_map := ?m\<rparr>"
  have r: "kspecem_bug_set_ip_as_reported rst k b s = Ret () ?t"
    using b assms by (simp add: kspecem_bug_set_ip_as_reported_def km_simps get_offset_in_text Let_def
        get_bug_mask_ty)
  have i: "mask_at k s ?ip = block (map_index (?ip - text_start k))"
    using b by (simp add: mask_at_def)
  have "mask_at k ?t ip' = (if ip' = ?ip then mask_at k s ?ip OR ty_mask (access_type b) else mask_at k s ip')" for ip'
    unfolding i using mask_at_set [OF b] by simp
  then have "reported k ?t = insert (bug_key b) (reported k s)"
    using assms(3,4) ty_mask_or [OF assms(4)] by (auto simp: reported_def bug_key_def split: if_splits)
  moreover have "map_ready k ?t" using assms(2) by (simp add: map_ready_def)
  ultimately show thesis using r that by blast
qed

text \<open>Deciding about one report: it is to be printed if its pair is new, and then the pair is
  recorded.\<close>

lemma should_report_spec:
  assumes "text_ok k" and "map_ready k s" and "in_text k (access_ip (kinfo b))"
    and "kspecem_print_level s = PRINT_DEFAULT"
  obtains m where "kspecem_should_report_access_bug rst k b s =
      Ret (\<not> (access_type b = UNDEF_ACCESS \<or> bug_key b \<in> reported k s)) (s\<lparr>kspecem_previous_bugs_map := m\<rparr>)"
    and "map_ready k (s\<lparr>kspecem_previous_bugs_map := m\<rparr>)"
    and "reported k (s\<lparr>kspecem_previous_bugs_map := m\<rparr>) =
      (if access_type b = UNDEF_ACCESS then reported k s else insert (bug_key b) (reported k s))"
proof (cases "access_type b = UNDEF_ACCESS \<or> bug_key b \<in> reported k s")
  case True
  have "kspecem_should_report_access_bug rst k b s = Ret False (s\<lparr>kspecem_previous_bugs_map := kspecem_previous_bugs_map s\<rparr>)"
    using True assms by (simp add: kspecem_should_report_access_bug_def km_simps already_reported_eq)
  moreover have "map_ready k (s\<lparr>kspecem_previous_bugs_map := kspecem_previous_bugs_map s\<rparr>)"
    using assms(2) by simp
  ultimately show thesis using True by (intro that [of "kspecem_previous_bugs_map s"]) (auto simp: insert_absorb)
next
  case False
  obtain m where m: "kspecem_bug_set_ip_as_reported rst k b s = Ret () (s\<lparr>kspecem_previous_bugs_map := m\<rparr>)"
    "map_ready k (s\<lparr>kspecem_previous_bugs_map := m\<rparr>)"
    "reported k (s\<lparr>kspecem_previous_bugs_map := m\<rparr>) = insert (bug_key b) (reported k s)"
    using assms False by (rule_tac set_ip_as_reported_eq) auto
  have "kspecem_should_report_access_bug rst k b s = Ret True (s\<lparr>kspecem_previous_bugs_map := m\<rparr>)"
    using False assms m by (simp add: kspecem_should_report_access_bug_def km_simps already_reported_eq)
  with m False show thesis by (intro that [of m]) simp_all
qed

text \<open>The lines of the log for one report, and for a restart that prints some.\<close>

definition type_name :: "access_type_enum \<Rightarrow> string" where
  "type_name ty = (case ty of UNDEF_ACCESS \<Rightarrow> [] | KASAN_ACCESS \<Rightarrow> ''KASAN'' | MDS_ACCESS \<Rightarrow> ''MDS''
     | CC_ACCESS \<Rightarrow> ''CC'' | PC_ACCESS \<Rightarrow> ''PC'')"

definition bug_lines :: "kspecem_bug \<Rightarrow> klog_line list" where
  "bug_lines b =
     [Bug_Begin (type_name (access_type b)) (label_of (data_label b)) (label_of (ptr_label b))
        (bug_in_spec b) (spec_length b),
      Data_Label (label_info (data_label b)), Ptr_Label (label_info (ptr_label b)),
      Kasan_Report (access_addr (kinfo b)) (access_size (kinfo b)) (access_is_write (kinfo b))
        (access_ip (kinfo b)), Bug_End]"

definition restart_lines :: "bool \<Rightarrow> u64 \<Rightarrow> u64 \<Rightarrow> int \<Rightarrow> u32 \<Rightarrow> kspecem_bug list \<Rightarrow> klog_line list" where
  "restart_lines dump nr ip ty n bs =
     (if bs = [] then [] else
      Restart_Begin # concat (map bug_lines bs) @ Restart_Info nr ip ty n #
      (if dump then [Show_Stack] else []) @ [Restart_End])"

lemma print_access_bug_eq:
  "access_type b \<noteq> UNDEF_ACCESS \<Longrightarrow>
   kspecem_report_print_access_bug b s = Ret () (s\<lparr>klog := klog s @ bug_lines b\<rparr>)"
  by (cases "access_type b")
    (simp_all add: kspecem_report_print_access_bug_def kspecem_report_print_bug_begin_def
      kspecem_report_print_bug_end_def printk_def km_simps bug_lines_def type_name_def)

lemma map_ready_klog [simp]: "map_ready k (s\<lparr>klog := l\<rparr>) = map_ready k s"
  by (simp add: map_ready_def)

lemma reported_klog [simp]: "reported k (s\<lparr>klog := l\<rparr>) = reported k s"
  by (simp add: reported_def mask_at_def)

lemma fresh_bugs_known:
  "b \<in> set (fresh_bugs R bs) \<Longrightarrow> b \<in> set bs \<and> access_type b \<noteq> UNDEF_ACCESS \<and> bug_key b \<notin> R"
  by (induction R bs rule: fresh_bugs.induct) (auto split: if_splits)

lemma fresh_bugs_distinct: "distinct (map bug_key (fresh_bugs R bs))"
  by (induction R bs rule: fresh_bugs.induct) (auto dest: fresh_bugs_known)

text \<open>The state after the loop, with the reports it prints and the map it leaves.\<close>

definition printed ::
  "bool \<Rightarrow> kspecem_bug list \<Rightarrow> (nat \<Rightarrow> (nat \<Rightarrow> u8) option) \<Rightarrow> 'c kstate \<Rightarrow> 'c kstate" where
  "printed p bs m s = s\<lparr>klog := klog s @ (if p \<or> bs = [] then [] else [Restart_Begin])
       @ concat (map bug_lines bs), kspecem_previous_bugs_map := m\<rparr>"

lemma print_bugs_spec:
  assumes "text_ok k" and "map_ready k s" and "kspecem_print_level s = PRINT_DEFAULT"
    and "\<forall>i \<in> set is. in_text k (access_ip (kinfo (kspecem_bugs s i)))"
    and "bs = fresh_bugs (reported k s) (map (kspecem_bugs s) is)"
  shows "\<exists>m. print_bugs rst k is p s = Ret (p \<or> bs \<noteq> []) (printed p bs m s)
    \<and> map_ready k (printed p bs m s) \<and> reported k (printed p bs m s) = reported k s \<union> bug_key ` set bs"
  using assms
proof (induction "is" arbitrary: s p bs)
  case Nil
  then show ?case by (intro exI [of _ "kspecem_previous_bugs_map s"]) (simp add: printed_def)
next
  case (Cons i "is")
  let ?b = "kspecem_bugs s i"
  let ?known = "access_type ?b = UNDEF_ACCESS \<or> bug_key ?b \<in> reported k s"
  have "in_text k (access_ip (kinfo ?b))" using Cons.prems(4) by simp
  with Cons.prems(1-3) obtain m1 where
    r: "kspecem_should_report_access_bug rst k ?b s = Ret (\<not> ?known) (s\<lparr>kspecem_previous_bugs_map := m1\<rparr>)"
    and t: "map_ready k (s\<lparr>kspecem_previous_bugs_map := m1\<rparr>)"
    "reported k (s\<lparr>kspecem_previous_bugs_map := m1\<rparr>) =
      (if access_type ?b = UNDEF_ACCESS then reported k s else insert (bug_key ?b) (reported k s))"
    by (rule_tac should_report_spec)
  show ?case
  proof (cases ?known)
    case True
    let ?t = "s\<lparr>kspecem_previous_bugs_map := m1\<rparr>"
    have "reported k ?t = reported k s" using True t(2) by (auto simp: insert_absorb)
    then show ?thesis
      using Cons.IH [of ?t bs p] Cons.prems t(1) r True by (simp add: km_simps printed_def)
  next
    case False
    let ?t = "s\<lparr>kspecem_previous_bugs_map := m1,
      klog := klog s @ (if p then [] else [Restart_Begin]) @ bug_lines ?b\<rparr>"
    have bs: "bs = ?b # fresh_bugs (reported k ?t) (map (kspecem_bugs ?t) is)"
      using Cons.prems(5) False t(2) by simp
    have step: "print_bugs rst k (i # is) p s = print_bugs rst k is True ?t"
      using r False
      by (simp add: km_simps print_access_bug_eq kspecem_report_print_restart_begin_def printk_def)
    obtain m where m: "print_bugs rst k is True ?t = Ret True (printed True (tl bs) m ?t)"
      "map_ready k (printed True (tl bs) m ?t)"
      "reported k (printed True (tl bs) m ?t) = reported k ?t \<union> bug_key ` set (tl bs)"
      using Cons.IH [of ?t "tl bs" True] Cons.prems(1-4) t(1) bs by auto
    have "printed True (tl bs) m ?t = printed p bs m s" using bs by (simp add: printed_def)
    with m step t(2) False bs show ?thesis by (intro exI [of _ m]) auto
  qed
qed

section \<open>Printing and clearing\<close>

text \<open>A pending report that can be printed: its code address is in the kernel text and its
  type is known.\<close>

definition printable :: "'c kernel \<Rightarrow> kspecem_bug \<Rightarrow> bool" where
  "printable k b \<longleftrightarrow> in_text k (access_ip (kinfo b)) \<and> access_type b \<noteq> UNDEF_ACCESS"

definition reports_ok :: "'c kernel \<Rightarrow> 'c kstate \<Rightarrow> bool" where
  "reports_ok k s \<longleftrightarrow> text_ok k \<and> map_ready k s
     \<and> kspecem_print_level s \<in> {PRINT_DEFAULT, PRINT_NONE, PRINT_DUPLICATES}
     \<and> (\<forall>i < kspecem_next_bug_index s. printable k (kspecem_bugs s i))"

definition cleared :: "klog_line list \<Rightarrow> (nat \<Rightarrow> (nat \<Rightarrow> u8) option) \<Rightarrow> 'c kstate \<Rightarrow> 'c kstate" where
  "cleared l m s = s\<lparr>klog := klog s @ l, kspecem_previous_bugs_map := m,
     kspecem_bugs := (if kspecem_next_bug_index s = 0 then kspecem_bugs s
       else (\<lambda>i. if i < BUGS_LIST_SIZE then zero_bug else kspecem_bugs s i)),
     kspecem_next_bug_index := 0\<rparr>"

lemma should_report_returns:
  assumes "text_ok k" and "map_ready k s" and "printable k b"
    and "kspecem_print_level s \<in> {PRINT_DEFAULT, PRINT_NONE, PRINT_DUPLICATES}"
  obtains r m where "kspecem_should_report_access_bug rst k b s = Ret r (s\<lparr>kspecem_previous_bugs_map := m\<rparr>)"
    and "map_ready k (s\<lparr>kspecem_previous_bugs_map := m\<rparr>)"
proof (cases "kspecem_print_level s = PRINT_DEFAULT")
  case True
  with assms show thesis by (rule_tac should_report_spec [of k s b rst]) (auto simp: printable_def intro: that)
next
  case False
  with assms show thesis
    by (intro that [of "kspecem_print_level s = PRINT_DUPLICATES" "kspecem_previous_bugs_map s"])
      (auto simp: kspecem_should_report_access_bug_def km_simps)
qed

lemma print_bugs_returns:
  assumes "text_ok k" and "map_ready k s" and "\<forall>i \<in> set is. printable k (kspecem_bugs s i)"
    and "kspecem_print_level s \<in> {PRINT_DEFAULT, PRINT_NONE, PRINT_DUPLICATES}"
  shows "\<exists>r l m. print_bugs rst k is p s = Ret r (s\<lparr>klog := klog s @ l, kspecem_previous_bugs_map := m\<rparr>)
     \<and> map_ready k (s\<lparr>kspecem_previous_bugs_map := m\<rparr>)"
  using assms
proof (induction "is" arbitrary: s p)
  case Nil
  then show ?case
    by (intro exI [of _ p] exI [of _ "[]"] exI [of _ "kspecem_previous_bugs_map s"]) simp
next
  case (Cons i "is")
  let ?b = "kspecem_bugs s i"
  have known: "access_type ?b \<noteq> UNDEF_ACCESS" using Cons.prems(3) by (simp add: printable_def)
  obtain r m where r: "kspecem_should_report_access_bug rst k ?b s = Ret r (s\<lparr>kspecem_previous_bugs_map := m\<rparr>)"
    "map_ready k (s\<lparr>kspecem_previous_bugs_map := m\<rparr>)"
    using Cons.prems by (rule_tac should_report_returns [of k s ?b rst]) auto
  define l0 where "l0 = (if \<not> r then [] else (if p then [] else [Restart_Begin]) @ bug_lines ?b)"
  define t where "t = s\<lparr>kspecem_previous_bugs_map := m, klog := klog s @ l0\<rparr>"
  have step: "print_bugs rst k (i # is) p s = print_bugs rst k is (r \<or> p) t"
    using r known
    by (auto simp: km_simps print_access_bug_eq kspecem_report_print_restart_begin_def printk_def
        t_def l0_def)
  obtain r' l m' where "print_bugs rst k is (r \<or> p) t = Ret r' (t\<lparr>klog := klog t @ l, kspecem_previous_bugs_map := m'\<rparr>)"
    and m': "map_ready k (t\<lparr>kspecem_previous_bugs_map := m'\<rparr>)"
    using Cons.IH [of t "r \<or> p"] Cons.prems r(2) by (auto simp: t_def)
  then have "print_bugs rst k (i # is) p s = Ret r' (s\<lparr>klog := klog s @ l0 @ l, kspecem_previous_bugs_map := m'\<rparr>)"
    unfolding step by (simp add: t_def)
  moreover have "map_ready k (s\<lparr>kspecem_previous_bugs_map := m'\<rparr>)" using m' by (simp add: t_def map_ready_def)
  ultimately show ?case by blast
qed

lemma print_and_clear_returns:
  assumes "reports_ok k s"
  obtains l m where "kspecem_report_print_and_clear rst k from_restart ty s = Ret () (cleared l m s)"
    and "map_ready k (cleared l m s)"
proof (cases "kspecem_next_bug_index s = 0")
  case True
  with assms show thesis
    by (intro that [of "[]" "kspecem_previous_bugs_map s"])
      (simp_all add: kspecem_report_print_and_clear_def km_simps cleared_def reports_ok_def map_ready_def)
next
  case False
  let ?n = "kspecem_next_bug_index s"
  obtain r l m where p: "print_bugs rst k [0..<?n] False s = Ret r (s\<lparr>klog := klog s @ l, kspecem_previous_bugs_map := m\<rparr>)"
    and m: "map_ready k (s\<lparr>kspecem_previous_bugs_map := m\<rparr>)"
    using assms print_bugs_returns [of k s "[0..<?n]" rst False] by (auto simp: reports_ok_def)
  let ?l = "l @ (if r then Restart_Info (kspecem_syscall_get_nr k (cpu s))
      (if from_restart then kspecem_registers s RIP else 0) ty (kspecem_speculative_instr_count s)
      # (if kspecem_report_error_dump_stack s then [Show_Stack] else []) @ [Restart_End] else [])"
  have "kspecem_report_print_and_clear rst k from_restart ty s = Ret () (cleared ?l m s)"
    using False p by (simp add: kspecem_report_print_and_clear_def km_simps cleared_def
        kspecem_report_print_restart_end_def kspecem_report_clear_globals_def printk_def cong: if_cong)
  moreover have "map_ready k (cleared ?l m s)" using m by (simp add: cleared_def map_ready_def)
  ultimately show thesis by (rule that)
qed

text \<open>
  C14. Printing the pending reports refines its specification. With the default print level,
  the report of a pair of code address and access type is printed once and never again: of
  the pending reports exactly those are printed, in order, whose pair was reported neither
  before nor earlier in the list; the printed lines are framed once if there is any; the
  pairs are recorded, and the list of pending reports is empty afterwards.
\<close>

theorem kspecem_report_print_and_clear_refines:
  assumes "text_ok k" and "map_ready k s" and "kspecem_print_level s = PRINT_DEFAULT"
    and "\<forall>i < kspecem_next_bug_index s. in_text k (access_ip (kinfo (kspecem_bugs s i)))"
    and "bs = fresh_bugs (reported k s) (map (kspecem_bugs s) [0..<kspecem_next_bug_index s])"
  shows "\<exists>t. kspecem_report_print_and_clear rst k from_restart ty s = Ret () t
    \<and> klog t = klog s @ restart_lines (kspecem_report_error_dump_stack s)
        (kspecem_syscall_get_nr k (cpu s)) (if from_restart then kspecem_registers s RIP else 0)
        ty (kspecem_speculative_instr_count s) bs
    \<and> reported k t = reported k s \<union> bug_key ` set bs \<and> kspecem_next_bug_index t = 0
    \<and> distinct (map bug_key bs) \<and> bug_key ` set bs \<inter> reported k s = {}"
proof -
  let ?n = "kspecem_next_bug_index s"
  have d: "distinct (map bug_key bs)" "bug_key ` set bs \<inter> reported k s = {}"
    using assms(5) fresh_bugs_distinct fresh_bugs_known by fastforce+
  obtain m where m: "print_bugs rst k [0..<?n] False s = Ret (bs \<noteq> []) (printed False bs m s)"
    "reported k (printed False bs m s) = reported k s \<union> bug_key ` set bs"
    using print_bugs_spec [of k s "[0..<?n]" bs rst False] assms by auto
  show ?thesis
  proof (cases "?n = 0")
    case True
    with assms(5) d show ?thesis
      by (auto simp: kspecem_report_print_and_clear_def km_simps restart_lines_def)
  next
    case False
    with m d show ?thesis
      by (auto simp: kspecem_report_print_and_clear_def km_simps restart_lines_def printed_def
          kspecem_report_print_restart_end_def kspecem_report_clear_globals_def printk_def
          reported_def mask_at_def)
  qed
qed

text \<open>Two pending reports of the same access at the start of the text: one is printed.\<close>

definition two_reports :: "machine kstate" where
  "two_reports = (boot_state (\<lambda>_. 0) (\<lambda>_. 0) plain_machine)
     \<lparr>kspecem_previous_bugs_map := (\<lambda>_. Some (\<lambda>_. 0)), kspecem_next_bug_index := 2,
      kspecem_bugs := (\<lambda>_. zero_bug\<lparr>access_type := CC_ACCESS,
        kinfo := (kinfo zero_bug)\<lparr>access_ip := text_start plain_kernel\<rparr>\<rparr>)\<rparr>"

lemma two_reports_ok:
  "text_ok plain_kernel" "map_ready plain_kernel two_reports"
  "kspecem_print_level two_reports = PRINT_DEFAULT"
  "\<forall>i < kspecem_next_bug_index two_reports.
     in_text plain_kernel (access_ip (kinfo (kspecem_bugs two_reports i)))"
  by (simp_all add: text_ok_def in_text_def plain_kernel_def two_reports_def map_ready_def
      boot_state_def zero_bug_def)

lemma two_reports_fresh:
  "reported plain_kernel two_reports = {}"
  "fresh_bugs {} (map (kspecem_bugs two_reports) [0..<kspecem_next_bug_index two_reports])
   = [kspecem_bugs two_reports 0]"
proof -
  have "ty_mask ty \<noteq> 0" for ty by (cases ty) (simp_all add: ty_mask_def kspecem_get_bug_mask_def)
  then show "reported plain_kernel two_reports = {}"
    by (auto simp: reported_def mask_at_def two_reports_def boot_state_def)
  have "kspecem_next_bug_index two_reports = Suc (Suc 0)" by (simp add: two_reports_def)
  then show "fresh_bugs {} (map (kspecem_bugs two_reports) [0..<kspecem_next_bug_index two_reports])
      = [kspecem_bugs two_reports 0]"
    by (simp add: two_reports_def numeral_2_eq_2)
qed

theorem kspecem_report_print_and_clear_refines_witness:
  "\<exists>t. kspecem_report_print_and_clear (returnM ()) plain_kernel True KSPECEM_RESTART_CALL two_reports = Ret () t
    \<and> klog t = restart_lines True 1000 0 KSPECEM_RESTART_CALL 0 [kspecem_bugs two_reports 0]
    \<and> reported plain_kernel t = {(text_start plain_kernel, CC_ACCESS)}"
proof -
  have "kspecem_report_error_dump_stack two_reports" "kspecem_registers two_reports RIP = 0"
    "kspecem_syscall_get_nr plain_kernel (cpu two_reports) = 1000"
    "kspecem_speculative_instr_count two_reports = 0" "klog two_reports = []"
    "bug_key (kspecem_bugs two_reports 0) = (text_start plain_kernel, CC_ACCESS)"
    by (simp_all add: two_reports_def boot_state_def plain_kernel_def bug_key_def)
  then show ?thesis
    using kspecem_report_print_and_clear_refines [OF two_reports_ok refl, of "returnM ()" True KSPECEM_RESTART_CALL]
    unfolding two_reports_fresh by auto
qed

section \<open>Recording a report\<close>

text \<open>The list of pending reports: not overfull, and zeroed behind its end.\<close>

definition bugs_wf :: "'c kstate \<Rightarrow> bool" where
  "bugs_wf s \<longleftrightarrow> kspecem_next_bug_index s \<le> BUGS_LIST_SIZE
     \<and> (\<forall>i. kspecem_next_bug_index s \<le> i \<and> i < BUGS_LIST_SIZE \<longrightarrow> kspecem_bugs s i = zero_bug)"

definition new_bug :: "'c kernel \<Rightarrow> 'c kstate \<Rightarrow> u64 \<Rightarrow> u64 \<Rightarrow> bool \<Rightarrow> u64 \<Rightarrow> dfsan_label
    \<Rightarrow> dfsan_label \<Rightarrow> access_type_enum \<Rightarrow> kspecem_bug" where
  "new_bug k s a sz w ip dl pl ty =
     \<lparr>kinfo = \<lparr>access_addr = a, first_bad_addr = a, access_size = sz, access_is_write = w, access_ip = ip\<rparr>,
      bug_in_spec = kspecem_in_speculative_emulation s, spec_length = kspecem_speculative_instr_count s,
      data_label = \<lparr>label_of = dl, label_info = dfsan_copy_label_info k dl (replicate LABEL_INFO_STR_MAX 0) LABEL_INFO_STR_MAX\<rparr>,
      ptr_label = \<lparr>label_of = pl, label_info = dfsan_copy_label_info k pl (replicate LABEL_INFO_STR_MAX 0) LABEL_INFO_STR_MAX\<rparr>,
      access_type = ty\<rparr>"

definition add_bug :: "kspecem_bug \<Rightarrow> 'c kstate \<Rightarrow> 'c kstate" where
  "add_bug b s = s\<lparr>kspecem_next_bug_index := kspecem_next_bug_index s + 1,
     kspecem_bugs := (kspecem_bugs s)(kspecem_next_bug_index s := b)\<rparr>"

lemma access_report_room:
  assumes "bugs_wf s" and "kspecem_next_bug_index s < BUGS_LIST_SIZE"
  shows "kspecem_access_report rst k a sz w ip dl pl ty s =
    (let t = add_bug (new_bug k s a sz w ip dl pl ty) s in
     if kspecem_in_speculative_emulation s then Ret () t
     else kspecem_report_print_and_clear rst k False (- 1) t)"
proof -
  have "kspecem_bugs s (kspecem_next_bug_index s) = zero_bug" using assms by (simp add: bugs_wf_def)
  with assms(2) show ?thesis
    by (simp add: kspecem_access_report_def km_simps add_bug_def new_bug_def zero_bug_def Let_def
        split: outcome.split)
qed

text \<open>
  During a speculation a report is kept, not printed: while the list of pending reports has
  room, \<open>kspecem_access_report\<close> appends one entry that holds what it was called with and the
  current speculation length, and changes nothing else; the list stays well formed.
\<close>

lemma kspecem_access_report_appends:
  assumes "bugs_wf s" and "kspecem_next_bug_index s < BUGS_LIST_SIZE"
    and "kspecem_in_speculative_emulation s"
  shows "\<exists>t. kspecem_access_report rst k a sz w ip dl pl ty s = Ret () t \<and> bugs_wf t
    \<and> map (kspecem_bugs t) [0..<kspecem_next_bug_index t]
      = map (kspecem_bugs s) [0..<kspecem_next_bug_index s] @ [new_bug k s a sz w ip dl pl ty]
    \<and> t = s\<lparr>kspecem_bugs := kspecem_bugs t, kspecem_next_bug_index := kspecem_next_bug_index t\<rparr>"
proof (intro exI conjI)
  let ?t = "add_bug (new_bug k s a sz w ip dl pl ty) s"
  show "kspecem_access_report rst k a sz w ip dl pl ty s = Ret () ?t"
    using access_report_room [OF assms(1,2), of rst k a sz w ip dl pl ty] assms(3)
    by (simp only: Let_def if_True)
  show "bugs_wf ?t" using assms(1,2) by (auto simp: bugs_wf_def add_bug_def)
  show "map (kspecem_bugs ?t) [0..<kspecem_next_bug_index ?t]
      = map (kspecem_bugs s) [0..<kspecem_next_bug_index s] @ [new_bug k s a sz w ip dl pl ty]"
    by (simp add: add_bug_def)
  show "?t = s\<lparr>kspecem_bugs := kspecem_bugs ?t, kspecem_next_bug_index := kspecem_next_bug_index ?t\<rparr>"
    by (simp add: add_bug_def)
qed

section \<open>What printing may change\<close>

text \<open>Printing changes the log lines, the map of earlier reports and the list of pending ones.\<close>

lemma keeps_print_bugs:
  assumes "\<And>f l c t. keeps I R (lt_assert rst f l c t)" and "\<And>s x. I s \<Longrightarrow> I (s\<lparr>klog := x\<rparr>)"
    and "\<And>s x. I s \<Longrightarrow> I (s\<lparr>kspecem_previous_bugs_map := x\<rparr>)"
  shows "keeps I R (print_bugs rst k is p)"
proof (induction "is" arbitrary: p)
  case Nil
  show ?case unfolding print_bugs.simps by (rule keeps_return)
next
  case (Cons i "is")
  have 1: "keeps I R (kspecem_get_offset_by_ip rst k ip)" for ip
    unfolding kspecem_get_offset_by_ip_def by (intro keeps_rules assms)
  have 2: "keeps I R (kspecem_bug_already_reported rst k b)" for b
    unfolding kspecem_bug_already_reported_def
    by (rule keeps_bind [OF 1]) (auto simp: keeps_def hoare_def Let_def split: option.splits)
  have 3: "keeps I R (kspecem_bug_set_ip_as_reported rst k b)" for b
    unfolding kspecem_bug_set_ip_as_reported_def
    by (rule keeps_bind [OF 1]) (auto simp: keeps_def hoare_def Let_def assms(3) split: option.splits)
  have 4: "keeps I R (printk l)" for l unfolding printk_def by (intro keeps_rules assms)
  have 5: "keeps I R (kspecem_report_print_access_bug b)" for b
    unfolding kspecem_report_print_access_bug_def kspecem_report_print_bug_begin_def kspecem_report_print_bug_end_def lt_panic_def Let_def
    by (cases "access_type b"; simp only: access_type_enum.case; intro keeps_rules 4)
  show ?case
    unfolding print_bugs.simps kspecem_should_report_access_bug_def kspecem_report_print_restart_begin_def
    by (intro keeps_return keeps_get keeps_ifM keeps_if keeps_bind keeps_then assms(1) 2 3 4 5 Cons.IH)
qed

lemma keeps_print_and_clear:
  assumes "\<And>f l c t. keeps I R (lt_assert rst f l c t)" and "\<And>s x. I s \<Longrightarrow> I (s\<lparr>klog := x\<rparr>)"
    and "\<And>s x. I s \<Longrightarrow> I (s\<lparr>kspecem_previous_bugs_map := x\<rparr>)" and "keeps I R kspecem_report_clear_globals"
  shows "keeps I R (kspecem_report_print_and_clear rst k b ty)"
proof -
  have p: "keeps I R (printk l)" for l unfolding printk_def by (intro keeps_rules assms)
  show ?thesis
    unfolding kspecem_report_print_and_clear_def kspecem_report_print_restart_end_def
    by (intro keeps_rules keeps_print_bugs assms p)
qed

end
