(* ===== verification/KInternal.thy ===== *)
theory KInternal
  imports KUndolog KStack KBugs
begin

text \<open>
  Starting and ending a speculation (\<open>static/kspecem/kspecem_internal.c\<close>).

  \<open>kspecem_restart\<close> asserts, a failed assertion calls \<open>kspecem_hook_restart\<close>, and that calls
  \<open>kspecem_restart\<close> again. The model makes the inner call an argument (\<open>kspecem_restart_with\<close>)
  and shows that it is never made: \<open>kspecem_restart_with\<close> does not depend on it. So the
  function defined with an arbitrary inner call satisfies the recursive equation of the C
  code, and it is the model of \<open>kspecem_restart\<close>.
\<close>

section \<open>Definitions\<close>

definition kspecem_init_data :: "('c, unit) kop" where
  "kspecem_init_data =
     seqM
      [modifyM (\<lambda>s. s\<lparr>kspecem_in_speculative_emulation := False, kspecem_swap_branch_condition := False,
         kspecem_speculative_instr_count := 0, kspecem_spec_call_depth := 0, kspecem_call_depth := 0\<rparr>),
       printk (Printk ''init kspecem writelog'')]"

definition kspecem_new_checkpoint :: "('c, unit) kop \<Rightarrow> u64 \<Rightarrow> ('c, u64) kop" where
  "kspecem_new_checkpoint rst return_address =
     thenM
      (seqM
        [lt_assert rst ''kspecem_internal.c'' ''32'' ''kspecem_wl_stack != 0x0'' (\<lambda>s. kspecem_wl_stack s \<noteq> 0),
         lt_assert rst ''kspecem_internal.c'' ''33'' ''!kspecem_in_speculative_emulation''
           (\<lambda>s. \<not> kspecem_in_speculative_emulation s),
         modifyM (\<lambda>s. s\<lparr>kspecem_speculative_instr_count := 0\<rparr>),
         modifyM (\<lambda>s. s\<lparr>spec_stats := (spec_stats s)\<lparr>kspecem_curr_spec_statistics_index := 0\<rparr>\<rparr>),
         add_spec_statistics KSPECEM_FUNC_NEW_CHECKPOINT 0 0 0 return_address,
         modifyM (\<lambda>s. s\<lparr>kspecem_wl_position := 0\<rparr>),
         modifyM (\<lambda>s. s\<lparr>kspecem_in_speculative_emulation := True\<rparr>),
         whenM kspecem_swap_branch_enabled (modifyM (\<lambda>s. s\<lparr>kspecem_swap_branch_condition := True\<rparr>)),
         modifyM (\<lambda>s. s\<lparr>kspecem_spec_call_depth := 0, kspecem_call_depth := 0,
           kspecem_writelog_enabled := True\<rparr>)])
      (returnM 0)"

text \<open>\<open>kspecem_restore_registers\<close>: control leaves the runtime for the checkpoint.\<close>

definition kspecem_restore_registers :: "('c, 'a) kop" where
  "kspecem_restore_registers s =
     (case kspecem_asm_restore_registers (kspecem_registers s) (hw s) (mem s) of
        (hw', m') \<Rightarrow> Resume (s\<lparr>hw := hw', mem := m'\<rparr>))"

text \<open>The part of \<open>kspecem_restart\<close> from the assertion on \<open>kspecem_writelog_enabled\<close> on.\<close>

definition restart_rollback ::
  "('c, unit) kop \<Rightarrow> 'c kernel \<Rightarrow> site \<Rightarrow> u64 \<Rightarrow> int \<Rightarrow> addr \<Rightarrow> addr \<Rightarrow> ('c, int) kop" where
  "restart_rollback rst k st arg restart_type frameaddr regs =
     thenM (lt_assert rst ''kspecem_internal.c'' ''81'' ''kspecem_writelog_enabled'' kspecem_writelog_enabled)
      (bindM (kspecem_restore_writelog rst k st
               (if arg = 0 then restart_frame st else frameaddr + 0x8) regs) (\<lambda>r.
        if r = -1 then returnM (-1)
        else thenM
          (seqM
            [modifyM (\<lambda>s. s\<lparr>kspecem_writelog_enabled := False, kspecem_in_speculative_emulation := False,
               kspecem_swap_branch_condition := False, kspecem_spec_call_depth := 0,
               kspecem_call_depth := 0\<rparr>),
             restore_stack,
             modifyM (\<lambda>s. s\<lparr>kspecem_is_in_restart := False\<rparr>),
             (if restart_type \<noteq> KSPECEM_RESTART_TIMER \<and> restart_type \<noteq> KSPECEM_RESTART_EXCEPTION
              then kspecem_report_print_and_clear rst k True restart_type else returnM ())])
          (bindM (getM kspecem_spec_assert) (\<lambda>a.
            case assert_fmt a of
              Some fmt \<Rightarrow> panicM [fmt, assert_file a, assert_line a, assert_condition a]
            | None \<Rightarrow>
                (if arg = 0
                 then thenM (modifyM (\<lambda>s. s\<lparr>kspecem_is_in_rt := False\<rparr>)) kspecem_restore_registers
                 else returnM 0)))))"

definition kspecem_restart_with ::
  "('c, unit) kop \<Rightarrow> 'c kernel \<Rightarrow> site \<Rightarrow> u64 \<Rightarrow> int \<Rightarrow> u64 \<Rightarrow> addr \<Rightarrow> addr \<Rightarrow> ('c, int) kop" where
  "kspecem_restart_with rst k st arg restart_type call_arg frameaddr regs =
     ifM (\<lambda>s. \<not> kspecem_in_speculative_emulation s) (returnM 0)
      (thenM (modifyM (\<lambda>s. s\<lparr>kspecem_is_in_restart := True\<rparr>))
        (ifM (\<lambda>s. assert_fmt (kspecem_spec_assert s) = None)
          (ifM (\<lambda>s. restart_type = KSPECEM_RESTART_RETURN \<and> 0 < kspecem_spec_call_depth s)
            (thenM
              (seqM
                [add_spec_statistics KSPECEM_FUNC_RESTART_RETURN arg (of_int restart_type) 0 (ret_addr st),
                 modifyM (\<lambda>s. s\<lparr>kspecem_spec_call_depth := kspecem_spec_call_depth s - 1\<rparr>)])
              (returnM 0))
            (thenM
              (seqM
                [add_spec_statistics KSPECEM_FUNC_RESTART arg (of_int restart_type) 0 (ret_addr st),
                 add_restart_to_statistics restart_type
                   (if restart_type = KSPECEM_RESTART_CALL_INLINE_ASM then ret_addr st else call_arg)])
              (restart_rollback rst k st arg restart_type frameaddr regs)))
          (restart_rollback rst k st arg restart_type frameaddr regs)))"

text \<open>
  \<open>kspecem_restart\<close>. Its parameter \<open>ret_addr\<close> is the hook's return address, which the site
  carries. The inner call, shown below never to happen, is filled with a fault.
\<close>

definition kspecem_restart ::
  "'c kernel \<Rightarrow> site \<Rightarrow> u64 \<Rightarrow> int \<Rightarrow> u64 \<Rightarrow> addr \<Rightarrow> addr \<Rightarrow> ('c, int) kop" where
  "kspecem_restart k st arg restart_type call_arg frameaddr regs =
     kspecem_restart_with (faultM ''re-entered'') k st arg restart_type call_arg frameaddr regs"

section \<open>A restart never re-enters itself\<close>

lemma agree_restore_loop [agree_rules]:
  "agree restarting restarting (restore_loop rst k st fa regs n i) (restore_loop rst' k st fa regs n i)"
proof (induction n arbitrary: i)
  case 0
  show ?case unfolding restore_loop.simps by (rule agree_return)
next
  case (Suc n)
  show ?case unfolding restore_loop.simps
    by (intro agree_rules Suc.IH) (simp_all add: restarting_def)
qed

lemma agree_restore_writelog:
  "agree restarting restarting (kspecem_restore_writelog rst k st fa regs)
     (kspecem_restore_writelog rst' k st fa regs)"
  unfolding kspecem_restore_writelog_def by (intro agree_rules)

lemma agree_restore_stack [agree_rules]:
  "agree outside_spec outside_spec restore_stack restore_stack"
  unfolding restore_stack_def lt_panic_def
  by (intro agree_rules) (simp_all add: outside_spec_def)

lemma agree_restart_rollback:
  "agree restarting settled (restart_rollback rst k st arg ty fa regs)
     (restart_rollback rst' k st arg ty fa regs)"
  unfolding restart_rollback_def
proof (rule agree_thenJ [OF agree_assert_restarting agree_bindJ [OF agree_restore_writelog]], goal_cases)
  case (1 r)
  show ?case
    apply (rule agree_if)
     apply (rule agree_weaken [OF agree_return]; simp add: settled_def)
    apply (rule agree_thenJ [where I' = outside_spec])
     apply (subst (1 2) seqM.simps(2))
     apply (rule agree_thenJ [where I' = outside_spec])
      apply (rule agree_modify, simp add: outside_spec_def)
     apply (intro agree_rules; simp add: outside_spec_def)
    apply (auto simp: agree_def km_simps settled_def outside_spec_def kspecem_restore_registers_def
        split: option.splits prod.splits if_splits)
    done
qed

lemma restart_statistics_restarting:
  "agree restarting restarting (add_spec_statistics f a b c r) (add_spec_statistics f a b c r)"
  "agree restarting restarting (add_restart_to_statistics ty ca) (add_restart_to_statistics ty ca)"
  by (auto simp: agree_def restarting_def add_spec_statistics_def add_restart_to_statistics_def
      split: option.splits)

lemma agree_restart_inner:
  assumes "\<And>s. restarting s \<Longrightarrow> restarting (g s)"
  shows "agree restarting settled
     (ifM c (ifM d (thenM (seqM [add_spec_statistics f a b e r, modifyM g]) (returnM 0))
       (thenM (seqM [add_spec_statistics f' a' b' e' r', add_restart_to_statistics ty ca])
         (restart_rollback rst k st arg ty fa regs))) (restart_rollback rst k st arg ty fa regs))
     (ifM c (ifM d (thenM (seqM [add_spec_statistics f a b e r, modifyM g]) (returnM 0))
       (thenM (seqM [add_spec_statistics f' a' b' e' r', add_restart_to_statistics ty ca])
         (restart_rollback rst' k st arg ty fa regs))) (restart_rollback rst' k st arg ty fa regs))"
proof (intro agree_ifM)
  show "agree restarting settled (thenM (seqM [add_spec_statistics f a b e r, modifyM g]) (returnM 0))
      (thenM (seqM [add_spec_statistics f a b e r, modifyM g]) (returnM 0))"
    by (rule agree_weaken [where I' = restarting and J' = restarting])
      (intro agree_rules restart_statistics_restarting assms | simp add: settled_def)+
  show "agree restarting settled (thenM (seqM [add_spec_statistics f' a' b' e' r', add_restart_to_statistics ty ca])
        (restart_rollback rst k st arg ty fa regs))
      (thenM (seqM [add_spec_statistics f' a' b' e' r', add_restart_to_statistics ty ca])
        (restart_rollback rst' k st arg ty fa regs))"
    by (rule agree_thenJ [OF _ agree_restart_rollback]) (intro agree_rules restart_statistics_restarting)
qed (rule agree_restart_rollback)

lemma agree_restart:
  "agree (\<lambda>_. True) settled (kspecem_restart k st arg ty call_arg fa regs)
     (kspecem_restart_with hook_restart k st arg ty call_arg fa regs)"
  unfolding kspecem_restart_def kspecem_restart_with_def
proof (rule agree_ifJ [OF _ agree_thenJ [OF agree_modify agree_restart_inner]], goal_cases)
  case 1
  show ?case by (simp add: agree_def settled_def outside_spec_def)
qed (simp_all add: restarting_def)

text \<open>
  C27. A restart never calls itself again through a failed assertion: whatever
  \<open>kspecem_hook_restart\<close> would do when called from an assertion inside \<open>kspecem_restart\<close>,
  the restart behaves the same. So \<open>kspecem_restart\<close> satisfies the recursive equation of the
  C code, in which an assertion calls the hook again.
\<close>

theorem kspecem_restart_never_reenters:
  "kspecem_restart k st arg ty call_arg fa regs =
   kspecem_restart_with hook_restart k st arg ty call_arg fa regs"
  using agree_restart [of k st arg ty call_arg fa regs hook_restart] by (simp add: agree_def fun_eq_iff)

section \<open>What a restart needs and what it leaves alone\<close>

text \<open>The tables of the statistics have been allocated.\<close>

definition stats_ready :: "'c kstate \<Rightarrow> bool" where
  "stats_ready s \<longleftrightarrow> kspecem_spec_statistics (spec_stats s) \<noteq> 0 \<and> kspecem_total_statistics s \<noteq> None
     \<and> (kspecem_inlineasm_restart_stats_enabled (inlineasm s)
         \<longrightarrow> length (kspecem_inlineasm_restart_stats (inlineasm s)) = NUM_INLINEASM_RESTART_IPS)"

definition with_stats :: "spec_statistics \<Rightarrow> kspecem_function_stats_t option \<Rightarrow> inlineasm_stats
    \<Rightarrow> 'c kstate \<Rightarrow> 'c kstate" where
  "with_stats a b c s = s\<lparr>spec_stats := a, kspecem_total_statistics := b, inlineasm := c\<rparr>"

lemma add_spec_statistics_runs:
  assumes "stats_ready s"
  obtains a where "add_spec_statistics f x y z r s = Ret () (s\<lparr>spec_stats := a\<rparr>)"
    and "kspecem_spec_statistics a \<noteq> 0"
    and "kspecem_add_spec_statistics f x y z r (spec_stats s) = Some a"
proof -
  obtain a where "kspecem_add_spec_statistics f x y z r (spec_stats s) = Some a"
    "kspecem_spec_statistics a \<noteq> 0"
    using assms kspecem_add_spec_statistics_Some [of "spec_stats s" f x y z r]
    by (auto simp: stats_ready_def)
  then show thesis by (intro that [of a]) (simp_all add: add_spec_statistics_def)
qed

lemma add_restart_to_statistics_runs:
  assumes "stats_ready s"
  obtains b c where "add_restart_to_statistics ty ca s = Ret () (s\<lparr>kspecem_total_statistics := b, inlineasm := c\<rparr>)"
    and "stats_ready (s\<lparr>kspecem_total_statistics := b, inlineasm := c\<rparr>)"
proof -
  obtain t where t: "kspecem_total_statistics s = Some t" using assms by (auto simp: stats_ready_def)
  define b where "b = Some (count_restart ty (t\<lparr>kspecem_total_restarts := kspecem_total_restarts t + 1\<rparr>))"
  obtain c where c: "kspecem_add_restart_to_statistics ty ca (Some t) (inlineasm s) = Some (b, c)"
    "kspecem_inlineasm_restart_stats_enabled c
      \<longrightarrow> length (kspecem_inlineasm_restart_stats c) = NUM_INLINEASM_RESTART_IPS"
  proof (cases "ty = KSPECEM_RESTART_CALL_INLINE_ASM \<and> kspecem_inlineasm_restart_stats_enabled (inlineasm s)")
    case True
    with assms kspecem_add_inlineasm_restart_Some [of "inlineasm s" ca] that show ?thesis
      by (auto simp: kspecem_add_restart_to_statistics_def stats_ready_def Let_def b_def)
  next
    case False
    with assms that [of "inlineasm s"] show ?thesis
      by (auto simp: kspecem_add_restart_to_statistics_def stats_ready_def Let_def b_def)
  qed
  with t assms show thesis
    by (intro that [of c b]) (simp_all add: add_restart_to_statistics_def stats_ready_def b_def)
qed

lemma restart_statistics_run:
  assumes "stats_ready s"
  obtains a b c where
    "seqM [add_spec_statistics f x y z r, add_restart_to_statistics ty ca] s = Ret () (with_stats a b c s)"
    and "stats_ready (with_stats a b c s)"
proof -
  obtain a where a: "add_spec_statistics f x y z r s = Ret () (s\<lparr>spec_stats := a\<rparr>)" "kspecem_spec_statistics a \<noteq> 0"
    using add_spec_statistics_runs [OF assms] by metis
  then have "stats_ready (s\<lparr>spec_stats := a\<rparr>)" using assms by (simp add: stats_ready_def)
  from add_restart_to_statistics_runs [OF this] obtain b c where
    "add_restart_to_statistics ty ca (s\<lparr>spec_stats := a\<rparr>) =
      Ret () (s\<lparr>spec_stats := a, kspecem_total_statistics := b, inlineasm := c\<rparr>)"
    "stats_ready (s\<lparr>spec_stats := a, kspecem_total_statistics := b, inlineasm := c\<rparr>)" by metis
  with a that show thesis by (simp add: km_simps with_stats_def)
qed

section \<open>Rolling back\<close>

text \<open>What the rollback needs of the log, the frames of the running code and the saved stack.
  \<open>fa\<close> is the upper end of the stack that is left alone.\<close>

definition rollback_ok :: "'c kernel \<Rightarrow> site \<Rightarrow> addr \<Rightarrow> addr \<Rightarrow> 'c kstate \<Rightarrow> bool" where
  "rollback_ok k st fa regs s \<longleftrightarrow> kspecem_writelog_enabled s \<and> restore_rsp st \<noteq> 0
     \<and> kspecem_wl_stack_base_address s - kspecem_wl_stack_len s \<noteq> 0
     \<and> (\<forall>e \<in> set (wl_list s). skip_entry st fa regs (fst e) \<or> restorable k st s (fst e))"

definition rollback_mem :: "site \<Rightarrow> addr \<Rightarrow> addr \<Rightarrow> 'c kstate \<Rightarrow> memory" where
  "rollback_mem st fa regs s = memcpy_to
     (undo store64 (filter (\<lambda>e. \<not> skip_entry st fa regs (fst e)) (wl_list s)) (mem s))
     (kspecem_wl_stack_base_address s - kspecem_wl_stack_len s) (wl_stack_bytes s) (kspecem_wl_stack_len s)"

definition rolled_back :: "site \<Rightarrow> addr \<Rightarrow> addr \<Rightarrow> 'c kstate \<Rightarrow> 'c kstate" where
  "rolled_back st fa regs s = s\<lparr>kspecem_wl_position := 0, kspecem_writelog_enabled := False,
     kspecem_in_speculative_emulation := False, kspecem_swap_branch_condition := False,
     kspecem_spec_call_depth := 0, kspecem_call_depth := 0, mem := rollback_mem st fa regs s,
     kspecem_is_in_restart := False\<rparr>"

text \<open>The frame address the log replay uses, from the arguments of \<open>kspecem_restart\<close>.\<close>

definition stack_top :: "site \<Rightarrow> u64 \<Rightarrow> addr \<Rightarrow> addr" where
  "stack_top st arg frameaddr = (if arg = 0 then restart_frame st else frameaddr + 0x8)"

definition reports_at_restart :: "int \<Rightarrow> bool" where
  "reports_at_restart ty \<longleftrightarrow> ty \<noteq> KSPECEM_RESTART_TIMER \<and> ty \<noteq> KSPECEM_RESTART_EXCEPTION"

definition restart_end :: "u64 \<Rightarrow> ('c, int) kop" where
  "restart_end arg = (if arg = 0 then thenM (modifyM (\<lambda>s. s\<lparr>kspecem_is_in_rt := False\<rparr>)) kspecem_restore_registers
     else returnM 0)"

lemma restart_rollback_eq:
  assumes "rollback_ok k st (stack_top st arg fa) regs s"
  shows "restart_rollback rst k st arg ty fa regs s =
    thenM (if reports_at_restart ty then kspecem_report_print_and_clear rst k True ty else returnM ())
      (bindM (getM kspecem_spec_assert) (\<lambda>a. case assert_fmt a of
         Some fmt \<Rightarrow> panicM [fmt, assert_file a, assert_line a, assert_condition a]
       | None \<Rightarrow> restart_end arg)) (rolled_back st (stack_top st arg fa) regs s)"
proof -
  let ?s = "s\<lparr>mem := undo store64 (filter (\<lambda>e. \<not> skip_entry st (stack_top st arg fa) regs (fst e)) (wl_list s)) (mem s),
      kspecem_wl_position := 0\<rparr>"
  let ?t = "?s\<lparr>kspecem_writelog_enabled := False, kspecem_in_speculative_emulation := False,
      kspecem_swap_branch_condition := False, kspecem_spec_call_depth := 0, kspecem_call_depth := 0\<rparr>"
  have w: "bindM (kspecem_restore_writelog rst k st (stack_top st arg fa) regs) K s = K 0 ?s" for K :: "int \<Rightarrow> ('a, int) kop"
    using assms by (subst bindM_apply, subst kspecem_restore_writelog_undo) (auto simp: rollback_ok_def)
  have r: "thenM restore_stack K ?t = K (?t\<lparr>mem := rollback_mem st (stack_top st arg fa) regs s\<rparr>)" for K :: "('a, int) kop"
    using assms by (simp add: restore_stack_def thenM_apply ifM_apply rollback_ok_def rollback_mem_def)
  have a: "thenM (lt_assert rst f l c kspecem_writelog_enabled) K s = K s" for K :: "('a, int) kop" and f l c
    using assms by (simp add: thenM_apply rollback_ok_def lt_assert_ok)
  show ?thesis
    unfolding restart_rollback_def stack_top_def [symmetric] reports_at_restart_def [symmetric]
      restart_end_def [symmetric] a w
    using r by (simp add: run_simps rolled_back_def)
qed

lemma reports_ok_rolled_back: "reports_ok k (rolled_back st fa regs s) = reports_ok k s"
  by (simp add: reports_ok_def rolled_back_def map_ready_def)

lemma reports_ok_with_stats: "reports_ok k (with_stats a b c s) = reports_ok k s"
  by (simp add: reports_ok_def with_stats_def map_ready_def)

text \<open>A restart that is not the return of a nested call, with no failed assertion pending.\<close>

definition ends_speculation :: "int \<Rightarrow> 'c kstate \<Rightarrow> bool" where
  "ends_speculation ty s \<longleftrightarrow> kspecem_in_speculative_emulation s
     \<and> assert_fmt (kspecem_spec_assert s) = None
     \<and> \<not> (ty = KSPECEM_RESTART_RETURN \<and> 0 < kspecem_spec_call_depth s)"

lemma restart_to_rollback:
  assumes "ends_speculation ty s" and "stats_ready s"
  obtains a b c where "kspecem_restart_with rst k st arg ty ca fa regs s =
    restart_rollback rst k st arg ty fa regs (with_stats a b c (s\<lparr>kspecem_is_in_restart := True\<rparr>))"
    and "stats_ready (with_stats a b c s)"
proof -
  let ?s = "s\<lparr>kspecem_is_in_restart := True\<rparr>"
  let ?st = "seqM [add_spec_statistics KSPECEM_FUNC_RESTART arg (of_int ty) 0 (ret_addr st),
      add_restart_to_statistics ty (if ty = KSPECEM_RESTART_CALL_INLINE_ASM then ret_addr st else ca)]"
  have "stats_ready ?s" using assms(2) by (simp add: stats_ready_def)
  then obtain a b c where r: "?st ?s = Ret () (with_stats a b c ?s)" "stats_ready (with_stats a b c ?s)"
    by (rule restart_statistics_run)
  have "thenM ?st K ?s = K (with_stats a b c ?s)" for K :: "('a, int) kop"
    by (simp only: thenM_apply r(1) outcome.case)
  then have "kspecem_restart_with rst k st arg ty ca fa regs s =
      restart_rollback rst k st arg ty fa regs (with_stats a b c ?s)"
    using assms(1) by (auto simp: kspecem_restart_with_def ifM_apply then_modify ends_speculation_def
        simp del: seqM.simps)
  moreover have "stats_ready (with_stats a b c s)" using r(2) by (simp add: stats_ready_def with_stats_def)
  ultimately show thesis by (rule that)
qed

text \<open>What of the state the rollback looks at.\<close>

definition log_view :: "'c kstate \<Rightarrow> memory \<times> (nat \<Rightarrow> addr) \<times> (nat \<Rightarrow> u64) \<times> u64 \<times> bool \<times> addr \<times> u64
    \<times> (nat \<Rightarrow> u8) \<times> addr \<times> addr" where
  "log_view s = (mem s, wl_addrs s, wl_data s, kspecem_wl_position s, kspecem_writelog_enabled s,
     kspecem_wl_stack_base_address s, kspecem_wl_stack_len s, wl_stack_bytes s,
     kspecem_writelog_addrs s, kspecem_writelog_data s)"

lemma rollback_cong:
  assumes "log_view s = log_view t"
  shows "wl_list s = wl_list t" and "rollback_mem st fa regs s = rollback_mem st fa regs t"
    and "rollback_ok k st fa regs s = rollback_ok k st fa regs t"
proof -
  show 1: "wl_list s = wl_list t"
    using assms by (auto simp: wl_list_def log_view_def intro!: log_entries_cong)
  have 2: "restorable k st s = restorable k st t"
    using assms by (auto simp: restorable_def kspecem_can_restore_def log_view_def fun_eq_iff)
  show "rollback_mem st fa regs s = rollback_mem st fa regs t"
    unfolding rollback_mem_def 1 using assms by (simp add: log_view_def)
  show "rollback_ok k st fa regs s = rollback_ok k st fa regs t"
    unfolding rollback_ok_def 1 2 using assms by (simp add: log_view_def)
qed

lemma rollback_fields_with_stats [simp]:
  "rollback_mem st fa regs (with_stats a b c s) = rollback_mem st fa regs s"
  "rollback_ok k st fa regs (with_stats a b c s) = rollback_ok k st fa regs s"
  "rollback_mem st fa regs (s\<lparr>kspecem_is_in_restart := v\<rparr>) = rollback_mem st fa regs s"
  "rollback_ok k st fa regs (s\<lparr>kspecem_is_in_restart := v\<rparr>) = rollback_ok k st fa regs s"
  by (rule rollback_cong; simp add: log_view_def with_stats_def)+

text \<open>
  The state in which a rolled-back speculation ends: statistics and report lines aside, the
  runtime's state is that of \<open>rolled_back\<close>.
\<close>

lemma restart_rolls_back:
  assumes "ends_speculation ty s" and "stats_ready s" and "reports_ok k s"
    and "rollback_ok k st (stack_top st arg fa) regs s"
  obtains a b c l m where "kspecem_restart k st arg ty ca fa regs s = restart_end arg
      (let t = with_stats a b c (rolled_back st (stack_top st arg fa) regs s) in
       if reports_at_restart ty then cleared l m t else t)"
    and "map_ready k (s\<lparr>kspecem_previous_bugs_map := m\<rparr>)" and "stats_ready (with_stats a b c s)"
proof -
  let ?fa = "stack_top st arg fa"
  obtain a b c where r: "kspecem_restart k st arg ty ca fa regs s = restart_rollback (faultM ''re-entered'') k st arg ty fa regs
      (with_stats a b c (s\<lparr>kspecem_is_in_restart := True\<rparr>))" and st: "stats_ready (with_stats a b c s)"
    unfolding kspecem_restart_def using assms(1,2) by (rule restart_to_rollback)
  let ?t = "rolled_back st ?fa regs (with_stats a b c (s\<lparr>kspecem_is_in_restart := True\<rparr>))"
  have t: "?t = with_stats a b c (rolled_back st ?fa regs s)"
    by (simp add: rolled_back_def) (simp add: with_stats_def)
  have fmt: "assert_fmt (kspecem_spec_assert s) = None" using assms(1) by (simp add: ends_speculation_def)
  have ok: "reports_ok k (with_stats a b c (rolled_back st ?fa regs s))"
    using assms(3) by (simp add: reports_ok_rolled_back reports_ok_with_stats)
  obtain l m where p: "kspecem_report_print_and_clear (faultM ''re-entered'') k True ty
      (with_stats a b c (rolled_back st ?fa regs s)) = Ret () (cleared l m (with_stats a b c (rolled_back st ?fa regs s)))"
    and m: "map_ready k (cleared l m (with_stats a b c (rolled_back st ?fa regs s)))"
    using print_and_clear_returns [OF ok] by metis
  have "rollback_ok k st ?fa regs (with_stats a b c (s\<lparr>kspecem_is_in_restart := True\<rparr>))"
    using assms(4) by simp
  from restart_rollback_eq [OF this] have
    "kspecem_restart k st arg ty ca fa regs s = restart_end arg
      (let t = with_stats a b c (rolled_back st ?fa regs s) in if reports_at_restart ty then cleared l m t else t)"
    unfolding r t using p fmt
    by (auto simp: thenM_apply bindM_apply Let_def cleared_def with_stats_def rolled_back_def)
  moreover have "map_ready k (s\<lparr>kspecem_previous_bugs_map := m\<rparr>)" using m by (simp add: map_ready_def cleared_def)
  ultimately show thesis using st by (rule that)
qed

section \<open>Properties\<close>

lemma restart_resumes:
  assumes "ends_speculation ty s" and "stats_ready s" and "reports_ok k s"
    and "rollback_ok k st (restart_frame st) regs s"
  shows "\<exists>t. kspecem_restart k st 0 ty ca fa regs s = Resume t
    \<and> mem t = store64 (rollback_mem st (restart_frame st) regs s)
        (kspecem_registers s RSP - 8) (kspecem_registers s EFLAGS)
    \<and> (\<forall>r \<in> preserved_regs \<union> {RIP, RSP, EFLAGS}. hw t r = kspecem_registers s r)
    \<and> \<not> kspecem_in_speculative_emulation t \<and> \<not> kspecem_writelog_enabled t
    \<and> \<not> kspecem_swap_branch_condition t \<and> \<not> kspecem_is_in_restart t \<and> \<not> kspecem_is_in_rt t
    \<and> kspecem_wl_position t = 0 \<and> kspecem_spec_call_depth t = 0 \<and> kspecem_call_depth t = 0
    \<and> (reports_at_restart ty \<longrightarrow> kspecem_next_bug_index t = 0) \<and> cpu t = cpu s"
proof -
  have "rollback_ok k st (stack_top st 0 fa) regs s" using assms(4) by (simp add: stack_top_def)
  with assms obtain a b c l m where r: "kspecem_restart k st 0 ty ca fa regs s = restart_end 0
      (let t = with_stats a b c (rolled_back st (stack_top st 0 fa) regs s) in
       if reports_at_restart ty then cleared l m t else t)" by (rule_tac restart_rolls_back)
  define t where "t = (let t = with_stats a b c (rolled_back st (restart_frame st) regs s) in
       if reports_at_restart ty then cleared l m t else t)"
  have "kspecem_restart k st 0 ty ca fa regs s = restart_end 0 t"
    using r by (simp add: t_def stack_top_def)
  then show ?thesis
    by (simp add: restart_end_def then_modify kspecem_restore_registers_def
        kspecem_asm_restore_registers_def t_def with_stats_def rolled_back_def cleared_def
        preserved_regs_def Let_def)
qed

text \<open>
  C12. A restart from the instrumented code ends the speculation and jumps back to the checkpoint:
  every logged entry outside the running stack frames is put back, newest first, then the saved
  stack frame, the registers and the flags; speculation, write log and branch swapping are off, the
  log is empty, the call depths are zero, the restart is over and the runtime has been left, with
  the interrupt state of the call.
\<close>

theorem kspecem_restart_rolls_back:
  assumes "ends_speculation ty s" and "stats_ready s" and "reports_ok k s"
    and "rollback_ok k st (restart_frame st) regs s"
  shows "\<exists>t. kspecem_restart k st 0 ty call_arg frameaddr regs s = Resume t
    \<and> mem t = store64 (rollback_mem st (restart_frame st) regs s)
        (kspecem_registers s RSP - 8) (kspecem_registers s EFLAGS)
    \<and> (\<forall>r \<in> preserved_regs \<union> {RIP, RSP, EFLAGS}. hw t r = kspecem_registers s r)
    \<and> \<not> kspecem_in_speculative_emulation t \<and> \<not> kspecem_writelog_enabled t
    \<and> \<not> kspecem_swap_branch_condition t \<and> \<not> kspecem_is_in_restart t \<and> \<not> kspecem_is_in_rt t
    \<and> kspecem_wl_position t = 0 \<and> kspecem_spec_call_depth t = 0 \<and> kspecem_call_depth t = 0
    \<and> (reports_at_restart ty \<longrightarrow> kspecem_next_bug_index t = 0) \<and> cpu t = cpu s"
  using assms by (rule restart_resumes)

text \<open>A state in a speculation with one logged store, and the frames of a hook call.\<close>

definition demo_site :: site where
  "demo_site = \<lparr>ret_addr = 0xffffffff81000040, restart_frame = 0x7f00, restore_rsp = 0x7e00,
     adr_i = 0x7e10, adr_num_entries = 0x7e18\<rparr>"

definition demo_spec :: "machine kstate" where
  "demo_spec = (boot_state (\<lambda>_. 1) (\<lambda>_. 0) plain_machine)
     \<lparr>kspecem_in_speculative_emulation := True, kspecem_writelog_enabled := True,
      kspecem_writelog_addrs := 0xffff888000000000, kspecem_writelog_data := 0xffff888001000000,
      kspecem_writelog_meta := 0xffff888002000000,
      kspecem_wl_position := 1, wl_addrs := (\<lambda>_. 0x2000), wl_data := (\<lambda>_. 0),
      kspecem_wl_stack := 0xffff888003000000, kspecem_wl_stack_base_address := 0x8100,
      kspecem_wl_stack_len := 0x80, kspecem_init_done := True, kspecem_is_in_rt := True,
      spec_stats := kspecem_statistics_init 0xffff888004000000,
      kspecem_total_statistics := Some zero_function_stats,
      kspecem_previous_bugs_map := (\<lambda>_. Some (\<lambda>_. 0))\<rparr>"

lemma plain_text_ok: "text_ok plain_kernel"
  by (simp add: text_ok_def plain_kernel_def)

lemma demo_spec_wl_list: "wl_list demo_spec = [(0x2000, 0)]"
  by (simp add: wl_list_def demo_spec_def)

lemma demo_spec_ok:
  "ends_speculation KSPECEM_RESTART_CALL demo_spec" "stats_ready demo_spec"
  "reports_ok plain_kernel demo_spec" "rollback_ok plain_kernel demo_site (restart_frame demo_site) 0 demo_spec"
proof -
  show "ends_speculation KSPECEM_RESTART_CALL demo_spec" "stats_ready demo_spec"
    by (simp_all add: ends_speculation_def demo_spec_def boot_state_def stats_ready_def
        kspecem_statistics_init_def initial_inlineasm_stats_def)
  show "reports_ok plain_kernel demo_spec"
    using plain_text_ok by (simp add: reports_ok_def demo_spec_def boot_state_def map_ready_def)
  have "restorable plain_kernel demo_site demo_spec 0x2000"
    by (simp add: restorable_def kspecem_can_restore_def kspecem_overlaps_def demo_site_def demo_spec_def
        plain_kernel_def WRITELOG_BYTES_def WRITELOG_MAXLEN_def WRITELOG_GRANULARITY_def)
  then show "rollback_ok plain_kernel demo_site (restart_frame demo_site) 0 demo_spec"
    unfolding rollback_ok_def demo_spec_wl_list by (simp add: demo_spec_def demo_site_def)
qed

theorem kspecem_restart_rolls_back_witness:
  "\<exists>t. kspecem_restart plain_kernel demo_site 0 KSPECEM_RESTART_CALL 0 0 0 demo_spec = Resume t
    \<and> mem demo_spec 0x2001 = 1 \<and> mem t 0x2001 = 0 \<and> \<not> kspecem_in_speculative_emulation t"
proof -
  obtain t where t: "kspecem_restart plain_kernel demo_site 0 KSPECEM_RESTART_CALL 0 0 0 demo_spec = Resume t"
    "mem t = store64 (rollback_mem demo_site (restart_frame demo_site) 0 demo_spec)
        (kspecem_registers demo_spec RSP - 8) (kspecem_registers demo_spec EFLAGS)"
    "\<not> kspecem_in_speculative_emulation t"
    using kspecem_restart_rolls_back [OF demo_spec_ok, of 0 0] by blast
  have "mem t 0x2001 = 0"
    unfolding t(2) rollback_mem_def demo_spec_wl_list
    by (simp add: store64_def memcpy_to_def skip_entry_def demo_spec_def demo_site_def boot_state_def)
  moreover have "mem demo_spec 0x2001 = 1" by (simp add: demo_spec_def boot_state_def)
  ultimately show ?thesis using t by blast
qed

text \<open>
  The return of a function that was called inside the speculation does not end it: the call
  depth goes down by one, the event is recorded, and memory, log and speculation stay as they
  are. The flag \<open>kspecem_is_in_restart\<close>, which no one resets on this path, stays set.
\<close>

theorem kspecem_restart_nested_return:
  assumes "kspecem_in_speculative_emulation s" and "assert_fmt (kspecem_spec_assert s) = None"
    and "0 < kspecem_spec_call_depth s" and "stats_ready s"
  shows "\<exists>tr. kspecem_restart k st arg KSPECEM_RESTART_RETURN call_arg frameaddr regs s =
      Ret 0 (s\<lparr>kspecem_is_in_restart := True, spec_stats := tr,
               kspecem_spec_call_depth := kspecem_spec_call_depth s - 1\<rparr>)
    \<and> kspecem_add_spec_statistics KSPECEM_FUNC_RESTART_RETURN arg 0 0 (ret_addr st) (spec_stats s) = Some tr"
proof -
  have "stats_ready (s\<lparr>kspecem_is_in_restart := True\<rparr>)" using assms(4) by (simp add: stats_ready_def)
  then obtain a where "add_spec_statistics KSPECEM_FUNC_RESTART_RETURN arg 0 0 (ret_addr st)
      (s\<lparr>kspecem_is_in_restart := True\<rparr>) = Ret () (s\<lparr>kspecem_is_in_restart := True, spec_stats := a\<rparr>)"
    "kspecem_add_spec_statistics KSPECEM_FUNC_RESTART_RETURN arg 0 0 (ret_addr st) (spec_stats s) = Some a"
    by (rule add_spec_statistics_runs) simp
  with assms show ?thesis
    by (simp add: kspecem_restart_def kspecem_restart_with_def ifM_apply run_simps thenM_apply)
qed

theorem kspecem_restart_nested_return_witness:
  "\<exists>tr. kspecem_restart plain_kernel demo_site 0 KSPECEM_RESTART_RETURN 0 0 0
      (demo_spec\<lparr>kspecem_spec_call_depth := 3\<rparr>) =
    Ret 0 (demo_spec\<lparr>kspecem_is_in_restart := True, spec_stats := tr, kspecem_spec_call_depth := 2\<rparr>)"
proof -
  let ?s = "demo_spec\<lparr>kspecem_spec_call_depth := 3\<rparr>"
  have "kspecem_in_speculative_emulation ?s" "assert_fmt (kspecem_spec_assert ?s) = None"
    "0 < kspecem_spec_call_depth ?s"
    by (simp_all add: demo_spec_def boot_state_def)
  moreover have "stats_ready ?s" using demo_spec_ok(2) by (simp add: stats_ready_def)
  ultimately show ?thesis
    using kspecem_restart_nested_return [of ?s plain_kernel demo_site 0 0 0 0] by auto
qed

text \<open>
  C35. The nested return leaves the restart flag set, and while it is set a failed assertion inside
  the speculation neither restarts nor panics: it is recorded and the code after it runs. The
  assertion at the head of \<open>kspecem_access_report\<close> then does not protect the list of pending
  reports, and a report to a full list is written past its end.
\<close>

theorem kspecem_nested_return_disables_assertions:
  assumes "kspecem_in_speculative_emulation s" and "assert_fmt (kspecem_spec_assert s) = None"
    and "0 < kspecem_spec_call_depth s" and "stats_ready s"
    and "kspecem_next_bug_index s = BUGS_LIST_SIZE"
  shows "\<exists>t e u. kspecem_restart k st arg KSPECEM_RESTART_RETURN call_arg frameaddr regs s = Ret 0 t
    \<and> kspecem_access_report hook_restart k a sz w ip dl pl ty t = Fault e u"
proof -
  have "stats_ready (s\<lparr>kspecem_is_in_restart := True\<rparr>)" using assms(4) by (simp add: stats_ready_def)
  then obtain tr where "add_spec_statistics KSPECEM_FUNC_RESTART_RETURN arg 0 0 (ret_addr st)
      (s\<lparr>kspecem_is_in_restart := True\<rparr>) = Ret () (s\<lparr>kspecem_is_in_restart := True, spec_stats := tr\<rparr>)"
    by (rule add_spec_statistics_runs) simp
  with assms have "kspecem_restart k st arg KSPECEM_RESTART_RETURN call_arg frameaddr regs s =
      Ret 0 (s\<lparr>kspecem_is_in_restart := True, spec_stats := tr,
               kspecem_spec_call_depth := kspecem_spec_call_depth s - 1\<rparr>)"
    by (simp add: kspecem_restart_def kspecem_restart_with_def ifM_apply run_simps thenM_apply)
  with assms show ?thesis
    by (simp add: kspecem_access_report_def km_simps record_assert_def)
qed

theorem kspecem_nested_return_disables_assertions_witness:
  "\<exists>t e u. kspecem_restart plain_kernel demo_site 0 KSPECEM_RESTART_RETURN 0 0 0
      (demo_spec\<lparr>kspecem_spec_call_depth := 1, kspecem_next_bug_index := 100\<rparr>) = Ret 0 t
    \<and> kspecem_access_report (returnM ()) plain_kernel 0 8 False 0xffffffff81000000 0 0 KASAN_ACCESS t = Fault e u"
proof -
  let ?s = "demo_spec\<lparr>kspecem_spec_call_depth := 1, kspecem_next_bug_index := 100\<rparr>"
  have "kspecem_in_speculative_emulation ?s" "assert_fmt (kspecem_spec_assert ?s) = None"
    "0 < kspecem_spec_call_depth ?s" "kspecem_next_bug_index ?s = BUGS_LIST_SIZE"
    by (simp_all add: demo_spec_def boot_state_def BUGS_LIST_SIZE_def)
  moreover have "stats_ready ?s" using demo_spec_ok(2) by (simp add: stats_ready_def)
  ultimately show ?thesis
    by (rule_tac kspecem_nested_return_disables_assertions)
qed

section \<open>Taking a checkpoint\<close>

definition checkpointed :: "u64 \<Rightarrow> 'c kstate \<Rightarrow> 'c kstate" where
  "checkpointed ip s = s\<lparr>kspecem_speculative_instr_count := 0,
     spec_stats := push_spec_statistics \<lparr>kspecem_function_type = KSPECEM_FUNC_NEW_CHECKPOINT,
       kspecem_function_arg1 = 0, kspecem_function_arg2 = 0, kspecem_function_arg3 = 0,
       kspecem_function_return_addr = ip\<rparr> ((spec_stats s)\<lparr>kspecem_curr_spec_statistics_index := 0\<rparr>),
     kspecem_wl_position := 0, kspecem_in_speculative_emulation := True,
     kspecem_swap_branch_condition := kspecem_swap_branch_enabled s \<or> kspecem_swap_branch_condition s,
     kspecem_spec_call_depth := 0, kspecem_call_depth := 0, kspecem_writelog_enabled := True\<rparr>"

lemma kspecem_new_checkpoint_eq:
  assumes "\<not> kspecem_in_speculative_emulation s" and "kspecem_wl_stack s \<noteq> 0"
    and "kspecem_spec_statistics (spec_stats s) \<noteq> 0"
  shows "kspecem_new_checkpoint rst ip s = Ret 0 (checkpointed ip s)"
  using assms
  by (simp add: kspecem_new_checkpoint_def km_simps add_spec_statistics_def
      kspecem_add_spec_statistics_def checkpointed_def KSPECEM_SPEC_STATISTICS_SIZE_def)

end
