(* ===== verification/KWritelog.thy ===== *)
theory KWritelog
  imports KInternal
begin

text \<open>
  Writing the undo log (\<open>static/kspecem/kspecem_undolog.c\<close>, the part the store hooks call).
  Before an instrumented store the 64-bit granules it may touch are appended to the log with
  their present contents.
\<close>

section \<open>Definitions\<close>

text \<open>The assignments at the end of \<open>kspecem_write_wl\<close>; past the arrays they are undefined.\<close>

definition push_entry :: "site \<Rightarrow> addr \<Rightarrow> ('c, unit) kop" where
  "push_entry st a s =
     (let p = unat (kspecem_wl_position s) in
      if unat (2 * WRITELOG_MAXLEN) \<le> p \<or> kspecem_writelog_meta s = 0 then Fault ''kspecem_writelog'' s
      else Ret () (s\<lparr>wl_addrs := (wl_addrs s)(p := a), wl_data := (wl_data s)(p := load64 (mem s) a),
        wl_meta := (wl_meta s)(p := ret_addr st), kspecem_wl_position := kspecem_wl_position s + 1\<rparr>))"

text \<open>The pointers the bounds checks compare.\<close>

definition addr_slot :: "'c kstate \<Rightarrow> addr" where
  "addr_slot s = kspecem_writelog_addrs s + 8 * kspecem_wl_position s"

definition data_slot :: "'c kstate \<Rightarrow> addr" where
  "data_slot s = kspecem_writelog_data s + 8 * kspecem_wl_position s"

definition wl_addrs_end :: "'c kstate \<Rightarrow> addr" where
  "wl_addrs_end s = kspecem_writelog_addrs s + 8 * (WRITELOG_MAXLEN * 2)"

definition wl_data_end :: "'c kstate \<Rightarrow> addr" where
  "wl_data_end s = kspecem_writelog_data s + 8 * (WRITELOG_MAXLEN * 2)"

text \<open>The body of \<open>kspecem_write_wl\<close> behind the alignment of the address. \<open>ret_addr\<close> is the
  return address of the hook, which the site carries.\<close>

definition write_wl_aligned :: "('c, unit) kop \<Rightarrow> 'c kernel \<Rightarrow> site \<Rightarrow> addr \<Rightarrow> ('c, unit) kop" where
  "write_wl_aligned rst k st a =
     seqM
      [lt_assert rst ''kspecem_undolog.c'' ''82'' ''kspecem_writelog_enabled == kspecem_in_speculative_emulation''
         (\<lambda>s. kspecem_writelog_enabled s = kspecem_in_speculative_emulation s),
       lt_assert rst ''kspecem_undolog.c'' ''83'' ''kspecem_writelog_addrs'' (\<lambda>s. kspecem_writelog_addrs s \<noteq> 0),
       lt_assert rst ''kspecem_undolog.c'' ''84'' ''kspecem_writelog_data'' (\<lambda>s. kspecem_writelog_data s \<noteq> 0),
       whenM (\<lambda>s. wl_addrs_end s \<le> addr_slot s \<or> wl_data_end s \<le> data_slot s)
         (ignoreM (kspecem_restart k st 0 KSPECEM_RESTART_WRITELOG_FULL 0 0 0)),
       lt_assert rst ''kspecem_undolog.c'' ''91'' ''&kspecem_writelog_addrs[kspecem_wl_position] < wl_addrs_end''
         (\<lambda>s. addr_slot s < wl_addrs_end s),
       lt_assert rst ''kspecem_undolog.c'' ''92'' ''&kspecem_writelog_data[kspecem_wl_position] < wl_data_end''
         (\<lambda>s. data_slot s < wl_data_end s),
       lt_assert rst ''kspecem_undolog.c'' ''93'' ''addr < wl_addrs_start || addr >= wl_addrs_end''
         (\<lambda>s. a < kspecem_writelog_addrs s \<or> wl_addrs_end s \<le> a),
       lt_assert rst ''kspecem_undolog.c'' ''94'' ''addr < wl_data_start || addr >= wl_data_end''
         (\<lambda>s. a < kspecem_writelog_data s \<or> wl_data_end s \<le> a),
       (if a = adr_wl_position k \<or> a = adr_writelog_enabled k then returnM ()
        else whenM (\<lambda>s. addr_slot s \<noteq> 0) (push_entry st a))]"

lemma align8_next [simp]: "align8 (align8 a + 8) = align8 a + 8"
  by (rule aligned_add_8) simp

text \<open>For an address that is not aligned the following granule is logged first, by a recursive
  call with an aligned address.\<close>

function kspecem_write_wl :: "('c, unit) kop \<Rightarrow> 'c kernel \<Rightarrow> site \<Rightarrow> addr \<Rightarrow> ('c, unit) kop" where
  "kspecem_write_wl rst k st a =
     thenM (if a \<noteq> align8 a then kspecem_write_wl rst k st (align8 a + 8) else returnM ())
      (write_wl_aligned rst k st (align8 a))"
  by pat_completeness auto

termination
  by (relation "measure (\<lambda>(rst, k, st, a). if align8 a = a then 0 else 1)") auto

declare kspecem_write_wl.simps [simp del]

definition kspecem_store :: "('c, unit) kop \<Rightarrow> 'c kernel \<Rightarrow> site \<Rightarrow> addr \<Rightarrow> ('c, unit) kop" where
  "kspecem_store rst k st a = kspecem_write_wl rst k st a"

text \<open>
  The loop of \<open>kspecem_memcpy\<close> with a bound on its iterations; that the bound is never
  reached is shown below, except when the end of the range lies in the last 8 bytes of the
  address space, where \<open>reg++\<close> wraps around.
\<close>

primrec memcpy_loop :: "('c, unit) kop \<Rightarrow> 'c kernel \<Rightarrow> site \<Rightarrow> nat \<Rightarrow> addr \<Rightarrow> addr \<Rightarrow> ('c, unit) kop" where
  "memcpy_loop rst k st 0 reg end = (if reg < end then faultM ''iterations'' else returnM ())"
| "memcpy_loop rst k st (Suc n) reg end =
     (if reg < end then thenM (kspecem_write_wl rst k st reg) (memcpy_loop rst k st n (reg + 8) end)
      else returnM ())"

definition kspecem_memcpy :: "('c, unit) kop \<Rightarrow> 'c kernel \<Rightarrow> site \<Rightarrow> addr \<Rightarrow> u64 \<Rightarrow> ('c, unit) kop" where
  "kspecem_memcpy rst k st a sz =
     memcpy_loop rst k st (unat sz div 8 + 2) (a AND NOT 3) (a + sz)"

section \<open>Logging granules\<close>

text \<open>The log is set up and has room for \<open>n\<close> more entries during a speculation.\<close>

definition log_ready :: "'c kstate \<Rightarrow> nat \<Rightarrow> bool" where
  "log_ready s n \<longleftrightarrow> kspecem_writelog_enabled s \<and> kspecem_in_speculative_emulation s
     \<and> kspecem_writelog_addrs s \<noteq> 0 \<and> kspecem_writelog_data s \<noteq> 0 \<and> kspecem_writelog_meta s \<noteq> 0
     \<and> unat (kspecem_writelog_addrs s) + unat WRITELOG_BYTES < 2 ^ 64
     \<and> unat (kspecem_writelog_data s) + unat WRITELOG_BYTES < 2 ^ 64
     \<and> unat (kspecem_wl_position s) + n \<le> unat (2 * WRITELOG_MAXLEN)"

text \<open>A granule that is not part of the runtime's own log.\<close>

definition loggable :: "'c kernel \<Rightarrow> 'c kstate \<Rightarrow> addr \<Rightarrow> bool" where
  "loggable k s g \<longleftrightarrow> (g < kspecem_writelog_addrs s \<or> wl_addrs_end s \<le> g)
     \<and> (g < kspecem_writelog_data s \<or> wl_data_end s \<le> g)
     \<and> g \<noteq> adr_wl_position k \<and> g \<noteq> adr_writelog_enabled k"

definition logged :: "site \<Rightarrow> addr \<Rightarrow> 'c kstate \<Rightarrow> 'c kstate" where
  "logged st g s = (let p = unat (kspecem_wl_position s) in
     s\<lparr>wl_addrs := (wl_addrs s)(p := g), wl_data := (wl_data s)(p := load64 (mem s) g),
       wl_meta := (wl_meta s)(p := ret_addr st), kspecem_wl_position := kspecem_wl_position s + 1\<rparr>)"

definition granules :: "addr \<Rightarrow> addr list" where
  "granules a = (if a = align8 a then [a] else [align8 a + 8, align8 a])"

lemma writelog_sizes [simp]:
  "unat WRITELOG_BYTES = 1048576" "unat (2 * WRITELOG_MAXLEN) = 131072"
  by (simp_all add: WRITELOG_BYTES_def WRITELOG_MAXLEN_def WRITELOG_GRANULARITY_def)

lemma slot_bounds:
  fixes p q :: addr
  assumes "p \<noteq> 0" and "unat p + 1048576 < 2 ^ 64" and "unat q < 131072"
  shows "p + 8 * q < p + 8 * (WRITELOG_MAXLEN * 2)" and "p + 8 * q \<noteq> 0"
proof -
  have u: "unat (p + 8 * q) = unat p + 8 * unat q" "unat (p + 8 * (WRITELOG_MAXLEN * 2)) = unat p + 1048576"
    using assms by (simp_all add: unat_word_ariths WRITELOG_MAXLEN_def)
  show "p + 8 * q < p + 8 * (WRITELOG_MAXLEN * 2)" using u assms(3) by (simp add: word_less_nat_alt)
  show "p + 8 * q \<noteq> 0" using u assms(1) by (metis add_is_0 unat_eq_zero)
qed

lemma write_wl_aligned_logs:
  assumes "log_ready s 1" and "loggable k s g"
  shows "write_wl_aligned rst k st g s = Ret () (logged st g s)"
proof -
  have p: "unat (kspecem_wl_position s) < 131072" using assms(1) by (simp add: log_ready_def)
  have b: "addr_slot s < wl_addrs_end s" "addr_slot s \<noteq> 0" "data_slot s < wl_data_end s"
    using assms(1) slot_bounds [OF _ _ p] by (simp_all add: log_ready_def addr_slot_def data_slot_def
        wl_addrs_end_def wl_data_end_def)
  have "push_entry st g s = Ret () (logged st g s)"
    using assms(1) p by (simp add: push_entry_def logged_def Let_def log_ready_def)
  with assms b show ?thesis
    by (simp add: write_wl_aligned_def run_simps thenM_apply lt_assert_ok whenM_apply log_ready_def loggable_def
        linorder_not_le [symmetric])
qed

lemma unat_position_Suc:
  "unat (kspecem_wl_position s) < 131072 \<Longrightarrow> unat (kspecem_wl_position s + 1) = Suc (unat (kspecem_wl_position s))"
  by (simp add: unat_word_ariths)

lemma log_ready_logged:
  "log_ready s (Suc n) \<Longrightarrow> log_ready (logged st g s) n"
  using unat_position_Suc [of s] by (simp add: log_ready_def logged_def Let_def)

lemma loggable_logged [simp]: "loggable k (logged st g s) = loggable k s"
  by (simp add: fun_eq_iff loggable_def logged_def Let_def wl_addrs_end_def wl_data_end_def)

lemma mem_logged [simp]: "mem (logged st g s) = mem s"
  by (simp add: logged_def Let_def)

lemma log_ready_mono: "log_ready s n \<Longrightarrow> n' \<le> n \<Longrightarrow> log_ready s n'"
  by (simp add: log_ready_def)

lemma wl_list_logged:
  assumes "log_ready s 1"
  shows "wl_list (logged st g s) = (g, load64 (mem s) g) # wl_list s"
proof -
  let ?p = "unat (kspecem_wl_position s)"
  have "?p < 131072" using assms by (simp add: log_ready_def)
  then have "unat (kspecem_wl_position (logged st g s)) = Suc ?p"
    by (simp add: logged_def Let_def unat_position_Suc)
  moreover have "log_entries (logged st g s) ?p = log_entries s ?p"
    by (rule log_entries_cong) (simp add: logged_def Let_def)
  ultimately show ?thesis by (simp add: wl_list_def) (simp add: logged_def Let_def)
qed

text \<open>Logging a list of granules, the first one first.\<close>

lemma fold_logged:
  assumes "log_ready s (length gs + n)"
  shows "log_ready (fold (logged st) gs s) n" and "mem (fold (logged st) gs s) = mem s"
    and "loggable k (fold (logged st) gs s) = loggable k s"
    and "wl_list (fold (logged st) gs s) = rev (map (\<lambda>g. (g, load64 (mem s) g)) gs) @ wl_list s"
  using assms
proof (induction gs arbitrary: s)
  case Nil
  { case 1 then show ?case by simp next case 2 then show ?case by simp
  next case 3 then show ?case by simp next case 4 then show ?case by simp }
next
  case (Cons g gs)
  { case 1 then show ?case using Cons.IH(1) by (simp add: log_ready_logged)
  next case 2 then show ?case using Cons.IH(2) by (simp add: log_ready_logged)
  next case 3 then show ?case using Cons.IH(3) by (simp add: log_ready_logged)
  next case 4
    then have "log_ready s 1" by (rule log_ready_mono) simp
    with 4 show ?case using Cons.IH(4) by (simp add: log_ready_logged wl_list_logged) }
qed

lemma logged_granules:
  assumes "log_ready s (length gs)"
  shows "fst ` set (wl_list (fold (logged st) gs s)) = set gs \<union> fst ` set (wl_list s)"
  using fold_logged(4) [of s gs 0] assms by (simp add: image_Un image_image)

text \<open>Logging changes nothing but the log.\<close>

definition log_of :: "'c kstate \<Rightarrow> 'c kstate \<Rightarrow> 'c kstate" where
  "log_of t s = s\<lparr>wl_addrs := wl_addrs t, wl_data := wl_data t, wl_meta := wl_meta t,
     kspecem_wl_position := kspecem_wl_position t\<rparr>"

lemma fold_logged_frame: "fold (logged st) gs s = log_of (fold (logged st) gs s) s"
proof (induction gs arbitrary: s)
  case Nil
  then show ?case by (simp add: log_of_def)
next
  case (Cons g gs)
  have "fold (logged st) gs (logged st g s) = log_of (fold (logged st) gs (logged st g s)) (logged st g s)"
    by (rule Cons.IH)
  then show ?case by (simp add: log_of_def) (simp add: logged_def Let_def)
qed

lemma kspecem_write_wl_logs:
  assumes "log_ready s (length (granules a))" and "\<forall>g \<in> set (granules a). loggable k s g"
  shows "kspecem_write_wl rst k st a s = Ret () (fold (logged st) (granules a) s)"
proof (cases "a = align8 a")
  case True
  then have "kspecem_write_wl rst k st a = write_wl_aligned rst k st a"
    by (subst kspecem_write_wl.simps) (simp add: run_simps)
  with assms True show ?thesis by (simp add: granules_def write_wl_aligned_logs)
next
  case False
  have r: "log_ready s 1" "log_ready (logged st (align8 a + 8) s) 1"
    using assms(1) False log_ready_mono [of s 2 1] log_ready_logged [of s 1]
    by (simp_all add: granules_def numeral_2_eq_2)
  have "kspecem_write_wl rst k st (align8 a + 8) = write_wl_aligned rst k st (align8 a + 8)"
    by (subst kspecem_write_wl.simps) (simp add: run_simps)
  then have "kspecem_write_wl rst k st a =
      thenM (write_wl_aligned rst k st (align8 a + 8)) (write_wl_aligned rst k st (align8 a))"
    using False by (subst kspecem_write_wl.simps) simp
  with assms False r show ?thesis by (simp add: granules_def thenM_apply write_wl_aligned_logs)
qed

section \<open>The log determines the memory of the checkpoint\<close>

text \<open>\<open>m0\<close> is the memory at the checkpoint: undoing the whole log gives it back.\<close>

definition log_inv :: "memory \<Rightarrow> 'c kstate \<Rightarrow> bool" where
  "log_inv m0 s \<longleftrightarrow> (\<forall>e \<in> set (wl_list s). align8 (fst e) = fst e) \<and> undo store64 (wl_list s) (mem s) = m0"

lemma log_inv_empty: "kspecem_wl_position s = 0 \<Longrightarrow> log_inv (mem s) s"
  by (simp add: log_inv_def wl_list_def)

lemma granules_aligned: "g \<in> set (granules a) \<Longrightarrow> align8 g = g"
  by (auto simp: granules_def split: if_splits)

lemma granules_cover: "unat (x - a) < 8 \<Longrightarrow> align8 x \<in> set (granules a)"
  using granules_of_8_bytes [of x a] by (auto simp: granules_def)

lemma log_inv_logged:
  assumes "log_inv m0 s" and "align8 g = g" and "log_ready s 1"
  shows "log_inv m0 (logged st g s)"
  using assms u64_log.undo_log_entry [of g "wl_list s" "mem s"]
  by (auto simp: log_inv_def wl_list_logged fun_eq_iff)

lemma log_inv_fold_logged:
  "log_inv m0 s \<Longrightarrow> \<forall>g \<in> set gs. align8 g = g \<Longrightarrow> log_ready s (length gs)
   \<Longrightarrow> log_inv m0 (fold (logged st) gs s)"
proof (induction gs arbitrary: s)
  case Nil
  then show ?case by simp
next
  case (Cons g gs)
  have "log_ready s 1" using Cons.prems(3) by (rule log_ready_mono) simp
  with Cons show ?case by (simp add: log_inv_logged log_ready_logged)
qed

text \<open>A write to logged granules keeps the invariant.\<close>

lemma log_inv_write:
  assumes "log_inv m0 s" and "\<And>x. m' x \<noteq> mem s x \<Longrightarrow> align8 x \<in> fst ` set (wl_list s)"
  shows "log_inv m0 (s\<lparr>mem := m'\<rparr>)"
proof -
  have "wl_list (s\<lparr>mem := m'\<rparr>) = wl_list s" by (simp add: wl_list_def)
  moreover have "undo store64 (wl_list s) m' x = undo store64 (wl_list s) (mem s) x" for x
    using assms by (intro u64_log.undo_write) (auto simp: log_inv_def)
  ultimately show ?thesis using assms(1) by (auto simp: log_inv_def fun_eq_iff)
qed

text \<open>
  C13. Logging before a store is enough to undo it: after \<open>kspecem_store\<close> at any address,
  aligned or not, the instrumented code may store up to eight bytes there and undoing the log
  still gives the memory of the checkpoint. The call itself only extends the log.
\<close>

theorem kspecem_store_covers_store:
  assumes "log_inv m0 s" and "log_ready s (length (granules a))"
    and "\<forall>g \<in> set (granules a). loggable k s g" and "length bs \<le> 8"
  shows "\<exists>t. kspecem_store rst k st a s = Ret () t \<and> t = log_of t s
    \<and> log_inv m0 (t\<lparr>mem := write_bytes (mem t) a bs\<rparr>)"
proof (intro exI conjI)
  let ?t = "fold (logged st) (granules a) s"
  show "kspecem_store rst k st a s = Ret () ?t"
    unfolding kspecem_store_def using assms(2,3) by (rule kspecem_write_wl_logs)
  show "?t = log_of ?t s" by (rule fold_logged_frame)
  have l: "fst ` set (wl_list ?t) = set (granules a) \<union> fst ` set (wl_list s)"
    using assms(2) by (rule logged_granules)
  have c: "align8 x \<in> set (granules a)" if "unat (x - a) < length bs" for x
    using that assms(4) by (intro granules_cover) simp
  show "log_inv m0 (?t\<lparr>mem := write_bytes (mem ?t) a bs\<rparr>)"
  proof (rule log_inv_write)
    show "log_inv m0 ?t" using assms(1,2) granules_aligned by (intro log_inv_fold_logged) auto
    show "align8 x \<in> fst ` set (wl_list ?t)" if "write_bytes (mem ?t) a bs x \<noteq> mem ?t x" for x
      using that c [of x] by (auto simp: write_bytes_def l split: if_splits)
  qed
qed

section \<open>Logging the target of a memcpy\<close>

primrec copy_regs :: "nat \<Rightarrow> addr \<Rightarrow> addr \<Rightarrow> addr list" where
  "copy_regs 0 reg end = []"
| "copy_regs (Suc n) reg end = (if reg < end then reg # copy_regs n (reg + 8) end else [])"

definition memcpy_granules :: "addr \<Rightarrow> u64 \<Rightarrow> addr list" where
  "memcpy_granules a sz = concat (map granules (copy_regs (unat sz div 8 + 2) (a AND NOT 3) (a + sz)))"

lemma unat_align4: "unat ((a :: u64) AND NOT 3) = 4 * (unat a div 4)"
proof -
  have "a AND NOT 3 = push_bit 2 (drop_bit 2 a)"
    unfolding mask_eq_exp_minus_1 [of 2, where 'a = "64 word", simplified, symmetric]
    by (rule bit_word_eqI) (auto simp: bit_simps le_iff_add not_less)
  moreover have "unat a div 4 * 4 < 18446744073709551616" using unat_less_64 [of a] by simp
  ultimately show ?thesis
    by (simp add: push_bit_eq_mult drop_bit_eq_div unat_word_ariths unat_div_distrib)
qed

lemma unat_next_reg:
  fixes reg :: addr
  assumes "reg < end" and "unat end + 8 \<le> 2 ^ 64"
  shows "unat (reg + 8) = unat reg + 8"
  using assms by (simp add: word_less_nat_alt unat_word_ariths)

lemma memcpy_loop_logs:
  assumes "unat end + 8 \<le> 2 ^ 64" and "unat end \<le> unat reg + 8 * n"
    and "log_ready s (length (concat (map granules (copy_regs n reg end))))"
    and "\<forall>g \<in> set (concat (map granules (copy_regs n reg end))). loggable k s g"
  shows "memcpy_loop rst k st n reg end s =
    Ret () (fold (logged st) (concat (map granules (copy_regs n reg end))) s)"
  using assms
proof (induction n arbitrary: reg s)
  case 0
  then show ?case by (simp add: word_less_nat_alt)
next
  case (Suc n)
  show ?case
  proof (cases "reg < end")
    case True
    let ?t = "fold (logged st) (granules reg) s" and ?gs = "concat (map granules (copy_regs n (reg + 8) end))"
    have all: "log_ready s (length (granules reg) + length ?gs)" using Suc.prems(3) True by simp
    have w: "kspecem_write_wl rst k st reg s = Ret () ?t"
      using log_ready_mono [OF all] Suc.prems(4) True by (intro kspecem_write_wl_logs) auto
    have "memcpy_loop rst k st n (reg + 8) end ?t = Ret () (fold (logged st) ?gs ?t)"
    proof (rule Suc.IH)
      show "unat end + 8 \<le> 2 ^ 64" by (rule Suc.prems(1))
      show "unat end \<le> unat (reg + 8) + 8 * n" using Suc.prems(1,2) True by (simp add: unat_next_reg)
      show "log_ready ?t (length ?gs)" by (rule fold_logged(1) [OF all])
      show "\<forall>g \<in> set ?gs. loggable k ?t g" using Suc.prems(4) True fold_logged(3) [OF all] by simp
    qed
    with w True show ?thesis by (simp add: thenM_apply)
  qed simp
qed

lemma copy_regs_cover:
  assumes "unat end + 8 \<le> 2 ^ 64" and "unat end \<le> unat reg + 8 * n" and "reg \<le> x" and "x < end"
  shows "\<exists>r \<in> set (copy_regs n reg end). unat (x - r) < 8"
  using assms
proof (induction n arbitrary: reg)
  case 0
  then show ?case by (simp add: word_less_nat_alt word_le_nat_alt)
next
  case (Suc n)
  then have less: "reg < end" by (meson le_less_trans)
  show ?case
  proof (cases "unat (x - reg) < 8")
    case False
    with Suc.prems(1,3) less have "reg + 8 \<le> x" by (simp add: word_le_nat_alt unat_sub unat_next_reg)
    moreover have "unat end \<le> unat (reg + 8) + 8 * n"
      using Suc.prems(1,2) less by (simp add: unat_next_reg)
    ultimately have "\<exists>r \<in> set (copy_regs n (reg + 8) end). unat (x - r) < 8"
      using Suc.IH Suc.prems(1,4) by blast
    then show ?thesis using less by auto
  qed (use less in auto)
qed

text \<open>The range of a copy that does not reach the end of the address space.\<close>

definition range_ok :: "addr \<Rightarrow> u64 \<Rightarrow> bool" where
  "range_ok a sz \<longleftrightarrow> unat a + unat sz + 8 \<le> 2 ^ 64"

lemma memcpy_bounds:
  assumes "range_ok a sz"
  shows "unat (a + sz) + 8 \<le> 2 ^ 64" and "unat (a + sz) \<le> unat (a AND NOT 3) + 8 * (unat sz div 8 + 2)"
    and "unat (x - a) < unat sz \<Longrightarrow> a AND NOT 3 \<le> x \<and> x < a + sz"
proof -
  have e: "unat (a + sz) = unat a + unat sz" using assms by (simp add: range_ok_def unat_word_ariths)
  then show "unat (a + sz) + 8 \<le> 2 ^ 64" using assms by (simp add: range_ok_def)
  have "unat a = 4 * (unat a div 4) + unat a mod 4" "unat sz = 8 * (unat sz div 8) + unat sz mod 8" by simp_all
  moreover have "unat a mod 4 < 4" "unat sz mod 8 < 8" by simp_all
  ultimately have r: "unat a \<le> unat (a AND NOT 3) + 3" "unat sz < 8 * (unat sz div 8) + 8" "unat (a AND NOT 3) \<le> unat a"
    unfolding unat_align4 by linarith+
  then show "unat (a + sz) \<le> unat (a AND NOT 3) + 8 * (unat sz div 8 + 2)" using e by simp
  assume x: "unat (x - a) < unat sz"
  define d where "d = x - a"
  have "unat d < unat sz" using x by (simp add: d_def)
  then have "unat (a + d) = unat a + unat d" using assms by (simp add: range_ok_def unat_word_ariths)
  then have "unat x = unat a + unat (x - a)" by (simp add: d_def)
  with x e r show "a AND NOT 3 \<le> x \<and> x < a + sz" by (simp add: word_le_nat_alt word_less_nat_alt)
qed

lemma kspecem_memcpy_logs:
  assumes "range_ok a sz" and "log_ready s (length (memcpy_granules a sz))"
    and "\<forall>g \<in> set (memcpy_granules a sz). loggable k s g"
  shows "kspecem_memcpy rst k st a sz s = Ret () (fold (logged st) (memcpy_granules a sz) s)"
  unfolding kspecem_memcpy_def memcpy_granules_def
  using memcpy_bounds(1,2) [OF assms(1)] assms(2,3) unfolding memcpy_granules_def
  by (rule memcpy_loop_logs)

lemma memcpy_granules_aligned: "g \<in> set (memcpy_granules a sz) \<Longrightarrow> align8 g = g"
  using granules_aligned by (auto simp: memcpy_granules_def)

lemma memcpy_granules_cover:
  assumes "range_ok a sz" and "unat (x - a) < unat sz"
  shows "align8 x \<in> set (memcpy_granules a sz)"
  using copy_regs_cover [OF memcpy_bounds(1,2) [OF assms(1)]] memcpy_bounds(3) [OF assms] granules_cover
  by (fastforce simp: memcpy_granules_def)

text \<open>
  C23. Logging before a \<open>memcpy\<close> is enough to undo it: for a range that does not reach the end of
  the address space, \<open>kspecem_memcpy\<close> terminates having logged every granule of the range,
  and whatever is then written to the range, undoing the log gives the memory of the checkpoint.
\<close>

theorem kspecem_memcpy_covers_range:
  assumes "log_inv m0 s" and "range_ok a sz" and "log_ready s (length (memcpy_granules a sz))"
    and "\<forall>g \<in> set (memcpy_granules a sz). loggable k s g" and "length bs = unat sz"
  shows "\<exists>t. kspecem_memcpy rst k st a sz s = Ret () t \<and> t = log_of t s
    \<and> log_inv m0 (t\<lparr>mem := write_bytes (mem t) a bs\<rparr>)"
proof (intro exI conjI)
  let ?t = "fold (logged st) (memcpy_granules a sz) s"
  show "kspecem_memcpy rst k st a sz s = Ret () ?t" using assms(2-4) by (rule kspecem_memcpy_logs)
  show "?t = log_of ?t s" by (rule fold_logged_frame)
  have l: "fst ` set (wl_list ?t) = set (memcpy_granules a sz) \<union> fst ` set (wl_list s)"
    using assms(3) by (rule logged_granules)
  show "log_inv m0 (?t\<lparr>mem := write_bytes (mem ?t) a bs\<rparr>)"
  proof (rule log_inv_write)
    show "log_inv m0 ?t" using assms(1,3) memcpy_granules_aligned by (intro log_inv_fold_logged) auto
    show "align8 x \<in> fst ` set (wl_list ?t)" if "write_bytes (mem ?t) a bs x \<noteq> mem ?t x" for x
      using that assms(5) memcpy_granules_cover [OF assms(2), of x]
      by (auto simp: write_bytes_def l split: if_splits)
  qed
qed

section \<open>A full log\<close>

lemma write_wl_aligned_full:
  assumes "log_ready s 0" and "kspecem_wl_position s = 2 * WRITELOG_MAXLEN"
    and "kspecem_restart k st 0 KSPECEM_RESTART_WRITELOG_FULL 0 0 0 s = Resume t"
  shows "write_wl_aligned rst k st g s = Resume t"
proof -
  have "addr_slot s = wl_addrs_end s"
    using assms(2) by (simp add: addr_slot_def wl_addrs_end_def)
  with assms show ?thesis
    by (simp add: write_wl_aligned_def run_simps thenM_apply lt_assert_ok whenM_apply ignoreM_apply log_ready_def)
qed

text \<open>
  C24. A store hook that finds the log full never writes past it: the speculation is rolled
  back and control goes back to the checkpoint, for an address of any alignment.
\<close>

theorem kspecem_store_full_restarts:
  assumes "log_ready s 0" and "kspecem_wl_position s = 2 * WRITELOG_MAXLEN"
    and "ends_speculation KSPECEM_RESTART_WRITELOG_FULL s" and "stats_ready s" and "reports_ok k s"
    and "rollback_ok k st (restart_frame st) 0 s"
  shows "\<exists>t. kspecem_store rst k st a s = Resume t \<and> \<not> kspecem_in_speculative_emulation t
    \<and> mem t = store64 (rollback_mem st (restart_frame st) 0 s)
        (kspecem_registers s RSP - 8) (kspecem_registers s EFLAGS)"
proof -
  obtain t where t: "kspecem_restart k st 0 KSPECEM_RESTART_WRITELOG_FULL 0 0 0 s = Resume t"
    "\<not> kspecem_in_speculative_emulation t"
    "mem t = store64 (rollback_mem st (restart_frame st) 0 s) (kspecem_registers s RSP - 8) (kspecem_registers s EFLAGS)"
    using restart_resumes [OF assms(3-6), of 0 0] by blast
  have w: "write_wl_aligned rst k st g s = Resume t" for g
    using assms(1,2) t(1) by (rule write_wl_aligned_full)
  have "kspecem_write_wl rst k st (align8 a + 8) s = Resume t"
    by (subst kspecem_write_wl.simps) (simp add: run_simps w)
  then have "kspecem_store rst k st a s = Resume t"
    unfolding kspecem_store_def by (subst kspecem_write_wl.simps) (simp add: thenM_apply w)
  with t show ?thesis by blast
qed

section \<open>Examples\<close>

lemma demo_log:
  "log_ready demo_spec 1000" "log_inv (undo store64 (wl_list demo_spec) (mem demo_spec)) demo_spec"
proof -
  show "log_ready demo_spec 1000" by (simp add: log_ready_def demo_spec_def)
  have "align8 0x2000 = 0x2000" by (simp add: align8_def)
  then show "log_inv (undo store64 (wl_list demo_spec) (mem demo_spec)) demo_spec"
    by (simp add: log_inv_def demo_spec_wl_list)
qed

lemma demo_loggable: "g \<in> {0x3000, 0x3008, 0x3010} \<Longrightarrow> loggable plain_kernel demo_spec g"
  by (auto simp: loggable_def demo_spec_def wl_addrs_end_def wl_data_end_def WRITELOG_MAXLEN_def plain_kernel_def)

theorem kspecem_store_covers_store_witness:
  "\<exists>t. kspecem_store (returnM ()) plain_kernel demo_site 0x3001 demo_spec = Ret () t
    \<and> log_inv (undo store64 [(0x2000, 0)] (\<lambda>_. 1))
        (t\<lparr>mem := write_bytes (mem t) 0x3001 [1, 2, 3, 4, 5, 6, 7, 8]\<rparr>)"
proof -
  have g: "granules 0x3001 = [0x3008, 0x3000]" by (simp add: granules_def align8_def)
  have m: "undo store64 (wl_list demo_spec) (mem demo_spec) = undo store64 [(0x2000, 0)] (\<lambda>_. 1)"
    unfolding demo_spec_wl_list by (simp add: demo_spec_def boot_state_def)
  have r: "log_ready demo_spec (length (granules 0x3001))" using demo_log(1) by (rule log_ready_mono) (simp add: g)
  have l: "\<forall>g \<in> set (granules 0x3001). loggable plain_kernel demo_spec g" by (simp add: g demo_loggable)
  show ?thesis
    using kspecem_store_covers_store [OF demo_log(2) r l, of "[1, 2, 3, 4, 5, 6, 7, 8]" "returnM ()" demo_site]
    unfolding m by auto
qed

theorem kspecem_memcpy_covers_range_witness:
  "\<exists>t. kspecem_memcpy (returnM ()) plain_kernel demo_site 0x3002 16 demo_spec = Ret () t
    \<and> log_inv (undo store64 [(0x2000, 0)] (\<lambda>_. 1))
        (t\<lparr>mem := write_bytes (mem t) 0x3002 (replicate 16 9)\<rparr>)"
proof -
  have n: "unat (16 :: u64) div 8 + 2 = Suc (Suc (Suc (Suc 0)))" by simp
  have "granules 0x3000 = [0x3000]" "granules 0x3008 = [0x3008]" "granules 0x3010 = [0x3010]"
    by (simp_all add: granules_def align8_def)
  then have g: "memcpy_granules 0x3002 16 = [0x3000, 0x3008, 0x3010]"
    unfolding memcpy_granules_def n by simp
  have m: "undo store64 (wl_list demo_spec) (mem demo_spec) = undo store64 [(0x2000, 0)] (\<lambda>_. 1)"
    unfolding demo_spec_wl_list by (simp add: demo_spec_def boot_state_def)
  have o: "range_ok 0x3002 16" by (simp add: range_ok_def)
  have r: "log_ready demo_spec (length (memcpy_granules 0x3002 16))"
    using demo_log(1) by (rule log_ready_mono) (simp add: g)
  have l: "\<forall>g \<in> set (memcpy_granules 0x3002 16). loggable plain_kernel demo_spec g" by (simp add: g demo_loggable)
  show ?thesis
    using kspecem_memcpy_covers_range [OF demo_log(2) o r l, of "replicate 16 9" "returnM ()" demo_site]
    unfolding m by auto
qed

definition full_log :: "machine kstate" where
  "full_log = demo_spec\<lparr>kspecem_wl_position := 2 * WRITELOG_MAXLEN\<rparr>"

theorem kspecem_store_full_restarts_witness:
  "\<exists>t. kspecem_store (returnM ()) plain_kernel demo_site 0x3001 full_log = Resume t
    \<and> \<not> kspecem_in_speculative_emulation t"
proof -
  have e: "e \<in> set (log_entries full_log n) \<Longrightarrow> fst e = 0x2000" for e n
    by (induction n) (auto simp: full_log_def demo_spec_def)
  have "restorable plain_kernel demo_site full_log = restorable plain_kernel demo_site demo_spec"
    by (simp add: fun_eq_iff restorable_def kspecem_can_restore_def full_log_def)
  then have "rollback_ok plain_kernel demo_site (restart_frame demo_site) 0 full_log"
    using demo_spec_ok(4) e demo_spec_wl_list
    by (auto simp: rollback_ok_def wl_list_def full_log_def demo_site_def skip_entry_def)
  moreover have "log_ready full_log 0" by (simp add: log_ready_def full_log_def demo_spec_def)
  moreover have "kspecem_wl_position full_log = 2 * WRITELOG_MAXLEN" by (simp add: full_log_def)
  moreover have "ends_speculation KSPECEM_RESTART_WRITELOG_FULL full_log" "stats_ready full_log"
    "reports_ok plain_kernel full_log"
    using demo_spec_ok by (simp_all add: ends_speculation_def full_log_def stats_ready_def reports_ok_def map_ready_def)
  ultimately show ?thesis
    by (metis kspecem_store_full_restarts)
qed

end
