(* ===== verification/KInterrupt.thy ===== *)
theory KInterrupt
  imports KWritelog
begin

text \<open>
  Interrupts and exceptions that arrive during a speculation
  (\<open>static/kspecem/kspecem_interrupt.c\<close>). The interrupted context's \<open>pt_regs\<close> (at address
  \<open>arg\<close>) are overwritten with the registers of the checkpoint, the speculation is rolled back
  without jumping, and the handler's own \<open>iret\<close> then continues at the checkpoint.
\<close>

section \<open>Definitions\<close>

definition kspecem_interrupt_timer ::
  "('c, unit) kop \<Rightarrow> 'c kernel \<Rightarrow> site \<Rightarrow> addr \<Rightarrow> addr \<Rightarrow> ('c, unit) kop" where
  "kspecem_interrupt_timer rst k st arg frameaddr =
     seqM
      [modifyM (\<lambda>s. s\<lparr>mem := copy_registers interrupt_regs (kspecem_registers s) arg (mem s)\<rparr>),
       ignoreM (kspecem_restart k st 1 KSPECEM_RESTART_TIMER 0 frameaddr arg),
       lt_assert rst ''kspecem_interrupt.c'' ''70'' ''kspecem_regs->ip == regs->ip''
         (\<lambda>s. kspecem_registers s RIP = load64 (mem s) (arg + reg_offset RIP))]"

definition kspecem_interrupt_exception ::
  "('c, unit) kop \<Rightarrow> 'c kernel \<Rightarrow> site \<Rightarrow> addr \<Rightarrow> addr \<Rightarrow> int \<Rightarrow> ('c, unit) kop" where
  "kspecem_interrupt_exception rst k st arg frameaddr exception_type =
     seqM
      [modifyM (\<lambda>s. s\<lparr>mem := copy_registers interrupt_regs (kspecem_registers s) arg (mem s)\<rparr>),
       ignoreM (kspecem_restart k st 1
         (if exception_type = 1 then KSPECEM_RESTART_PAGE_FAULT else KSPECEM_RESTART_EXCEPTION)
         0 frameaddr arg),
       lt_assert rst ''kspecem_interrupt.c'' ''140'' ''kspecem_regs->ip == regs->ip''
         (\<lambda>s. kspecem_registers s RIP = load64 (mem s) (arg + reg_offset RIP))]"

section \<open>Rolling back around the interrupted registers\<close>

text \<open>The \<open>pt_regs\<close> of the interrupted context: 8-byte aligned, inside the address space, and not
  in the stack frame saved at the checkpoint.\<close>

definition regs_ok :: "addr \<Rightarrow> 'c kstate \<Rightarrow> bool" where
  "regs_ok regs s \<longleftrightarrow> regs \<noteq> 0 \<and> align8 regs = regs \<and> unat regs + 168 < 2 ^ 64
     \<and> (\<forall>x. x - regs < SIZEOF_PTREGS \<longrightarrow>
          \<not> unat (x - (kspecem_wl_stack_base_address s - kspecem_wl_stack_len s)) < unat (kspecem_wl_stack_len s))"

lemma in_regs_skip:
  assumes "align8 regs = regs" and "unat regs + 168 < 2 ^ 64" and "x - regs < SIZEOF_PTREGS" and "regs \<noteq> 0"
  shows "skip_entry st fa regs (align8 x)"
proof -
  define d where "d = x - regs"
  have d: "unat d < 168" using assms(3) by (simp add: d_def SIZEOF_PTREGS_def word_less_nat_alt)
  have "unat (regs + d) = unat regs + unat d" using assms(2) d by (simp add: unat_word_ariths)
  then have x: "unat x = unat regs + unat d" by (simp add: d_def)
  have e: "unat (regs + SIZEOF_PTREGS) = unat regs + 168"
    using assms(2) by (simp add: SIZEOF_PTREGS_def unat_word_ariths)
  have "unat regs mod 8 = 0" using assms(1) by (simp add: aligned_unat)
  then have "unat regs \<le> 8 * (unat x div 8)" unfolding x by presburger
  moreover have "8 * (unat x div 8) < unat regs + 168" using x d by simp
  ultimately show ?thesis
    using assms(4) e by (simp add: skip_entry_def word_le_nat_alt word_less_nat_alt unat_align8)
qed

lemma rollback_mem_in_regs:
  assumes "regs_ok regs s" and "\<forall>e \<in> set (wl_list s). align8 (fst e) = fst e" and "x - regs < SIZEOF_PTREGS"
  shows "rollback_mem st fa regs s x = mem s x"
  using assms in_regs_skip [of regs x st fa] u64_log.undo_filter [OF assms(2), of "\<lambda>a. \<not> skip_entry st fa regs a"]
  by (simp add: rollback_mem_def memcpy_to_def regs_ok_def)

lemma rollback_mem_outside:
  assumes "\<forall>e \<in> set (wl_list s). align8 (fst e) = fst e" and "m x = mem s x"
  shows "rollback_mem st fa regs (s\<lparr>mem := m\<rparr>) x = rollback_mem st fa regs s x"
proof -
  have w: "wl_list (s\<lparr>mem := m\<rparr>) = wl_list s" by (simp add: wl_list_def)
  have "undo store64 (filter (\<lambda>e. \<not> skip_entry st fa regs (fst e)) (wl_list s)) m x
      = undo store64 (filter (\<lambda>e. \<not> skip_entry st fa regs (fst e)) (wl_list s)) (mem s) x"
    using assms by (intro u64_log.undo_cong) auto
  then show ?thesis unfolding rollback_mem_def w by (simp add: memcpy_to_def)
qed

lemma rollback_ok_mem: "rollback_ok k st fa regs (s\<lparr>mem := m\<rparr>) = rollback_ok k st fa regs s"
proof -
  have "wl_list (s\<lparr>mem := m\<rparr>) = wl_list s" by (simp add: wl_list_def)
  then show ?thesis by (simp add: rollback_ok_def restorable_def kspecem_can_restore_def)
qed

text \<open>The interrupt handlers up to their final assertion.\<close>

lemma interrupt_restart:
  assumes "ends_speculation ty s" and "stats_ready s" and "reports_ok k s"
    and "rollback_ok k st (frameaddr + 8) regs s" and "regs_ok regs s"
    and "\<forall>e \<in> set (wl_list s). align8 (fst e) = fst e"
  defines "s1 \<equiv> s\<lparr>mem := copy_registers interrupt_regs (kspecem_registers s) regs (mem s)\<rparr>"
  obtains t where "kspecem_restart k st 1 ty 0 frameaddr regs s1 = Ret 0 t"
    and "\<forall>r \<in> set interrupt_regs. load64 (mem t) (regs + reg_offset r) = kspecem_registers s r"
    and "\<And>x. SIZEOF_PTREGS \<le> x - regs \<Longrightarrow> mem t x = rollback_mem st (frameaddr + 8) regs s x"
    and "kspecem_registers t = kspecem_registers s" and "\<not> kspecem_in_speculative_emulation t"
    and "\<not> kspecem_writelog_enabled t" and "kspecem_wl_position t = 0" and "kspecem_is_in_rt t = kspecem_is_in_rt s"
proof -
  have fa: "stack_top st 1 frameaddr = frameaddr + 8" by (simp add: stack_top_def)
  have w: "wl_list s1 = wl_list s" by (simp add: s1_def wl_list_def)
  have "ends_speculation ty s1" "stats_ready s1" "reports_ok k s1" "rollback_ok k st (stack_top st 1 frameaddr) regs s1"
    using assms(1-4) rollback_ok_mem [where s = s]
    unfolding fa s1_def by (simp_all add: ends_speculation_def stats_ready_def reports_ok_def map_ready_def)
  from restart_rolls_back [OF this, of 0] obtain a b c l m where
    r: "kspecem_restart k st 1 ty 0 frameaddr regs s1 = restart_end 1
      (let t = with_stats a b c (rolled_back st (frameaddr + 8) regs s1) in if reports_at_restart ty then cleared l m t else t)"
    unfolding fa by metis
  define t where "t = (let t = with_stats a b c (rolled_back st (frameaddr + 8) regs s1) in
      if reports_at_restart ty then cleared l m t else t)"
  have fields: "mem t = rollback_mem st (frameaddr + 8) regs s1" "kspecem_registers t = kspecem_registers s"
    "\<not> kspecem_in_speculative_emulation t" "\<not> kspecem_writelog_enabled t" "kspecem_wl_position t = 0"
    "kspecem_is_in_rt t = kspecem_is_in_rt s"
    by (simp_all add: t_def with_stats_def rolled_back_def cleared_def s1_def Let_def)
  have al: "\<forall>e \<in> set (wl_list s1). align8 (fst e) = fst e" using assms(6) w by simp
  have ro: "regs_ok regs s1" using assms(5) by (simp add: regs_ok_def s1_def)
  have regs: "load64 (mem t) (regs + reg_offset r) = kspecem_registers s r" if "r \<in> set interrupt_regs" for r
  proof -
    have "load64 (mem t) (regs + reg_offset r) = load64 (mem s1) (regs + reg_offset r)"
    proof (rule load64_cong)
      fix x assume "unat (x - (regs + reg_offset r)) < 8"
      then have "x - regs < SIZEOF_PTREGS" using slot_inside [of x regs r] by (meson not_le)
      then show "mem t x = mem s1 x" unfolding fields by (rule rollback_mem_in_regs [OF ro al])
    qed
    also have "\<dots> = kspecem_registers s r" using that by (simp add: s1_def copy_registers_read)
    finally show ?thesis .
  qed
  have out: "mem t x = rollback_mem st (frameaddr + 8) regs s x" if "SIZEOF_PTREGS \<le> x - regs" for x
    unfolding fields s1_def using copy_registers_outside [OF that] assms(6) by (rule_tac rollback_mem_outside) auto
  have "kspecem_restart k st 1 ty 0 frameaddr regs s1 = Ret 0 t"
    using r by (simp add: t_def restart_end_def)
  then show thesis using regs out fields(2-) by (intro that [of t]) auto
qed

text \<open>
  C29. A timer interrupt during a speculation continues at the checkpoint: the handler returns, the
  interrupted context's saved registers are those of the checkpoint (so the assertion on the
  instruction pointer holds), the speculation is over, and the rest of memory is rolled back.
\<close>

theorem kspecem_interrupt_timer_to_checkpoint:
  assumes "ends_speculation KSPECEM_RESTART_TIMER s" and "stats_ready s" and "reports_ok k s"
    and "rollback_ok k st (frameaddr + 8) regs s" and "regs_ok regs s"
    and "\<forall>e \<in> set (wl_list s). align8 (fst e) = fst e"
  shows "\<exists>t. kspecem_interrupt_timer rst k st regs frameaddr s = Ret () t
    \<and> (\<forall>r \<in> set interrupt_regs. load64 (mem t) (regs + reg_offset r) = kspecem_registers s r)
    \<and> (\<forall>x. SIZEOF_PTREGS \<le> x - regs \<longrightarrow> mem t x = rollback_mem st (frameaddr + 8) regs s x)
    \<and> \<not> kspecem_in_speculative_emulation t \<and> \<not> kspecem_writelog_enabled t \<and> kspecem_wl_position t = 0"
proof -
  obtain t where t: "kspecem_restart k st 1 KSPECEM_RESTART_TIMER 0 frameaddr regs
      (s\<lparr>mem := copy_registers interrupt_regs (kspecem_registers s) regs (mem s)\<rparr>) = Ret 0 t"
    "\<forall>r \<in> set interrupt_regs. load64 (mem t) (regs + reg_offset r) = kspecem_registers s r"
    "\<And>x. SIZEOF_PTREGS \<le> x - regs \<Longrightarrow> mem t x = rollback_mem st (frameaddr + 8) regs s x"
    "kspecem_registers t = kspecem_registers s" "\<not> kspecem_in_speculative_emulation t"
    "\<not> kspecem_writelog_enabled t" "kspecem_wl_position t = 0"
    using interrupt_restart [OF assms] by metis
  have "kspecem_registers t RIP = load64 (mem t) (regs + reg_offset RIP)"
    using t(2,4) by (simp add: interrupt_regs_def)
  then have "kspecem_interrupt_timer rst k st regs frameaddr s = Ret () t"
    using t(1) by (simp add: kspecem_interrupt_timer_def then_modify thenM_apply ignoreM_apply lt_assert_ok)
  with t show ?thesis by blast
qed

lemma demo_interrupt_ok:
  "rollback_ok plain_kernel demo_site (0x7ef8 + 8) 0x6000 demo_spec" "regs_ok 0x6000 demo_spec"
  "\<forall>e \<in> set (wl_list demo_spec). align8 (fst e) = fst e"
proof -
  have "restorable plain_kernel demo_site demo_spec 0x2000"
    using demo_spec_ok(4) by (simp add: rollback_ok_def demo_spec_wl_list skip_entry_def demo_site_def)
  then show "rollback_ok plain_kernel demo_site (0x7ef8 + 8) 0x6000 demo_spec"
    unfolding rollback_ok_def demo_spec_wl_list by (simp add: demo_spec_def demo_site_def)
  show "\<forall>e \<in> set (wl_list demo_spec). align8 (fst e) = fst e"
    unfolding demo_spec_wl_list by (simp add: align8_def)
  have "\<not> unat (x - 0x8080) < 128" if "x - 0x6000 < (0xa8 :: u64)" for x :: u64
    by (rule ranges_disjoint [where a = "0x6000" and n = 168]) (use that in \<open>simp_all add: word_less_nat_alt\<close>)
  then show "regs_ok 0x6000 demo_spec"
    by (simp add: regs_ok_def demo_spec_def align8_def SIZEOF_PTREGS_def)
qed

theorem kspecem_interrupt_timer_to_checkpoint_witness:
  "\<exists>t. kspecem_interrupt_timer (returnM ()) plain_kernel demo_site 0x6000 0x7ef8
      (demo_spec\<lparr>kspecem_registers := (\<lambda>_. 0x42)\<rparr>) = Ret () t
    \<and> load64 (mem t) (0x6000 + reg_offset RIP) = 0x42 \<and> \<not> kspecem_in_speculative_emulation t"
proof -
  let ?s = "demo_spec\<lparr>kspecem_registers := (\<lambda>_. 0x42)\<rparr>"
  have v: "log_view ?s = log_view demo_spec" by (simp add: log_view_def)
  have "ends_speculation KSPECEM_RESTART_TIMER ?s" "stats_ready ?s" "reports_ok plain_kernel ?s"
    using demo_spec_ok by (simp_all add: ends_speculation_def stats_ready_def reports_ok_def map_ready_def)
  moreover have "rollback_ok plain_kernel demo_site (0x7ef8 + 8) 0x6000 ?s" "regs_ok 0x6000 ?s"
    "\<forall>e \<in> set (wl_list ?s). align8 (fst e) = fst e"
    using demo_interrupt_ok by (simp_all only: rollback_cong [OF v]) (simp add: regs_ok_def)
  ultimately obtain t where t: "kspecem_interrupt_timer (returnM ()) plain_kernel demo_site 0x6000 0x7ef8 ?s = Ret () t"
    "\<forall>r \<in> set interrupt_regs. load64 (mem t) (0x6000 + reg_offset r) = kspecem_registers ?s r"
    "\<not> kspecem_in_speculative_emulation t"
    using kspecem_interrupt_timer_to_checkpoint [of ?s plain_kernel demo_site "0x7ef8" "0x6000" "returnM ()"] by blast
  have "RIP \<in> set interrupt_regs" by (simp add: interrupt_regs_def)
  with t(2) have "load64 (mem t) (0x6000 + reg_offset RIP) = 0x42" by simp
  with t show ?thesis by blast
qed



end
