(* ===== verification/KInterface.thy ===== *)
theory KInterface
  imports KInterrupt
begin

text \<open>
  The hooks the instrumented kernel calls (\<open>static/kspecem/kspecem_interface.c\<close> and the
  macros of \<open>include/kspecem_interface.h\<close>, \<open>include/kspecem_kdf.h\<close>), with the page fault
  checker (\<open>kspecem_pf_checker.c\<close>) and the weak defaults of \<open>kspecem_kdf.c\<close>.

  A hook takes two sites: \<open>st\<close> for a restart it makes itself, \<open>sta\<close> for the one a failed
  assertion makes through \<open>kspecem_panic\<close>. One \<open>sta\<close> is enough: a restart made by an
  assertion does not return (\<open>kspecem_assertion_in_speculation_panics\<close>).
\<close>

section \<open>Entering and leaving the runtime\<close>

definition kspecem_set_rt :: "('c, unit) kop" where
  "kspecem_set_rt = modifyM (\<lambda>s. s\<lparr>kspecem_is_in_rt := True\<rparr>)"

definition kspecem_unset_rt :: "('c, unit) kop" where
  "kspecem_unset_rt = modifyM (\<lambda>s. s\<lparr>kspecem_is_in_rt := False\<rparr>)"

text \<open>The macros that return early, given what follows them.\<close>

definition CHECK_KSPECEM_INIT :: "'a \<Rightarrow> ('c, 'a) kop \<Rightarrow> ('c, 'a) kop" where
  "CHECK_KSPECEM_INIT default_ret m = ifM (\<lambda>s. \<not> kspecem_init_done s) (returnM default_ret) m"

definition CHECK_KSPECEM_RT :: "'a \<Rightarrow> ('c, 'a) kop \<Rightarrow> ('c, 'a) kop" where
  "CHECK_KSPECEM_RT default_ret m =
     ifM (\<lambda>s. \<not> kspecem_init_done s \<or> kspecem_is_in_rt s) (returnM default_ret) m"

definition CHECK_KDFINIT_RT :: "'a \<Rightarrow> ('c, 'a) kop \<Rightarrow> ('c, 'a) kop" where
  "CHECK_KDFINIT_RT default_ret m =
     ifM (\<lambda>s. kdfinit_is_init_done s \<and> kdfinit_is_in_rt s) (returnM default_ret) m"

definition CHECK_KDFSAN_RT :: "'a \<Rightarrow> ('c, 'a) kop \<Rightarrow> ('c, 'a) kop" where
  "CHECK_KDFSAN_RT default_ret m =
     ifM (\<lambda>s. kdf_is_init_done s \<and> kdf_is_in_rt s) (returnM default_ret) m"

text \<open>The result of entering is the value of \<open>__irq_flags\<close>.\<close>

definition ENTER_KSPECEM_NONMI_RT :: "'c kernel \<Rightarrow> ('c, u64) kop" where
  "ENTER_KSPECEM_NONMI_RT k =
     thenM kspecem_set_rt
      (thenM (modifyM (\<lambda>s. s\<lparr>cpu := preempt_disable k (cpu s)\<rparr>))
        (bindM (getM (\<lambda>s. fst (local_irq_save k (cpu s)))) (\<lambda>flags.
          thenM (modifyM (\<lambda>s. s\<lparr>cpu := snd (local_irq_save k (cpu s))\<rparr>)) (returnM flags))))"

definition ENTER_KSPECEM_RT :: "'c kernel \<Rightarrow> ('c, u64) kop" where
  "ENTER_KSPECEM_RT k =
     bindM (ENTER_KSPECEM_NONMI_RT k) (\<lambda>flags.
       thenM (modifyM (\<lambda>s. s\<lparr>cpu := stop_nmi k (cpu s)\<rparr>)) (returnM flags))"

definition LEAVE_KSPECEM_RT :: "('c, unit) kop \<Rightarrow> 'c kernel \<Rightarrow> string \<Rightarrow> string \<Rightarrow> u64 \<Rightarrow> ('c, unit) kop" where
  "LEAVE_KSPECEM_RT rst k file line irq_flags =
     seqM
      [lt_assert rst file line ''irqs_disabled()'' (\<lambda>s. irqs_disabled k (cpu s)),
       modifyM (\<lambda>s. s\<lparr>cpu := restart_nmi k (cpu s)\<rparr>),
       modifyM (\<lambda>s. s\<lparr>cpu := local_irq_restore k irq_flags (cpu s)\<rparr>),
       modifyM (\<lambda>s. s\<lparr>cpu := preempt_enable k (cpu s)\<rparr>),
       kspecem_unset_rt]"

definition LEAVE_KSPECEM_NONMI_RT :: "('c, unit) kop \<Rightarrow> 'c kernel \<Rightarrow> string \<Rightarrow> string \<Rightarrow> u64 \<Rightarrow> ('c, unit) kop" where
  "LEAVE_KSPECEM_NONMI_RT rst k file line irq_flags =
     seqM
      [lt_assert rst file line ''irqs_disabled()'' (\<lambda>s. irqs_disabled k (cpu s)),
       modifyM (\<lambda>s. s\<lparr>cpu := local_irq_restore k irq_flags (cpu s)\<rparr>),
       modifyM (\<lambda>s. s\<lparr>cpu := preempt_enable k (cpu s)\<rparr>),
       kspecem_unset_rt]"

section \<open>The restart hook\<close>

text \<open>As for \<open>kspecem_restart\<close>, the call an assertion would make is an argument first, and
  shown below not to be made.\<close>

definition kspecem_hook_restart_with ::
  "('c, unit) kop \<Rightarrow> 'c kernel \<Rightarrow> site \<Rightarrow> u64 \<Rightarrow> int \<Rightarrow> u64 \<Rightarrow> ('c, int) kop" where
  "kspecem_hook_restart_with rst k st arg restart_type call_arg =
     CHECK_KSPECEM_INIT 0
      (bindM (ENTER_KSPECEM_RT k) (\<lambda>flags.
        bindM (kspecem_restart k st arg restart_type call_arg 0 0) (\<lambda>ret.
          thenM (LEAVE_KSPECEM_RT rst k ''kspecem_interface.c'' ''102'' flags) (returnM ret))))"

definition kspecem_hook_restart :: "'c kernel \<Rightarrow> site \<Rightarrow> u64 \<Rightarrow> int \<Rightarrow> u64 \<Rightarrow> ('c, int) kop" where
  "kspecem_hook_restart k st arg restart_type call_arg =
     kspecem_hook_restart_with (faultM ''re-entered'') k st arg restart_type call_arg"

text \<open>The call in \<open>kspecem_panic\<close>.\<close>

definition assert_restart :: "'c kernel \<Rightarrow> site \<Rightarrow> ('c, unit) kop" where
  "assert_restart k sta = ignoreM (kspecem_hook_restart k sta 0 0xffff 0)"

section \<open>The other hooks\<close>

definition kspecem_hook_check_spec_length :: "'c kernel \<Rightarrow> site \<Rightarrow> site \<Rightarrow> u32 \<Rightarrow> ('c, unit) kop" where
  "kspecem_hook_check_spec_length k st sta bb_inst_count =
     whenM kspecem_in_speculative_emulation
      (CHECK_KSPECEM_RT () (CHECK_KDFINIT_RT () (CHECK_KDFSAN_RT ()
        (thenM (modifyM (\<lambda>s. s\<lparr>kspecem_speculative_instr_count :=
             kspecem_speculative_instr_count s + bb_inst_count\<rparr>))
          (whenM (\<lambda>s. kspecem_max_speculative_instructions s \<le> kspecem_speculative_instr_count s)
            (bindM (ENTER_KSPECEM_RT k) (\<lambda>flags.
              seqM [ignoreM (kspecem_restart k st 0 KSPECEM_RESTART_LIMIT_SPEC 0 0 0),
                    lt_panic ''kspecem_interface.c'' ''36'' ''should not return!'',
                    LEAVE_KSPECEM_RT (assert_restart k sta) k ''kspecem_interface.c'' ''37'' flags])))))))"

definition kspecem_hook_panic_info :: "('c, unit) kop" where
  "kspecem_hook_panic_info = kspecem_panic_info"

definition print_restart_statistics :: "('c, unit) kop" where
  "print_restart_statistics s =
     (case kspecem_print_restart_statistics (kspecem_total_statistics s) (inlineasm s) of
        None \<Rightarrow> Fault ''kspecem_total_statistics'' s
      | Some (counters, inl) \<Rightarrow> Ret () (s\<lparr>klog := klog s @ [Restart_Statistics counters]
          @ (case inl of None \<Rightarrow> [] | Some (es, full) \<Rightarrow> [Inlineasm_Statistics es full])\<rparr>))"

definition kspecem_hook_print_restart_statistics :: "'c kernel \<Rightarrow> site \<Rightarrow> ('c, unit) kop" where
  "kspecem_hook_print_restart_statistics k sta =
     CHECK_KSPECEM_RT ()
      (bindM (ENTER_KSPECEM_RT k) (\<lambda>flags.
        seqM [print_restart_statistics, LEAVE_KSPECEM_RT (assert_restart k sta) k ''kspecem_interface.c'' ''50'' flags]))"

text \<open>The arguments \<open>func\<close> and \<open>ret_addr\<close> of the C function are not used.\<close>

definition kspecem_hook_check_call_depth :: "'c kernel \<Rightarrow> site \<Rightarrow> site \<Rightarrow> ('c, unit) kop" where
  "kspecem_hook_check_call_depth k st sta =
     CHECK_KSPECEM_RT ()
      (whenM kspecem_writelog_enabled
        (seqM
          [add_spec_statistics KSPECEM_FUNC_CHECK_CALL_DEPTH 0 0 0 (ret_addr st),
           modifyM (\<lambda>s. s\<lparr>kspecem_spec_call_depth := kspecem_spec_call_depth s + 1\<rparr>),
           whenM (\<lambda>s. kspecem_max_call_depth s \<le> kspecem_spec_call_depth s)
            (bindM (ENTER_KSPECEM_RT k) (\<lambda>flags.
              seqM [ignoreM (kspecem_restart k st 0 KSPECEM_RESTART_CALL_DEPTH 0 0 0),
                    lt_panic ''kspecem_interface.c'' ''62'' ''should not return!'',
                    LEAVE_KSPECEM_RT (assert_restart k sta) k ''kspecem_interface.c'' ''63'' flags]))]))"

definition is_whitelist_task :: "'c kernel \<Rightarrow> ('c, bool) kop" where
  "is_whitelist_task k s =
     (case kspecem_is_whitelist_task (kspecem_whitelist_type s) (kspecem_syscall_get_nr k (cpu s))
             (current_comm k (cpu s)) of
        Inl e \<Rightarrow> Fault ''current->comm'' s
      | Inr b \<Rightarrow> Ret b s)"

text \<open>\<open>-1\<close> as \<open>unsigned long\<close> says that no checkpoint was taken.\<close>

definition kspecem_hook_new_checkpoint :: "'c kernel \<Rightarrow> site \<Rightarrow> site \<Rightarrow> ('c, u64) kop" where
  "kspecem_hook_new_checkpoint k st sta =
     CHECK_KSPECEM_RT (- 1)
      (ifM (\<lambda>s. in_interrupt k (cpu s)) (returnM (- 1))
        (ifM (\<lambda>s. irqs_disabled k (cpu s)) (returnM (- 1))
          (ifM (\<lambda>s. assert_fmt (kspecem_spec_assert s) \<noteq> None) (returnM (- 1))
            (bindM (is_whitelist_task k) (\<lambda>w.
              if \<not> w then returnM (- 1)
              else ifM kspecem_in_speculative_emulation
                (thenM (add_spec_statistics KSPECEM_FUNC_NEW_CHECKPOINT_INSPEC 0 0 0 (ret_addr st))
                  (returnM (- 1)))
                (bindM (ENTER_KSPECEM_RT k) (\<lambda>irq_flags.
                  bindM (kspecem_new_checkpoint (assert_restart k sta) (ret_addr st)) (\<lambda>ret.
                    if ret = - 1 then returnM ret else returnM irq_flags))))))))"

definition kspecem_hook_leave_rt :: "'c kernel \<Rightarrow> site \<Rightarrow> u64 \<Rightarrow> ('c, unit) kop" where
  "kspecem_hook_leave_rt k sta irq_flags =
     (if irq_flags \<noteq> - 1 then LEAVE_KSPECEM_RT (assert_restart k sta) k ''kspecem_interface.c'' ''108'' irq_flags else returnM ())"

definition kspecem_hook_save_stack :: "'c kernel \<Rightarrow> site \<Rightarrow> addr \<Rightarrow> u64 \<Rightarrow> addr \<Rightarrow> ('c, unit) kop" where
  "kspecem_hook_save_stack k sta fp irq_flags frameaddress =
     (if irq_flags \<noteq> - 1 then kspecem_save_stack (assert_restart k sta) fp frameaddress else returnM ())"

definition kspecem_hook_store :: "'c kernel \<Rightarrow> site \<Rightarrow> site \<Rightarrow> addr \<Rightarrow> ('c, unit) kop" where
  "kspecem_hook_store k st sta a =
     whenM kspecem_writelog_enabled
      (CHECK_KSPECEM_INIT ()
        (bindM (ENTER_KSPECEM_NONMI_RT k) (\<lambda>flags.
          seqM [kspecem_store (assert_restart k sta) k st a,
                LEAVE_KSPECEM_NONMI_RT (assert_restart k sta) k ''kspecem_interface.c'' ''125'' flags])))"

definition kspecem_hook_memcpy :: "'c kernel \<Rightarrow> site \<Rightarrow> site \<Rightarrow> addr \<Rightarrow> u64 \<Rightarrow> ('c, unit) kop" where
  "kspecem_hook_memcpy k st sta a sz =
     whenM kspecem_writelog_enabled
      (CHECK_KSPECEM_INIT ()
        (bindM (ENTER_KSPECEM_RT k) (\<lambda>flags.
          seqM [kspecem_memcpy (assert_restart k sta) k st a sz,
                LEAVE_KSPECEM_RT (assert_restart k sta) k ''kspecem_interface.c'' ''134'' flags])))"

definition kspecem_hook_interrupt_exception ::
  "'c kernel \<Rightarrow> site \<Rightarrow> site \<Rightarrow> addr \<Rightarrow> addr \<Rightarrow> int \<Rightarrow> ('c, int) kop" where
  "kspecem_hook_interrupt_exception k st sta arg frameaddr exception_type =
     CHECK_KSPECEM_INIT 0
      (thenM (lt_assert (assert_restart k sta) ''kspecem_interface.c'' ''145'' ''frameaddr'' (\<lambda>_. frameaddr \<noteq> 0))
        (thenM (lt_assert (assert_restart k sta) ''kspecem_interface.c'' ''146''
                 ''kspecem_writelog_enabled == kspecem_in_speculative_emulation''
                 (\<lambda>s. kspecem_writelog_enabled s = kspecem_in_speculative_emulation s))
          (ifM kspecem_in_speculative_emulation
            (thenM (kspecem_interrupt_exception (assert_restart k sta) k st arg frameaddr exception_type)
              (returnM 1))
            (returnM 0))))"

definition kspecem_hook_interrupt_timer :: "'c kernel \<Rightarrow> site \<Rightarrow> site \<Rightarrow> addr \<Rightarrow> addr \<Rightarrow> ('c, unit) kop" where
  "kspecem_hook_interrupt_timer k st sta arg frameaddr =
     CHECK_KSPECEM_INIT ()
      (seqM
        [lt_assert (assert_restart k sta) ''kspecem_interface.c'' ''155'' ''frameaddr'' (\<lambda>_. frameaddr \<noteq> 0),
         lt_assert (assert_restart k sta) ''kspecem_interface.c'' ''156''
           ''kspecem_writelog_enabled == kspecem_in_speculative_emulation''
           (\<lambda>s. kspecem_writelog_enabled s = kspecem_in_speculative_emulation s),
         whenM kspecem_in_speculative_emulation
           (kspecem_interrupt_timer (assert_restart k sta) k st arg frameaddr)])"

definition kspecem_hook_kasan_report ::
  "'c kernel \<Rightarrow> site \<Rightarrow> u64 \<Rightarrow> u64 \<Rightarrow> bool \<Rightarrow> u64 \<Rightarrow> ('c, bool) kop" where
  "kspecem_hook_kasan_report k sta a sz is_write ip =
     (if a < 0x100000 then returnM False
      else CHECK_KSPECEM_RT False
       (bindM (ENTER_KSPECEM_NONMI_RT k) (\<lambda>flags.
         thenM (seqM [kspecem_kasan_report (assert_restart k sta) k a sz is_write ip,
                      LEAVE_KSPECEM_NONMI_RT (assert_restart k sta) k ''kspecem_interface.c'' ''169'' flags])
           (returnM True))))"

definition kspecem_hook_ridl_report ::
  "'c kernel \<Rightarrow> site \<Rightarrow> u64 \<Rightarrow> u64 \<Rightarrow> bool \<Rightarrow> u64 \<Rightarrow> dfsan_label \<Rightarrow> dfsan_label \<Rightarrow> ('c, unit) kop" where
  "kspecem_hook_ridl_report k sta a sz is_write ip dl pl =
     CHECK_KSPECEM_RT ()
      (bindM (ENTER_KSPECEM_NONMI_RT k) (\<lambda>flags.
        seqM [kspecem_ridl_report (assert_restart k sta) k a sz is_write ip dl pl,
              LEAVE_KSPECEM_NONMI_RT (assert_restart k sta) k ''kspecem_interface.c'' ''177'' flags]))"

definition kspecem_hook_specv1_report ::
  "'c kernel \<Rightarrow> site \<Rightarrow> u64 \<Rightarrow> u64 \<Rightarrow> bool \<Rightarrow> u64 \<Rightarrow> dfsan_label \<Rightarrow> dfsan_label \<Rightarrow> ('c, unit) kop" where
  "kspecem_hook_specv1_report k sta a sz is_write ip dl pl =
     CHECK_KSPECEM_RT ()
      (bindM (ENTER_KSPECEM_NONMI_RT k) (\<lambda>flags.
        seqM [kspecem_specv1_report (assert_restart k sta) k a sz is_write ip dl pl,
              LEAVE_KSPECEM_NONMI_RT (assert_restart k sta) k ''kspecem_interface.c'' ''184'' flags]))"

definition kspecem_hook_smotherspectre_report ::
  "'c kernel \<Rightarrow> site \<Rightarrow> u64 \<Rightarrow> dfsan_label \<Rightarrow> ('c, unit) kop" where
  "kspecem_hook_smotherspectre_report k sta ip lab =
     CHECK_KSPECEM_RT ()
      (bindM (ENTER_KSPECEM_NONMI_RT k) (\<lambda>flags.
        seqM [kspecem_smotherspectre_report (assert_restart k sta) k ip lab,
              LEAVE_KSPECEM_NONMI_RT (assert_restart k sta) k ''kspecem_interface.c'' ''191'' flags]))"

definition kspecem_hook_is_whitelist_task :: "'c kernel \<Rightarrow> site \<Rightarrow> ('c, bool) kop" where
  "kspecem_hook_is_whitelist_task k sta =
     CHECK_KSPECEM_RT False
      (bindM (ENTER_KSPECEM_RT k) (\<lambda>flags.
        bindM (is_whitelist_task k) (\<lambda>ret.
          thenM (LEAVE_KSPECEM_RT (assert_restart k sta) k ''kspecem_interface.c'' ''199'' flags) (returnM ret))))"

section \<open>The page fault checker\<close>

definition DUMMY_REGION_SIZE :: u64 where
  "DUMMY_REGION_SIZE = PAGE_SIZE"

definition kspecem_init_pf_checker :: "addr \<Rightarrow> ('c, unit) kop" where
  "kspecem_init_pf_checker region = modifyM (\<lambda>s. s\<lparr>pf_dummy_region := region\<rparr>)"

definition kspecem_access :: "'c kernel \<Rightarrow> addr \<Rightarrow> u64 \<Rightarrow> ('c, addr) kop" where
  "kspecem_access k ptr sz =
     getM (\<lambda>s. if \<not> kdf_virt_addr_valid k (cpu s) ptr \<and> sz < DUMMY_REGION_SIZE
               then pf_dummy_region s else ptr)"

definition kspecem_hook_access :: "'c kernel \<Rightarrow> site \<Rightarrow> addr \<Rightarrow> u64 \<Rightarrow> ('c, addr) kop" where
  "kspecem_hook_access k sta ptr sz =
     ifM (\<lambda>s. \<not> kspecem_in_speculative_emulation s) (returnM ptr)
      (CHECK_KSPECEM_INIT ptr
        (bindM (ENTER_KSPECEM_NONMI_RT k) (\<lambda>flags.
          bindM (kspecem_access k ptr sz) (\<lambda>ret_ptr.
            thenM (LEAVE_KSPECEM_NONMI_RT (assert_restart k sta) k ''kspecem_interface.c'' ''221'' flags) (returnM ret_ptr)))))"

section \<open>Weak defaults\<close>

text \<open>What the kernel functions are when the data flow sanitizer is not linked. The first one
  assigns its parameter and leaves the buffer as it is.\<close>

definition weak_dfsan_copy_label_info :: "dfsan_label \<Rightarrow> u8 list \<Rightarrow> nat \<Rightarrow> u8 list" where
  "weak_dfsan_copy_label_info label dest n = dest"

definition weak_kdf_virt_addr_valid :: "addr \<Rightarrow> bool" where
  "weak_kdf_virt_addr_valid a = True"

definition weak_kdfsan_enable :: int where
  "weak_kdfsan_enable = - 1"

section \<open>The restart hook does not call itself\<close>

lemma agree_leave:
  "agree settled (\<lambda>_. True) (LEAVE_KSPECEM_RT rst k file line flags) (LEAVE_KSPECEM_RT rst' k file line flags)"
proof -
  have "agree settled settled (LEAVE_KSPECEM_RT rst k file line flags) (LEAVE_KSPECEM_RT rst' k file line flags)"
    unfolding LEAVE_KSPECEM_RT_def kspecem_unset_rt_def
    by (intro agree_rules) (simp_all add: settled_def outside_spec_def restarting_def)
  then show ?thesis by (rule agree_weaken) simp_all
qed

text \<open>
  The assertion at the end of \<open>kspecem_hook_restart\<close> does not start another restart either:
  the hook behaves the same whatever the call from the assertion would do.
\<close>

theorem kspecem_hook_restart_never_reenters:
  "kspecem_hook_restart k st arg ty call_arg = kspecem_hook_restart_with hook_restart k st arg ty call_arg"
proof -
  have 1: "agree (\<lambda>_. True) (\<lambda>_. True) (ENTER_KSPECEM_RT k) (ENTER_KSPECEM_RT k)"
    and 2: "agree (\<lambda>_. True) settled (kspecem_restart k st arg ty call_arg 0 0) (kspecem_restart k st arg ty call_arg 0 0)"
    and 3: "agree (\<lambda>_. True) (\<lambda>_. True) (returnM x) (returnM x)" for x :: int
    using agree_restart [of k st arg ty call_arg 0 0 "faultM ''re-entered''"]
    by (simp_all add: agree_def kspecem_restart_def)
  have "agree (\<lambda>_. True) (\<lambda>_. True) (kspecem_hook_restart k st arg ty call_arg)
      (kspecem_hook_restart_with hook_restart k st arg ty call_arg)"
    unfolding kspecem_hook_restart_def kspecem_hook_restart_with_def CHECK_KSPECEM_INIT_def
    by (intro agree_ifM agree_bindJ [OF 1] agree_bindJ [OF 2] agree_thenJ [OF agree_leave] 3)
  then show ?thesis by (simp add: agree_def fun_eq_iff)
qed

section \<open>Failed assertions during a speculation\<close>

definition irq_flags :: "'c kernel \<Rightarrow> 'c \<Rightarrow> u64" where
  "irq_flags k c = fst (local_irq_save k (preempt_disable k c))"

definition quiet_cpu :: "'c kernel \<Rightarrow> 'c \<Rightarrow> 'c" where
  "quiet_cpu k c = snd (local_irq_save k (preempt_disable k c))"

lemma enter_nonmi_eq [km_simps, run_simps]:
  "ENTER_KSPECEM_NONMI_RT k s = Ret (irq_flags k (cpu s)) (s\<lparr>kspecem_is_in_rt := True, cpu := quiet_cpu k (cpu s)\<rparr>)"
  by (simp add: ENTER_KSPECEM_NONMI_RT_def kspecem_set_rt_def km_simps irq_flags_def quiet_cpu_def)

lemma enter_eq [km_simps, run_simps]:
  "ENTER_KSPECEM_RT k s = Ret (irq_flags k (cpu s))
     (s\<lparr>kspecem_is_in_rt := True, cpu := stop_nmi k (quiet_cpu k (cpu s))\<rparr>)"
  by (simp add: ENTER_KSPECEM_RT_def km_simps)

lemma restart_after_assertion:
  assumes "kspecem_in_speculative_emulation s" and "kspecem_spec_assert s = \<lparr>assert_fmt = Some fmt,
      assert_file = f, assert_line = l, assert_condition = c\<rparr>"
    and "reports_ok k s" and "rollback_ok k st (restart_frame st) 0 s"
  shows "\<exists>t. kspecem_restart k st 0 0xffff call_arg 0 0 s = Panic [fmt, f, l, c] t
    \<and> mem t = rollback_mem st (restart_frame st) 0 s \<and> \<not> kspecem_in_speculative_emulation t"
proof -
  let ?s = "s\<lparr>kspecem_is_in_restart := True\<rparr>"
  let ?t = "rolled_back st (stack_top st 0 0) 0 ?s"
  have "kspecem_restart k st 0 0xffff call_arg 0 0 s =
      restart_rollback (faultM ''re-entered'') k st 0 0xffff 0 0 ?s"
    using assms(1,2) by (simp add: kspecem_restart_def kspecem_restart_with_def ifM_apply then_modify)
  moreover have "rollback_ok k st (stack_top st 0 0) 0 ?s" using assms(4) by (simp add: stack_top_def)
  note restart_rollback_eq [OF this, of "faultM ''re-entered''" "0xffff"]
  moreover have "reports_ok k ?s" using assms(3) by (simp add: reports_ok_def map_ready_def)
  then have "reports_ok k ?t" by (simp only: reports_ok_rolled_back)
  then obtain l' m where "kspecem_report_print_and_clear (faultM ''re-entered'') k True 0xffff ?t = Ret () (cleared l' m ?t)"
    using print_and_clear_returns by metis
  ultimately show ?thesis
    using assms(2) by (simp add: km_simps reports_at_restart_def cleared_def rolled_back_def stack_top_def)
qed

text \<open>
  C28. An assertion that fails during a speculation (and outside a restart) does not return: the
  speculation is rolled back first, so that the kernel's memory is that of the checkpoint, and
  then the kernel panics with the message of that assertion.
\<close>

theorem kspecem_assertion_in_speculation_panics:
  assumes "kspecem_in_speculative_emulation s" and "\<not> kspecem_is_in_restart s" and "kspecem_init_done s"
    and "reports_ok k s" and "rollback_ok k sta (restart_frame sta) 0 s" and "\<not> test s"
  shows "\<exists>t. lt_assert (assert_restart k sta) file line condition test s =
      Panic [''assert failed in %s: %s: %s'', file, line, condition] t
    \<and> mem t = rollback_mem sta (restart_frame sta) 0 s \<and> \<not> kspecem_in_speculative_emulation t"
proof -
  let ?s = "(record_assert file line condition s)\<lparr>kspecem_is_in_rt := True,
      cpu := stop_nmi k (quiet_cpu k (cpu s))\<rparr>"
  have v: "log_view ?s = log_view s" by (simp add: log_view_def record_assert_def)
  have "\<exists>t. kspecem_restart k sta 0 0xffff 0 0 0 ?s = Panic [''assert failed in %s: %s: %s'', file, line, condition] t
      \<and> mem t = rollback_mem sta (restart_frame sta) 0 ?s \<and> \<not> kspecem_in_speculative_emulation t"
  proof (rule restart_after_assertion)
    show "kspecem_in_speculative_emulation ?s" using assms(1) by (simp add: record_assert_def)
    show "kspecem_spec_assert ?s = \<lparr>assert_fmt = Some ''assert failed in %s: %s: %s'', assert_file = file,
        assert_line = line, assert_condition = condition\<rparr>" by (simp add: record_assert_def)
    show "reports_ok k ?s" using assms(4) by (simp add: reports_ok_def map_ready_def record_assert_def)
    show "rollback_ok k sta (restart_frame sta) 0 ?s" using assms(5) rollback_cong(3) [OF v] by simp
  qed
  then obtain t where t: "kspecem_restart k sta 0 0xffff 0 0 0 ?s =
      Panic [''assert failed in %s: %s: %s'', file, line, condition] t"
    "mem t = rollback_mem sta (restart_frame sta) 0 s" "\<not> kspecem_in_speculative_emulation t"
    unfolding rollback_cong(2) [OF v] by blast
  have i: "kspecem_init_done (record_assert file line condition s)" "cpu (record_assert file line condition s) = cpu s"
    using assms(3) by (simp_all add: record_assert_def)
  have "assert_restart k sta (record_assert file line condition s) =
      Panic [''assert failed in %s: %s: %s'', file, line, condition] t"
    unfolding assert_restart_def kspecem_hook_restart_def kspecem_hook_restart_with_def CHECK_KSPECEM_INIT_def
    using i t(1) by (simp add: ignoreM_apply ifM_apply bindM_apply enter_eq)
  with t assms(1,2,6) show ?thesis by (simp add: lt_assert_in_spec)
qed

theorem kspecem_assertion_in_speculation_panics_witness:
  "\<exists>t. lt_assert (assert_restart plain_kernel demo_site) ''f.c'' ''1'' ''0'' (\<lambda>_. False) demo_spec =
      Panic [''assert failed in %s: %s: %s'', ''f.c'', ''1'', ''0''] t \<and> mem t 0x2001 = 0"
proof -
  have "kspecem_in_speculative_emulation demo_spec" "\<not> kspecem_is_in_restart demo_spec" "kspecem_init_done demo_spec"
    "\<not> (\<lambda>_. False) demo_spec"
    by (simp_all add: demo_spec_def boot_state_def)
  with demo_spec_ok(3,4) obtain t where "lt_assert (assert_restart plain_kernel demo_site) ''f.c'' ''1'' ''0'' (\<lambda>_. False) demo_spec =
      Panic [''assert failed in %s: %s: %s'', ''f.c'', ''1'', ''0''] t"
    "mem t = rollback_mem demo_site (restart_frame demo_site) 0 demo_spec"
    using kspecem_assertion_in_speculation_panics [of demo_spec plain_kernel demo_site "\<lambda>_. False" "''f.c''" "''1''" "''0''"]
    by blast
  moreover have "rollback_mem demo_site (restart_frame demo_site) 0 demo_spec 0x2001 = 0"
    unfolding rollback_mem_def demo_spec_wl_list
    by (simp add: store64_def memcpy_to_def skip_entry_def demo_spec_def demo_site_def boot_state_def)
  ultimately show ?thesis by auto
qed

section \<open>The limits of a speculation\<close>

text \<open>The hook is called from instrumented code: not from inside one of the runtimes.\<close>

definition hooks_active :: "'c kstate \<Rightarrow> bool" where
  "hooks_active s \<longleftrightarrow> kspecem_init_done s \<and> \<not> kspecem_is_in_rt s
     \<and> \<not> (kdfinit_is_init_done s \<and> kdfinit_is_in_rt s) \<and> \<not> (kdf_is_init_done s \<and> kdf_is_in_rt s)"

lemma checks_pass:
  assumes "hooks_active s"
  shows "CHECK_KSPECEM_INIT d m s = m s" and "CHECK_KSPECEM_RT d m s = m s"
    and "CHECK_KDFINIT_RT d m s = m s" and "CHECK_KDFSAN_RT d m s = m s"
  using assms
  by (auto simp: hooks_active_def CHECK_KSPECEM_INIT_def CHECK_KSPECEM_RT_def CHECK_KDFINIT_RT_def
      CHECK_KDFSAN_RT_def ifM_apply)

text \<open>What a rollback from a hook needs.\<close>

definition can_end :: "'c kernel \<Rightarrow> site \<Rightarrow> int \<Rightarrow> 'c kstate \<Rightarrow> bool" where
  "can_end k st ty s \<longleftrightarrow> ends_speculation ty s \<and> stats_ready s \<and> reports_ok k s
     \<and> rollback_ok k st (restart_frame st) 0 s"

lemma can_end_cong:
  assumes "log_view s = log_view t" and "can_end k st ty s"
    and "kspecem_in_speculative_emulation t = kspecem_in_speculative_emulation s"
    and "kspecem_spec_assert t = kspecem_spec_assert s"
    and "ty = KSPECEM_RESTART_RETURN \<Longrightarrow> kspecem_spec_call_depth t = kspecem_spec_call_depth s"
    and "stats_ready t" and "kspecem_previous_bugs_map t = kspecem_previous_bugs_map s"
    and "kspecem_print_level t = kspecem_print_level s" and "kspecem_bugs t = kspecem_bugs s"
    and "kspecem_next_bug_index t = kspecem_next_bug_index s"
  shows "can_end k st ty t"
  using assms(2-) rollback_cong(3) [OF assms(1)]
  by (auto simp: can_end_def ends_speculation_def reports_ok_def map_ready_def)

text \<open>A hook that enters the runtime to end the speculation.\<close>

lemma enter_and_restart:
  assumes "can_end k st ty s"
  obtains t where "\<And>rest. bindM (ENTER_KSPECEM_RT k) (\<lambda>flags. thenM (ignoreM (kspecem_restart k st 0 ty 0 0 0))
      (rest flags)) s = (Resume t :: ('c kstate, unit) outcome)"
    and "mem t = store64 (rollback_mem st (restart_frame st) 0 s)
        (kspecem_registers s RSP - 8) (kspecem_registers s EFLAGS)"
    and "hw t RIP = kspecem_registers s RIP" and "\<not> kspecem_in_speculative_emulation t"
    and "\<not> kspecem_is_in_rt t"
proof -
  let ?s = "s\<lparr>kspecem_is_in_rt := True, cpu := stop_nmi k (quiet_cpu k (cpu s))\<rparr>"
  have v: "log_view ?s = log_view s" by (simp add: log_view_def)
  have "stats_ready ?s" using assms by (simp add: can_end_def stats_ready_def)
  then have "can_end k st ty ?s" by (intro can_end_cong [OF v [symmetric] assms]) simp_all
  then have "ends_speculation ty ?s" "stats_ready ?s" "reports_ok k ?s" "rollback_ok k st (restart_frame st) 0 ?s"
    by (simp_all add: can_end_def)
  from restart_resumes [OF this, of 0 0] obtain t where
    "kspecem_restart k st 0 ty 0 0 0 ?s = Resume t"
    "mem t = store64 (rollback_mem st (restart_frame st) 0 ?s) (kspecem_registers ?s RSP - 8) (kspecem_registers ?s EFLAGS)"
    "\<forall>r \<in> preserved_regs \<union> {RIP, RSP, EFLAGS}. hw t r = kspecem_registers ?s r"
    "\<not> kspecem_in_speculative_emulation t" "\<not> kspecem_is_in_rt t"
    by blast
  then show thesis
    by (intro that [of t]) (simp_all add: bindM_apply thenM_apply enter_eq ignoreM_apply rollback_cong(2) [OF v])
qed

text \<open>
  C15. The length of a speculation is bounded: the hook at the head of a basic block adds the
  block's instruction count, and when the limit is reached the speculation ends in a rollback
  to the checkpoint; below the limit only the counter changes, so that in a speculation that
  goes on after the hook the count is below the limit.
\<close>

theorem kspecem_hook_check_spec_length_limits:
  assumes "hooks_active s" and "can_end k st KSPECEM_RESTART_LIMIT_SPEC s"
    and "n = kspecem_speculative_instr_count s + bb_inst_count"
  shows "if kspecem_max_speculative_instructions s \<le> n
    then \<exists>t. kspecem_hook_check_spec_length k st sta bb_inst_count s = Resume t
      \<and> mem t = store64 (rollback_mem st (restart_frame st) 0 s)
          (kspecem_registers s RSP - 8) (kspecem_registers s EFLAGS)
      \<and> hw t RIP = kspecem_registers s RIP \<and> \<not> kspecem_in_speculative_emulation t
    else kspecem_hook_check_spec_length k st sta bb_inst_count s =
      Ret () (s\<lparr>kspecem_speculative_instr_count := n\<rparr>)"
proof -
  let ?s = "s\<lparr>kspecem_speculative_instr_count := n\<rparr>"
  have sp: "kspecem_in_speculative_emulation s" using assms(2) by (simp add: can_end_def ends_speculation_def)
  have v: "log_view s = log_view ?s" by (simp add: log_view_def)
  have c: "can_end k st KSPECEM_RESTART_LIMIT_SPEC ?s"
    using assms(2) by (intro can_end_cong [OF v assms(2)]) (simp_all add: can_end_def stats_ready_def)
  have h: "kspecem_hook_check_spec_length k st sta bb_inst_count s =
    whenM (\<lambda>s. kspecem_max_speculative_instructions s \<le> kspecem_speculative_instr_count s)
      (bindM (ENTER_KSPECEM_RT k) (\<lambda>flags.
        seqM [ignoreM (kspecem_restart k st 0 KSPECEM_RESTART_LIMIT_SPEC 0 0 0),
              lt_panic ''kspecem_interface.c'' ''36'' ''should not return!'',
              LEAVE_KSPECEM_RT (assert_restart k sta) k ''kspecem_interface.c'' ''37'' flags])) ?s"
    using assms(1,3) sp
    by (simp add: kspecem_hook_check_spec_length_def whenM_apply [of _ "CHECK_KSPECEM_RT _ _"]
        checks_pass then_modify)
  show ?thesis
  proof (cases "kspecem_max_speculative_instructions s \<le> n")
    case True
    then show ?thesis
      unfolding h using rollback_cong(2) [OF v]
      by (rule_tac enter_and_restart [OF c]) (auto simp: whenM_apply True)
  next
    case False
    then show ?thesis unfolding h by (simp add: whenM_apply)
  qed
qed

text \<open>The example state as instrumented code sees it.\<close>

definition demo_code :: "machine kstate" where
  "demo_code = demo_spec\<lparr>kspecem_is_in_rt := False, kspecem_speculative_instr_count := 240,
     kspecem_spec_call_depth := 99\<rparr>"

lemma demo_code_active: "hooks_active demo_code"
  by (simp add: hooks_active_def demo_code_def demo_spec_def boot_state_def)

lemma demo_code_ok:
  assumes "ty \<noteq> KSPECEM_RESTART_RETURN"
  shows "can_end plain_kernel demo_site ty demo_code"
proof -
  have v: "log_view demo_spec = log_view demo_code" by (simp add: log_view_def demo_code_def)
  have "can_end plain_kernel demo_site ty demo_spec"
    using demo_spec_ok assms by (simp add: can_end_def ends_speculation_def)
  then show "can_end plain_kernel demo_site ty demo_code"
    using assms by (rule_tac can_end_cong [OF v]) (simp_all add: demo_code_def can_end_def stats_ready_def)
qed

theorem kspecem_hook_check_spec_length_limits_witness:
  "(\<exists>t. kspecem_hook_check_spec_length plain_kernel demo_site demo_site 10 demo_code = Resume t
      \<and> \<not> kspecem_in_speculative_emulation t)
   \<and> kspecem_hook_check_spec_length plain_kernel demo_site demo_site 9 demo_code =
      Ret () (demo_code\<lparr>kspecem_speculative_instr_count := 249\<rparr>)"
proof -
  have ok: "hooks_active demo_code" "can_end plain_kernel demo_site KSPECEM_RESTART_LIMIT_SPEC demo_code"
    by (simp_all add: demo_code_active demo_code_ok)
  have c: "kspecem_max_speculative_instructions demo_code = 250" "kspecem_speculative_instr_count demo_code = 240"
    by (simp_all add: demo_code_def demo_spec_def boot_state_def)
  show ?thesis
    using kspecem_hook_check_spec_length_limits [OF ok refl, of 10 demo_site]
      kspecem_hook_check_spec_length_limits [OF ok refl, of 9 demo_site] c
    by auto
qed

text \<open>
  C26. The call depth of a speculation is bounded: entering an instrumented function during a
  speculation records it and raises the depth, and at the limit the speculation ends in a
  rollback to the checkpoint.
\<close>

theorem kspecem_hook_check_call_depth_limits:
  assumes "hooks_active s" and "can_end k st KSPECEM_RESTART_CALL_DEPTH s"
    and "n = kspecem_spec_call_depth s + 1"
  shows "if kspecem_max_call_depth s \<le> n
    then \<exists>t. kspecem_hook_check_call_depth k st sta s = Resume t
      \<and> mem t = store64 (rollback_mem st (restart_frame st) 0 s)
          (kspecem_registers s RSP - 8) (kspecem_registers s EFLAGS)
      \<and> hw t RIP = kspecem_registers s RIP \<and> \<not> kspecem_in_speculative_emulation t
    else \<exists>tr. kspecem_hook_check_call_depth k st sta s =
      Ret () (s\<lparr>spec_stats := tr, kspecem_spec_call_depth := n\<rparr>)"
proof -
  have e: "kspecem_writelog_enabled s" "stats_ready s" using assms(2) by (simp_all add: can_end_def rollback_ok_def)
  obtain tr where tr: "add_spec_statistics KSPECEM_FUNC_CHECK_CALL_DEPTH 0 0 0 (ret_addr st) s = Ret () (s\<lparr>spec_stats := tr\<rparr>)"
    "kspecem_spec_statistics tr \<noteq> 0" using add_spec_statistics_runs [OF e(2)] by metis
  let ?s = "s\<lparr>spec_stats := tr, kspecem_spec_call_depth := n\<rparr>"
  have v: "log_view s = log_view ?s" by (simp add: log_view_def)
  have c: "can_end k st KSPECEM_RESTART_CALL_DEPTH ?s"
    using assms(2) tr(2) by (intro can_end_cong [OF v assms(2)]) (simp_all add: can_end_def stats_ready_def)
  have h: "kspecem_hook_check_call_depth k st sta s =
    whenM (\<lambda>s. kspecem_max_call_depth s \<le> kspecem_spec_call_depth s)
      (bindM (ENTER_KSPECEM_RT k) (\<lambda>flags.
        seqM [ignoreM (kspecem_restart k st 0 KSPECEM_RESTART_CALL_DEPTH 0 0 0),
              lt_panic ''kspecem_interface.c'' ''62'' ''should not return!'',
              LEAVE_KSPECEM_RT (assert_restart k sta) k ''kspecem_interface.c'' ''63'' flags])) ?s"
    using assms(1,3) e(1) tr(1)
    by (simp add: kspecem_hook_check_call_depth_def checks_pass whenM_apply [of kspecem_writelog_enabled]
        thenM_apply [of "add_spec_statistics _ _ _ _ _"] then_modify then_returned)
  show ?thesis
  proof (cases "kspecem_max_call_depth s \<le> n")
    case True
    then show ?thesis
      unfolding h using rollback_cong(2) [OF v]
      by (rule_tac enter_and_restart [OF c]) (auto simp: whenM_apply True)
  next
    case False
    then show ?thesis unfolding h by (auto simp: whenM_apply)
  qed
qed

theorem kspecem_hook_check_call_depth_limits_witness:
  "\<exists>t. kspecem_hook_check_call_depth plain_kernel demo_site demo_site demo_code = Resume t
    \<and> \<not> kspecem_in_speculative_emulation t"
proof -
  have ok: "hooks_active demo_code" "can_end plain_kernel demo_site KSPECEM_RESTART_CALL_DEPTH demo_code"
    by (simp_all add: demo_code_active demo_code_ok)
  have c: "kspecem_max_call_depth demo_code = 100" "kspecem_spec_call_depth demo_code = 99"
    by (simp_all add: demo_code_def demo_spec_def boot_state_def)
  show ?thesis
    using kspecem_hook_check_call_depth_limits [OF ok refl, of demo_site] c by auto
qed

section \<open>Entering and leaving balance\<close>

text \<open>
  What the runtime relies on of the kernel: saving and restoring the interrupt flag, disabling
  and enabling preemption, stopping and restarting NMIs undo each other, and interrupts are off
  after \<open>local_irq_save\<close>, also with NMIs stopped.
\<close>

definition kernel_ok :: "'c kernel \<Rightarrow> bool" where
  "kernel_ok k \<longleftrightarrow>
     (\<forall>c. preempt_enable k (preempt_disable k c) = c)
     \<and> (\<forall>c. local_irq_restore k (fst (local_irq_save k c)) (snd (local_irq_save k c)) = c)
     \<and> (\<forall>c. restart_nmi k (stop_nmi k c) = c)
     \<and> (\<forall>c. irqs_disabled k (snd (local_irq_save k c)))
     \<and> (\<forall>c. irqs_disabled k (stop_nmi k c) = irqs_disabled k c)"

lemma plain_kernel_ok: "kernel_ok plain_kernel"
  by (simp add: kernel_ok_def plain_kernel_def)

lemma leave_nonmi_eq:
  assumes "kernel_ok k" and "cpu t = quiet_cpu k c"
  shows "LEAVE_KSPECEM_NONMI_RT rst k f l (irq_flags k c) t = Ret () (t\<lparr>cpu := c, kspecem_is_in_rt := False\<rparr>)"
  using assms
  by (simp add: LEAVE_KSPECEM_NONMI_RT_def kspecem_unset_rt_def km_simps kernel_ok_def quiet_cpu_def irq_flags_def)

lemma leave_eq:
  assumes "kernel_ok k" and "cpu t = stop_nmi k (quiet_cpu k c)"
  shows "LEAVE_KSPECEM_RT rst k f l (irq_flags k c) t = Ret () (t\<lparr>cpu := c, kspecem_is_in_rt := False\<rparr>)"
  using assms
  by (simp add: LEAVE_KSPECEM_RT_def kspecem_unset_rt_def km_simps kernel_ok_def quiet_cpu_def irq_flags_def)

section \<open>The store hooks\<close>

text \<open>The state after a store hook: the log is extended, interrupts are as before, and the
  runtime flag is cleared.\<close>

definition store_logged :: "site \<Rightarrow> addr list \<Rightarrow> 'c kstate \<Rightarrow> 'c kstate" where
  "store_logged st gs s = (log_of (fold (logged st) gs s) s)\<lparr>kspecem_is_in_rt := False\<rparr>"

lemma logged_entered:
  "logged st g (s\<lparr>kspecem_is_in_rt := b, cpu := c\<rparr>) = (logged st g s)\<lparr>kspecem_is_in_rt := b, cpu := c\<rparr>"
  by (simp add: logged_def Let_def)

lemma fold_logged_entered:
  "fold (logged st) gs (s\<lparr>kspecem_is_in_rt := b, cpu := c\<rparr>) = (fold (logged st) gs s)\<lparr>kspecem_is_in_rt := b, cpu := c\<rparr>"
  by (induction gs arbitrary: s) (simp_all add: logged_entered)

lemma entered_log [simp]:
  "log_ready (s\<lparr>kspecem_is_in_rt := b, cpu := c\<rparr>) n = log_ready s n"
  "loggable k (s\<lparr>kspecem_is_in_rt := b, cpu := c\<rparr>) = loggable k s"
  by (simp_all add: log_ready_def loggable_def wl_addrs_end_def wl_data_end_def fun_eq_iff)

lemma left_store_logged:
  "(fold (logged st) gs s)\<lparr>kspecem_is_in_rt := b, cpu := c, cpu := cpu s, kspecem_is_in_rt := False\<rparr> = store_logged st gs s"
proof -
  have "cpu (fold (logged st) gs s) = cpu s"
    by (subst fold_logged_frame) (simp add: log_of_def)
  then show ?thesis
    unfolding store_logged_def by (subst (1) fold_logged_frame) (simp add: log_of_def)
qed

lemma kspecem_hook_store_eq:
  assumes "kernel_ok k" and "kspecem_init_done s" and "log_ready s (length (granules a))"
    and "\<forall>g \<in> set (granules a). loggable k s g"
  shows "kspecem_hook_store k st sta a s = Ret () (store_logged st (granules a) s)"
proof -
  have "kspecem_writelog_enabled s" using assms(3) by (simp add: log_ready_def)
  moreover have "kspecem_store (assert_restart k sta) k st a (s\<lparr>kspecem_is_in_rt := True, cpu := quiet_cpu k (cpu s)\<rparr>)
      = Ret () ((fold (logged st) (granules a) s)\<lparr>kspecem_is_in_rt := True, cpu := quiet_cpu k (cpu s)\<rparr>)"
    unfolding kspecem_store_def fold_logged_entered [symmetric]
    using assms(3,4) by (intro kspecem_write_wl_logs) simp_all
  ultimately show ?thesis
    using assms(1,2) left_store_logged [where gs = "granules a"]
    by (simp add: kspecem_hook_store_def whenM_apply CHECK_KSPECEM_INIT_def ifM_apply bindM_apply enter_nonmi_eq
        thenM_apply leave_nonmi_eq)
qed

lemma kspecem_hook_memcpy_eq:
  assumes "kernel_ok k" and "kspecem_init_done s" and "range_ok a sz"
    and "log_ready s (length (memcpy_granules a sz))" and "\<forall>g \<in> set (memcpy_granules a sz). loggable k s g"
  shows "kspecem_hook_memcpy k st sta a sz s = Ret () (store_logged st (memcpy_granules a sz) s)"
proof -
  have "kspecem_writelog_enabled s" using assms(4) by (simp add: log_ready_def)
  moreover have "kspecem_memcpy (assert_restart k sta) k st a sz (s\<lparr>kspecem_is_in_rt := True, cpu := stop_nmi k (quiet_cpu k (cpu s))\<rparr>)
      = Ret () ((fold (logged st) (memcpy_granules a sz) s)\<lparr>kspecem_is_in_rt := True, cpu := stop_nmi k (quiet_cpu k (cpu s))\<rparr>)"
    unfolding fold_logged_entered [symmetric]
    using assms(3-5) by (intro kspecem_memcpy_logs) simp_all
  ultimately show ?thesis
    using assms(1,2) left_store_logged [where gs = "memcpy_granules a sz"]
    by (simp add: kspecem_hook_memcpy_def whenM_apply CHECK_KSPECEM_INIT_def ifM_apply bindM_apply enter_eq
        thenM_apply leave_eq)
qed

text \<open>
  A store hook that finds room in the log returns to the instrumented code with the granules
  of the store appended to the log, the interrupt and preemption state it was called in, and
  everything else unchanged, except that the flag \<open>kspecem_is_in_rt\<close> is false afterwards:
  also when the store was made by code the runtime itself called with the flag set.
\<close>

theorem kspecem_hook_store_logs:
  assumes "kernel_ok k" and "kspecem_init_done s" and "log_ready s (length (granules a))"
    and "\<forall>g \<in> set (granules a). loggable k s g"
  shows "\<exists>t. kspecem_hook_store k st sta a s = Ret () t \<and> cpu t = cpu s \<and> \<not> kspecem_is_in_rt t
    \<and> wl_list t = rev (map (\<lambda>g. (g, load64 (mem s) g)) (granules a)) @ wl_list s
    \<and> t = (log_of t s)\<lparr>kspecem_is_in_rt := False\<rparr>"
proof (intro exI conjI)
  let ?t = "store_logged st (granules a) s"
  show "kspecem_hook_store k st sta a s = Ret () ?t" using assms by (rule kspecem_hook_store_eq)
  have "wl_list ?t = wl_list (fold (logged st) (granules a) s)"
    unfolding wl_list_def by (auto simp: store_logged_def log_of_def intro!: log_entries_cong)
  then show "wl_list ?t = rev (map (\<lambda>g. (g, load64 (mem s) g)) (granules a)) @ wl_list s"
    using fold_logged(4) [of s "granules a" 0] assms(3) by simp
qed (simp_all add: store_logged_def log_of_def)

theorem kspecem_hook_store_logs_witness:
  "\<exists>t. kspecem_hook_store plain_kernel demo_site demo_site 0x3001 demo_spec = Ret () t
    \<and> kspecem_is_in_rt demo_spec \<and> \<not> kspecem_is_in_rt t
    \<and> map fst (wl_list t) = [0x3000, 0x3008, 0x2000]"
proof -
  have g: "granules 0x3001 = [0x3008, 0x3000]" by (simp add: granules_def align8_def)
  have r: "log_ready demo_spec (length (granules 0x3001))" using demo_log(1) by (rule log_ready_mono) (simp add: g)
  have l: "\<forall>g \<in> set (granules 0x3001). loggable plain_kernel demo_spec g" by (simp add: g demo_loggable)
  have "kspecem_init_done demo_spec" "kspecem_is_in_rt demo_spec" by (simp_all add: demo_spec_def)
  with kspecem_hook_store_logs [OF plain_kernel_ok _ r l, of demo_site demo_site] show ?thesis
    unfolding g demo_spec_wl_list by auto
qed

section \<open>The checkpoint hook\<close>

definition may_checkpoint :: "'c kernel \<Rightarrow> 'c kstate \<Rightarrow> bool" where
  "may_checkpoint k s \<longleftrightarrow> kspecem_init_done s \<and> \<not> kspecem_is_in_rt s \<and> \<not> in_interrupt k (cpu s)
     \<and> \<not> irqs_disabled k (cpu s) \<and> assert_fmt (kspecem_spec_assert s) = None
     \<and> kspecem_is_whitelist_task (kspecem_whitelist_type s) (kspecem_syscall_get_nr k (cpu s))
         (current_comm k (cpu s)) = Inr True
     \<and> \<not> kspecem_in_speculative_emulation s"

definition entered :: "'c kernel \<Rightarrow> 'c kstate \<Rightarrow> 'c kstate" where
  "entered k s = s\<lparr>kspecem_is_in_rt := True, cpu := stop_nmi k (quiet_cpu k (cpu s))\<rparr>"

lemma new_checkpoint_taken:
  assumes "may_checkpoint k s" and "kspecem_wl_stack s \<noteq> 0"
    and "kspecem_spec_statistics (spec_stats s) \<noteq> 0"
  shows "kspecem_hook_new_checkpoint k st sta s =
    Ret (irq_flags k (cpu s)) (checkpointed (ret_addr st) (entered k s))"
proof -
  have "kspecem_new_checkpoint (assert_restart k sta) (ret_addr st) (entered k s) =
      Ret 0 (checkpointed (ret_addr st) (entered k s))"
    using assms by (intro kspecem_new_checkpoint_eq) (simp_all add: entered_def may_checkpoint_def)
  with assms(1) show ?thesis
    by (simp add: kspecem_hook_new_checkpoint_def CHECK_KSPECEM_RT_def ifM_apply may_checkpoint_def
        bindM_apply is_whitelist_task_def enter_eq entered_def)
qed

text \<open>
  C25. Exactly when a checkpoint is taken: after initialisation, outside the runtime, not in an
  interrupt, with interrupts enabled, no failed assertion pending, for a whitelisted task and
  outside a speculation. Then the state is that of a fresh speculation with an empty log,
  interrupts are off and the saved flags are returned. In every other case the result is \<open>-1\<close>
  and nothing changes but, inside a speculation, the trace.
\<close>

theorem kspecem_hook_new_checkpoint_iff:
  assumes "kspecem_wl_stack s \<noteq> 0" and "kspecem_spec_statistics (spec_stats s) \<noteq> 0"
    and "0 \<in> set (take 16 (current_comm k (cpu s)))" and "irq_flags k (cpu s) \<noteq> - 1"
  shows "if may_checkpoint k s
    then kspecem_hook_new_checkpoint k st sta s =
      Ret (irq_flags k (cpu s)) (checkpointed (ret_addr st) (entered k s))
    else \<exists>tr. kspecem_hook_new_checkpoint k st sta s = Ret (- 1) (s\<lparr>spec_stats := tr\<rparr>)
      \<and> (\<not> kspecem_in_speculative_emulation s \<longrightarrow> tr = spec_stats s)"
proof (cases "may_checkpoint k s")
  case True
  then show ?thesis using assms(1,2) by (simp add: new_checkpoint_taken)
next
  case False
  obtain w where w: "kspecem_is_whitelist_task (kspecem_whitelist_type s) (kspecem_syscall_get_nr k (cpu s))
      (current_comm k (cpu s)) = Inr w"
    using whitelist_task_total [OF assms(3)] by blast
  obtain tr where tr: "kspecem_add_spec_statistics KSPECEM_FUNC_NEW_CHECKPOINT_INSPEC 0 0 0 (ret_addr st) (spec_stats s) = Some tr"
    using kspecem_add_spec_statistics_Some [OF assms(2)] by blast
  obtain K where K: "kspecem_hook_new_checkpoint k st sta = CHECK_KSPECEM_RT (- 1)
      (ifM (\<lambda>s. in_interrupt k (cpu s)) (returnM (- 1))
        (ifM (\<lambda>s. irqs_disabled k (cpu s)) (returnM (- 1))
          (ifM (\<lambda>s. assert_fmt (kspecem_spec_assert s) \<noteq> None) (returnM (- 1))
            (bindM (is_whitelist_task k) (\<lambda>w. if \<not> w then returnM (- 1)
              else ifM kspecem_in_speculative_emulation
                (thenM (add_spec_statistics KSPECEM_FUNC_NEW_CHECKPOINT_INSPEC 0 0 0 (ret_addr st)) (returnM (- 1)))
                K)))))"
    by (rule that) (rule kspecem_hook_new_checkpoint_def)
  have d: "kspecem_hook_new_checkpoint k st sta s = (if \<not> kspecem_init_done s \<or> kspecem_is_in_rt s
      then Ret (- 1) s else if in_interrupt k (cpu s) then Ret (- 1) s else if irqs_disabled k (cpu s) then Ret (- 1) s
      else if assert_fmt (kspecem_spec_assert s) \<noteq> None then Ret (- 1) s else if \<not> w then Ret (- 1) s
      else if kspecem_in_speculative_emulation s then Ret (- 1) (s\<lparr>spec_stats := tr\<rparr>) else K s)"
    unfolding K using w tr
    by (simp add: CHECK_KSPECEM_RT_def ifM_apply bindM_apply is_whitelist_task_def thenM_apply add_spec_statistics_def)
  define v where "v = kspecem_hook_new_checkpoint k st sta s"
  have "v = Ret (- 1) (s\<lparr>spec_stats := spec_stats s\<rparr>)
      \<or> v = Ret (- 1) (s\<lparr>spec_stats := tr\<rparr>) \<and> kspecem_in_speculative_emulation s"
    using d False w unfolding v_def [symmetric] may_checkpoint_def by (auto split: if_splits)
  then have "\<exists>tr. v = Ret (- 1) (s\<lparr>spec_stats := tr\<rparr>)
      \<and> (\<not> kspecem_in_speculative_emulation s \<longrightarrow> tr = spec_stats s)" by blast
  with False show ?thesis unfolding v_def [symmetric] by simp
qed

text \<open>A state after initialisation, outside a speculation.\<close>

definition demo_idle :: "machine kstate" where
  "demo_idle = demo_spec\<lparr>kspecem_in_speculative_emulation := False, kspecem_writelog_enabled := False,
     kspecem_is_in_rt := False, kspecem_wl_position := 0, kspecem_whitelist_type := KSPECEM_WHITELIST_SYSCALL,
     kspecem_registers_ptr := 0xffffffff82000100\<rparr>"

lemma demo_idle_ok:
  "kspecem_wl_stack demo_idle \<noteq> 0" "kspecem_spec_statistics (spec_stats demo_idle) \<noteq> 0"
  "0 \<in> set (take 16 (current_comm plain_kernel (cpu demo_idle)))"
  "irq_flags plain_kernel (cpu demo_idle) = 0x200" "may_checkpoint plain_kernel demo_idle"
proof -
  have "whitelisted_name (map of_char ''ls'')" by (simp add: whitelisted_name_def)
  moreover have c: "current_comm plain_kernel (cpu demo_idle) = c_string ''ls''"
    by (simp add: plain_kernel_def c_string_def)
  moreover have "0 \<in> set (take 16 (c_string ''ls''))" by (simp add: c_string_def)
  moreover have "cstr (c_string ''ls'') = map of_char ''ls''" by (simp add: c_string_def)
  ultimately have "kspecem_is_whitelist_task KSPECEM_WHITELIST_SYSCALL 1000 (current_comm plain_kernel (cpu demo_idle)) = Inr True"
    by (simp add: kspecem_is_whitelist_task_def task_name_matches_eq)
  then show "may_checkpoint plain_kernel demo_idle"
    by (simp add: may_checkpoint_def) (simp add: demo_idle_def demo_spec_def boot_state_def plain_kernel_def plain_machine_def)
  show "0 \<in> set (take 16 (current_comm plain_kernel (cpu demo_idle)))" by (simp add: c c_string_def)
qed (simp_all add: demo_idle_def demo_spec_def kspecem_statistics_init_def irq_flags_def plain_kernel_def
    boot_state_def plain_machine_def)

theorem kspecem_hook_new_checkpoint_iff_witness:
  "kspecem_hook_new_checkpoint plain_kernel demo_site demo_site demo_idle =
    Ret 0x200 (checkpointed (ret_addr demo_site) (entered plain_kernel demo_idle))"
proof -
  have "irq_flags plain_kernel (cpu demo_idle) \<noteq> - 1" by (simp add: demo_idle_ok)
  from kspecem_hook_new_checkpoint_iff [OF demo_idle_ok(1-3) this, of demo_site demo_site]
  show ?thesis by (simp add: demo_idle_ok)
qed

section \<open>Redirecting accesses\<close>

text \<open>
  C36. During a speculation the access hook hands an access to the dummy page exactly when its
  address is not mapped and it is smaller than a page (an access of exactly one page is not
  redirected); the interrupt state is unchanged and the runtime flag is cleared.
\<close>

theorem kspecem_hook_access_redirects:
  assumes "kernel_ok k" and "kspecem_init_done s" and "kspecem_in_speculative_emulation s"
  shows "kspecem_hook_access k sta ptr sz s =
    Ret (if \<not> kdf_virt_addr_valid k (quiet_cpu k (cpu s)) ptr \<and> unat sz < 4096 then pf_dummy_region s else ptr)
      (s\<lparr>kspecem_is_in_rt := False\<rparr>)"
proof -
  have "sz < DUMMY_REGION_SIZE \<longleftrightarrow> unat sz < 4096"
    by (simp add: DUMMY_REGION_SIZE_def PAGE_SIZE_def word_less_nat_alt)
  then show ?thesis
    using assms
    by (simp add: kspecem_hook_access_def ifM_apply CHECK_KSPECEM_INIT_def bindM_apply enter_nonmi_eq
        kspecem_access_def thenM_apply leave_nonmi_eq)
qed

theorem kspecem_hook_access_redirects_witness:
  "let k = plain_kernel\<lparr>kdf_virt_addr_valid := (\<lambda>_ _. False)\<rparr> in
   kspecem_hook_access k demo_site 0x10 8 demo_spec = Ret (pf_dummy_region demo_spec) (demo_spec\<lparr>kspecem_is_in_rt := False\<rparr>)
   \<and> kspecem_hook_access k demo_site 0x10 4096 demo_spec = Ret 0x10 (demo_spec\<lparr>kspecem_is_in_rt := False\<rparr>)"
proof -
  let ?k = "plain_kernel\<lparr>kdf_virt_addr_valid := (\<lambda>_ _. False)\<rparr>"
  have k: "kernel_ok ?k" using plain_kernel_ok by (simp add: kernel_ok_def)
  have s: "kspecem_init_done demo_spec" "kspecem_in_speculative_emulation demo_spec"
    by (simp_all add: demo_spec_def)
  show ?thesis
    using kspecem_hook_access_redirects [OF k s, of demo_site "0x10" 8]
      kspecem_hook_access_redirects [OF k s, of demo_site "0x10" 4096]
    by (simp add: Let_def)
qed

end
