(* ===== verification/KInit.thy ===== *)
theory KInit
  imports KInterface
begin

text \<open>
  Start-up (\<open>static/kspecem/kspecem_init.c\<close>): what runs at boot, and the initialisation the
  debugfs file \<open>enable\<close> triggers. The results of the allocations are arguments.
\<close>

section \<open>Definitions\<close>

record allocations =
  al_statistics :: u64
  al_inlineasm :: bool
  al_total :: bool
  al_map :: bool
  al_block :: "nat \<Rightarrow> bool"
  al_bugs :: addr
  al_stack :: addr
  al_wl_addrs :: addr
  al_wl_data :: addr
  al_wl_meta :: addr
  al_dummy :: addr

definition kspecem_common_late_init :: "'c kernel \<Rightarrow> site \<Rightarrow> allocations \<Rightarrow> ('c, unit) kop" where
  "kspecem_common_late_init k sta al =
     whenM (\<lambda>s. \<not> kspecem_init_done s)
      (bindM (ENTER_KSPECEM_RT k) (\<lambda>flags.
        seqM
         [modifyM (\<lambda>s. s\<lparr>spec_stats := kspecem_statistics_init (al_statistics al)\<rparr>),
          modifyM (\<lambda>s. s\<lparr>inlineasm := kspecem_stats_inlineasm_init (al_inlineasm al) (inlineasm s)\<rparr>),
          modifyM (\<lambda>s. s\<lparr>kspecem_total_statistics := kspecem_stats_restarts_init (al_total al)\<rparr>),
          kspecem_report_init (assert_restart k sta) k (al_map al) (al_block al) (al_bugs al),
          kspecem_init_data,
          modifyM (\<lambda>s. s\<lparr>kspecem_registers_ptr := adr_registers k\<rparr>),
          kspecem_stack_init (assert_restart k sta) (al_stack al),
          kspecem_writelog_init (assert_restart k sta) (al_wl_addrs al) (al_wl_data al) (al_wl_meta al),
          kspecem_init_pf_checker (al_dummy al),
          LEAVE_KSPECEM_RT (assert_restart k sta) k ''kspecem_init.c'' ''83'' flags,
          modifyM (\<lambda>s. s\<lparr>kspecem_init_done := True\<rparr>)]))"

text \<open>The read handlers of two debugfs files; \<open>kdfsan_enable\<close> is a parameter.\<close>

definition kspecem_restart_stats :: "'c kernel \<Rightarrow> site \<Rightarrow> ('c, int) kop" where
  "kspecem_restart_stats k sta = thenM (kspecem_hook_print_restart_statistics k sta) (returnM 0)"

definition kspecem_enable :: "('c, int) kop \<Rightarrow> 'c kernel \<Rightarrow> site \<Rightarrow> allocations \<Rightarrow> ('c, int) kop" where
  "kspecem_enable kdfsan_enable k sta al =
     bindM kdfsan_enable (\<lambda>r.
       thenM (if r = - 1 then kspecem_common_late_init k sta al else returnM ()) (returnM 0))"

section \<open>Debugfs\<close>

text \<open>
  The files of the directory \<open>kasper\<close>. Two of them have a read handler; the other six are bound to a global
  variable. Creating files is kernel code: \<open>'d\<close> is its type of directories.
\<close>

datatype debugfs_fops = Kspecem_restart_stats_fops | Kspecem_enable_fops

datatype debugfs_var =
    Whitelist_type | Max_call_depth | Print_level | Swap_branch_enabled | Report_error_dump_stack
  | Inlineasm_restart_stats_enabled

record ('c, 'd) debugfs =
  debugfs_create_dir :: "string \<Rightarrow> ('c, 'd) kop"
  debugfs_create_file :: "string \<Rightarrow> nat \<Rightarrow> 'd \<Rightarrow> debugfs_fops \<Rightarrow> ('c, unit) kop"
  debugfs_create_u8 :: "string \<Rightarrow> nat \<Rightarrow> 'd \<Rightarrow> debugfs_var \<Rightarrow> ('c, unit) kop"
  debugfs_create_u32 :: "string \<Rightarrow> nat \<Rightarrow> 'd \<Rightarrow> debugfs_var \<Rightarrow> ('c, unit) kop"
  debugfs_create_bool :: "string \<Rightarrow> nat \<Rightarrow> 'd \<Rightarrow> debugfs_var \<Rightarrow> ('c, unit) kop"

primrec fops_get ::
  "('c, int) kop \<Rightarrow> 'c kernel \<Rightarrow> site \<Rightarrow> allocations \<Rightarrow> debugfs_fops \<Rightarrow> ('c, int) kop" where
  "fops_get kdfsan_enable k sta al Kspecem_restart_stats_fops = kspecem_restart_stats k sta"
| "fops_get kdfsan_enable k sta al Kspecem_enable_fops = kspecem_enable kdfsan_enable k sta al"

text \<open>
  A store through the pointer a file is created with. Two 4-byte enumerations are passed as
  pointers to a byte: only their low byte changes.
\<close>

definition set_low_byte :: "u32 \<Rightarrow> u8 \<Rightarrow> u32" where
  "set_low_byte x b = (x AND NOT 0xFF) OR ucast b"

primrec debugfs_write :: "debugfs_var \<Rightarrow> u32 \<Rightarrow> 'c kstate \<Rightarrow> 'c kstate" where
  "debugfs_write Whitelist_type v s = s\<lparr>kspecem_whitelist_type := set_low_byte (kspecem_whitelist_type s) (ucast v)\<rparr>"
| "debugfs_write Max_call_depth v s = s\<lparr>kspecem_max_call_depth := v\<rparr>"
| "debugfs_write Print_level v s = s\<lparr>kspecem_print_level := set_low_byte (kspecem_print_level s) (ucast v)\<rparr>"
| "debugfs_write Swap_branch_enabled v s = s\<lparr>kspecem_swap_branch_enabled := v \<noteq> 0\<rparr>"
| "debugfs_write Report_error_dump_stack v s = s\<lparr>kspecem_report_error_dump_stack := v \<noteq> 0\<rparr>"
| "debugfs_write Inlineasm_restart_stats_enabled v s =
     s\<lparr>inlineasm := (inlineasm s)\<lparr>kspecem_inlineasm_restart_stats_enabled := v \<noteq> 0\<rparr>\<rparr>"

text \<open>The modes are \<open>0444\<close> and \<open>0666\<close>.\<close>

definition kspecem_init :: "('c, 'd) debugfs \<Rightarrow> ('c, int) kop" where
  "kspecem_init d =
     thenM (printk (Printk ''KSpecEm: Initializing...''))
      (bindM (debugfs_create_dir d ''kasper'') (\<lambda>kasper_dir.
        thenM
         (seqM
           [debugfs_create_file d ''restarts'' 292 kasper_dir Kspecem_restart_stats_fops,
            debugfs_create_file d ''enable'' 292 kasper_dir Kspecem_enable_fops,
            debugfs_create_u8 d ''whitelist'' 438 kasper_dir Whitelist_type,
            debugfs_create_u32 d ''call_depth'' 438 kasper_dir Max_call_depth,
            debugfs_create_u8 d ''print_reports'' 438 kasper_dir Print_level,
            debugfs_create_bool d ''spec_enabled'' 438 kasper_dir Swap_branch_enabled,
            debugfs_create_bool d ''calltrace_enabled'' 438 kasper_dir Report_error_dump_stack,
            debugfs_create_bool d ''inlineasm_restart_stats_enabled'' 438 kasper_dir Inlineasm_restart_stats_enabled,
            modifyM (\<lambda>s. s\<lparr>kspecem_whitelist_type := kspecem_whitelist_init\<rparr>),
            printk (Printk ''KSpecEm: Initializing done.'')])
         (returnM 0)))"

section \<open>What initialisation establishes\<close>

definition allocated :: "allocations \<Rightarrow> bool" where
  "allocated al \<longleftrightarrow> al_statistics al \<noteq> 0 \<and> al_inlineasm al \<and> al_total al \<and> al_map al \<and> (\<forall>i. al_block al i)
     \<and> al_bugs al \<noteq> 0 \<and> al_stack al \<noteq> 0 \<and> al_wl_addrs al \<noteq> 0 \<and> al_wl_data al \<noteq> 0 \<and> al_wl_meta al \<noteq> 0"

text \<open>The runtime is initialised and idle.\<close>

definition rt_ready :: "'c kernel \<Rightarrow> 'c kstate \<Rightarrow> bool" where
  "rt_ready k s \<longleftrightarrow> kspecem_init_done s \<and> \<not> kspecem_is_in_rt s \<and> \<not> kspecem_in_speculative_emulation s
     \<and> \<not> kspecem_writelog_enabled s \<and> \<not> kspecem_swap_branch_condition s \<and> kspecem_wl_position s = 0
     \<and> stats_ready s \<and> spec_statistics_wf (spec_stats s) \<and> map_ready k s \<and> bugs_wf s
     \<and> kspecem_next_bug_index s = 0 \<and> kspecem_wl_stack s \<noteq> 0 \<and> kspecem_writelog_addrs s \<noteq> 0
     \<and> kspecem_writelog_data s \<noteq> 0 \<and> kspecem_writelog_meta s \<noteq> 0"

definition late_init_body :: "'c kernel \<Rightarrow> site \<Rightarrow> allocations \<Rightarrow> ('c, unit) kop list" where
  "late_init_body k sta al =
     [modifyM (\<lambda>s. s\<lparr>spec_stats := kspecem_statistics_init (al_statistics al)\<rparr>),
      modifyM (\<lambda>s. s\<lparr>inlineasm := kspecem_stats_inlineasm_init (al_inlineasm al) (inlineasm s)\<rparr>),
      modifyM (\<lambda>s. s\<lparr>kspecem_total_statistics := kspecem_stats_restarts_init (al_total al)\<rparr>),
      kspecem_report_init (assert_restart k sta) k (al_map al) (al_block al) (al_bugs al),
      kspecem_init_data,
      modifyM (\<lambda>s. s\<lparr>kspecem_registers_ptr := adr_registers k\<rparr>),
      kspecem_stack_init (assert_restart k sta) (al_stack al),
      kspecem_writelog_init (assert_restart k sta) (al_wl_addrs al) (al_wl_data al) (al_wl_meta al),
      kspecem_init_pf_checker (al_dummy al)]"

lemma late_init_body_runs:
  assumes "allocated al"
  shows "\<exists>t. seqM (late_init_body k sta al) s = Ret () t \<and> cpu t = cpu s
    \<and> rt_ready k (t\<lparr>kspecem_init_done := True, kspecem_is_in_rt := False\<rparr>)"
  using assms
  by (auto simp: late_init_body_def km_simps kspecem_report_init_def kspecem_report_clear_globals_def
      kspecem_init_data_def kspecem_stack_init_def kspecem_writelog_init_def kspecem_init_pf_checker_def
      printk_def allocated_def rt_ready_def stats_ready_def map_ready_def bugs_wf_def spec_statistics_wf_def
      kspecem_statistics_init_def kspecem_stats_inlineasm_init_def kspecem_stats_restarts_init_def)

text \<open>
  C32. When every allocation succeeds, the late initialisation returns with the runtime ready: no
  speculation, an empty log, empty and allocated tables, the interrupt state of the caller, and
  only then \<open>kspecem_init_done\<close> set.
\<close>

theorem kspecem_common_late_init_ready:
  assumes "kernel_ok k" and "allocated al" and "\<not> kspecem_init_done s"
  shows "\<exists>t. kspecem_common_late_init k sta al s = Ret () t \<and> rt_ready k t \<and> cpu t = cpu s"
proof -
  obtain t where t: "seqM (late_init_body k sta al) (entered k s) = Ret () t" "cpu t = cpu (entered k s)"
    "rt_ready k (t\<lparr>kspecem_init_done := True, kspecem_is_in_rt := False\<rparr>)"
    using late_init_body_runs [OF assms(2)] by blast
  have "kspecem_common_late_init k sta al s = seqM (late_init_body k sta al @
      [LEAVE_KSPECEM_RT (assert_restart k sta) k ''kspecem_init.c'' ''83'' (irq_flags k (cpu s)),
       modifyM (\<lambda>s. s\<lparr>kspecem_init_done := True\<rparr>)]) (entered k s)"
    using assms(3) unfolding late_init_body_def
    by (simp add: kspecem_common_late_init_def whenM_apply bindM_apply enter_eq entered_def del: seqM.simps)
  also have "\<dots> = Ret () (t\<lparr>cpu := cpu s, kspecem_is_in_rt := False, kspecem_init_done := True\<rparr>)"
    unfolding seqM_append using t(1,2) leave_eq [OF assms(1), of t "cpu s"]
    by (simp add: thenM_apply entered_def)
  finally show ?thesis
    using t(3) by (auto simp: rt_ready_def stats_ready_def map_ready_def bugs_wf_def)
qed

definition demo_allocations :: allocations where
  "demo_allocations = \<lparr>al_statistics = 0x1000, al_inlineasm = True, al_total = True, al_map = True,
     al_block = (\<lambda>_. True), al_bugs = 0x2000, al_stack = 0x3000, al_wl_addrs = 0x100000,
     al_wl_data = 0x300000, al_wl_meta = 0x500000, al_dummy = 0x700000\<rparr>"

theorem kspecem_common_late_init_ready_witness:
  "\<exists>t. kspecem_common_late_init plain_kernel demo_site demo_allocations
      (boot_state (\<lambda>_. 0) (\<lambda>_. 0) plain_machine) = Ret () t \<and> rt_ready plain_kernel t"
proof -
  have "allocated demo_allocations" by (simp add: allocated_def demo_allocations_def)
  moreover have "\<not> kspecem_init_done (boot_state (\<lambda>_. 0) (\<lambda>_. 0) plain_machine)" by (simp add: boot_state_def)
  ultimately show ?thesis
    using kspecem_common_late_init_ready [OF plain_kernel_ok] by blast
qed

text \<open>
  C33. A failed allocation of one of the arrays the write log and the saved stack live in stops the
  kernel: initialisation panics and \<open>kspecem_init_done\<close> is never set.
\<close>

theorem kspecem_common_late_init_alloc_failure:
  assumes "al_map al" and "al_bugs al = 0 \<or> al_stack al = 0 \<or> al_wl_addrs al = 0 \<or> al_wl_data al = 0 \<or> al_wl_meta al = 0"
    and "\<not> kspecem_init_done s" and "\<not> kspecem_in_speculative_emulation s"
  shows "\<exists>msg t. kspecem_common_late_init k sta al s = Panic msg t \<and> \<not> kspecem_init_done t"
proof -
  have "\<exists>msg t. seqM (late_init_body k sta al) (entered k s) = Panic msg t \<and> \<not> kspecem_init_done t"
    using assms unfolding late_init_body_def entered_def
    by (cases "al_bugs al = 0"; cases "al_stack al = 0"; cases "al_wl_addrs al = 0"; cases "al_wl_data al = 0")
      (simp_all add: km_simps kspecem_report_init_def kspecem_report_clear_globals_def
        kspecem_init_data_def kspecem_stack_init_def kspecem_writelog_init_def printk_def)
  moreover have "kspecem_common_late_init k sta al s = seqM (late_init_body k sta al @
      [LEAVE_KSPECEM_RT (assert_restart k sta) k ''kspecem_init.c'' ''83'' (irq_flags k (cpu s)),
       modifyM (\<lambda>s. s\<lparr>kspecem_init_done := True\<rparr>)]) (entered k s)"
    using assms(3) unfolding late_init_body_def
    by (simp add: kspecem_common_late_init_def whenM_apply bindM_apply enter_eq entered_def del: seqM.simps)
  ultimately show ?thesis by (auto simp: seqM_append thenM_apply)
qed

theorem kspecem_common_late_init_alloc_failure_witness:
  "\<exists>msg t. kspecem_common_late_init plain_kernel demo_site (demo_allocations\<lparr>al_wl_data := 0\<rparr>)
      (boot_state (\<lambda>_. 0) (\<lambda>_. 0) plain_machine) = Panic msg t \<and> \<not> kspecem_init_done t"
  by (rule kspecem_common_late_init_alloc_failure) (simp_all add: demo_allocations_def boot_state_def)

end
