(* ===== verification/KSpeculation.thy ===== *)
theory KSpeculation
  imports KInit
begin

text \<open>
  A speculation from its checkpoint to its end. The instrumented code (the calls inserted by
  \<open>passes/kspecem-spec/KSpecEmSpec.cpp\<close> before a conditional branch) takes the checkpoint,
  then runs with arbitrary stores, each after its hook, and calls the other hooks; the
  relation \<open>spec_step\<close> is one such step. Whatever happened in between, the restart gives back the
  checkpoint.
\<close>

section \<open>The instrumented branch\<close>

text \<open>The call of \<open>kspecem_asm_save_registers\<close> through \<open>kspecem_registers_ptr\<close>, with the flags
  register at the \<open>pushfq\<close>.\<close>

definition save_registers :: "u64 \<Rightarrow> u64 \<Rightarrow> ('c, unit) kop" where
  "save_registers eflags CI s =
     (if kspecem_registers_ptr s = 0 \<and> - 1 < sint CI then Fault ''kspecem_registers_ptr'' s
      else case kspecem_asm_save_registers CI eflags (kspecem_registers s) (hw s) (mem s) of
        (r, h, m) \<Rightarrow> Ret () (s\<lparr>kspecem_registers := r, hw := h, mem := m\<rparr>))"

definition insertNewCheckpointHook ::
  "'c kernel \<Rightarrow> site \<Rightarrow> site \<Rightarrow> addr \<Rightarrow> addr \<Rightarrow> u64 \<Rightarrow> ('c, unit) kop" where
  "insertNewCheckpointHook k st sta fp frameAddress eflags =
     bindM (kspecem_hook_new_checkpoint k st sta) (\<lambda>CI.
       seqM [kspecem_hook_save_stack k sta fp CI frameAddress,
             save_registers eflags CI,
             kspecem_hook_leave_rt k sta CI])"

text \<open>The code inserted between the checkpoint and the branch; its result is the condition the
  program branches on.\<close>

definition swapCondition :: "bool \<Rightarrow> ('c, bool) kop" where
  "swapCondition condition =
     bindM (getM (\<lambda>s. if kspecem_swap_branch_condition s then \<not> condition else condition)) (\<lambda>newCondition.
       thenM (modifyM (\<lambda>s. s\<lparr>kspecem_swap_branch_condition := False\<rparr>)) (returnM newCondition))"

definition visitBranchInst ::
  "'c kernel \<Rightarrow> site \<Rightarrow> site \<Rightarrow> addr \<Rightarrow> addr \<Rightarrow> u64 \<Rightarrow> bool \<Rightarrow> ('c, bool) kop" where
  "visitBranchInst k st sta fp frameAddress eflags condition =
     thenM (insertNewCheckpointHook k st sta fp frameAddress eflags) (swapCondition condition)"

text \<open>What is left of it after the call that saves the registers, with the result \<open>CI\<close> of
  \<open>kspecem_hook_new_checkpoint\<close>: a restart continues here.\<close>

definition branch_rest :: "'c kernel \<Rightarrow> site \<Rightarrow> u64 \<Rightarrow> bool \<Rightarrow> ('c, bool) kop" where
  "branch_rest k sta CI condition = thenM (kspecem_hook_leave_rt k sta CI) (swapCondition condition)"

lemma visitBranchInst_split:
  "visitBranchInst k st sta fp frameAddress eflags condition =
     bindM (kspecem_hook_new_checkpoint k st sta) (\<lambda>CI.
       thenM (thenM (kspecem_hook_save_stack k sta fp CI frameAddress) (save_registers eflags CI))
         (branch_rest k sta CI condition))"
  by (rule ext) (simp add: visitBranchInst_def insertNewCheckpointHook_def branch_rest_def bindM_apply thenM_apply
      split: outcome.split)

section \<open>A step of a speculation\<close>

inductive spec_step :: "'c kernel \<Rightarrow> 'c kstate \<Rightarrow> 'c kstate \<Rightarrow> bool" for k :: "'c kernel" where
  store: "kspecem_hook_store k st sta a s = Ret () t \<Longrightarrow> kernel_ok k \<Longrightarrow> log_ready s (length (granules a))
    \<Longrightarrow> \<forall>g \<in> set (granules a). loggable k s g \<Longrightarrow> length bs \<le> 8
    \<Longrightarrow> spec_step k s (t\<lparr>mem := write_bytes (mem t) a bs\<rparr>)"
| copy: "kspecem_hook_memcpy k st sta a sz s = Ret () t \<Longrightarrow> kernel_ok k \<Longrightarrow> range_ok a sz
    \<Longrightarrow> log_ready s (length (memcpy_granules a sz)) \<Longrightarrow> \<forall>g \<in> set (memcpy_granules a sz). loggable k s g
    \<Longrightarrow> length bs = unat sz \<Longrightarrow> spec_step k s (t\<lparr>mem := write_bytes (mem t) a bs\<rparr>)"
| code: "spec_step k s (s\<lparr>hw := r, cpu := c\<rparr>)"
| branch: "swapCondition b s = Ret b' t \<Longrightarrow> spec_step k s t"
| block: "kspecem_hook_check_spec_length k st sta n s = Ret () t \<Longrightarrow> spec_step k s t"
| call: "kspecem_hook_check_call_depth k st sta s = Ret () t \<Longrightarrow> spec_step k s t"
| return: "kspecem_hook_restart k st 0 ty ca s = Ret r t \<Longrightarrow> spec_step k s t"
| checkpoint: "kspecem_hook_new_checkpoint k st sta s = Ret f t \<Longrightarrow> spec_step k s t"
| access: "kspecem_hook_access k sta ptr sz s = Ret ptr' t \<Longrightarrow> spec_step k s t"
| kasan: "kspecem_hook_kasan_report k sta a sz w ip s = Ret b t \<Longrightarrow> spec_step k s t"
| ridl: "kspecem_hook_ridl_report k sta a sz w ip dl pl s = Ret () t \<Longrightarrow> spec_step k s t"
| specv1: "kspecem_hook_specv1_report k sta a sz w ip dl pl s = Ret () t \<Longrightarrow> spec_step k s t"
| smother: "kspecem_hook_smotherspectre_report k sta ip lab s = Ret () t \<Longrightarrow> spec_step k s t"

section \<open>Hooks that leave the checkpoint alone\<close>

text \<open>\<open>v\<close> holds what the rollback uses. During a speculation it is changed by the store hooks only.\<close>

definition frozen :: "'c kstate \<Rightarrow> 'c kstate \<Rightarrow> bool" where
  "frozen v s \<longleftrightarrow> kspecem_in_speculative_emulation s \<and> kspecem_init_done s \<and> log_view s = log_view v
     \<and> kspecem_registers s = kspecem_registers v"

lemma frozen_simps [simp]:
  "frozen v (s\<lparr>kspecem_spec_assert := x1\<rparr>) = frozen v s" "frozen v (s\<lparr>spec_stats := x2\<rparr>) = frozen v s"
  "frozen v (s\<lparr>kspecem_is_in_restart := x3\<rparr>) = frozen v s" "frozen v (s\<lparr>kspecem_is_in_rt := x3\<rparr>) = frozen v s"
  "frozen v (s\<lparr>kspecem_spec_call_depth := x4\<rparr>) = frozen v s" "frozen v (s\<lparr>cpu := x5\<rparr>) = frozen v s"
  "frozen v (s\<lparr>kspecem_speculative_instr_count := x6\<rparr>) = frozen v s" "frozen v (s\<lparr>hw := x7\<rparr>) = frozen v s"
  "frozen v (s\<lparr>kspecem_swap_branch_condition := x8\<rparr>) = frozen v s"
  "frozen v (s\<lparr>kspecem_total_statistics := x11\<rparr>) = frozen v s" "frozen v (s\<lparr>inlineasm := x12\<rparr>) = frozen v s"
  "frozen v (s\<lparr>kspecem_next_bug_index := x9\<rparr>) = frozen v s" "frozen v (s\<lparr>kspecem_bugs := x10\<rparr>) = frozen v s"
  by (simp_all add: frozen_def log_view_def)

lemma frozen_in_spec: "frozen v s \<Longrightarrow> kspecem_in_speculative_emulation s"
  by (simp add: frozen_def)

lemma keeps_frozen_statistics [keeps_rules]:
  "keeps (frozen v) R (add_spec_statistics f a b c r)" "keeps (frozen v) R (add_restart_to_statistics ty ca)"
  by (auto simp: keeps_def hoare_def add_spec_statistics_def add_restart_to_statistics_def split: option.splits)

text \<open>A restart from the instrumented code returns only for the return of a nested call.\<close>

lemma restore_writelog_result: "hoare P (kspecem_restore_writelog rst k st fa regs) (\<lambda>r _. r = 0) R"
  if "\<And>s. R s"
  unfolding kspecem_restore_writelog_def
  by (auto simp: hoare_def km_simps that split: outcome.split)

lemma hoare_trivial: "hoare P m (\<lambda>_ _. True) (\<lambda>_. True)"
  by (simp add: hoare_def split: outcome.split)

lemma restart_rollback_no_return:
  "hoare P (restart_rollback rst k st 0 ty fa regs) (\<lambda>_ _. False) (\<lambda>_. True)"
  unfolding restart_rollback_def
proof (rule hoare_then [OF hoare_trivial], rule hoare_bind [OF restore_writelog_result], simp)
  fix r :: int
  have end_here: "hoare (\<lambda>_. True) (bindM (getM kspecem_spec_assert) (\<lambda>a. case assert_fmt a of
      Some fmt \<Rightarrow> panicM [fmt, assert_file a, assert_line a, assert_condition a]
    | None \<Rightarrow> if (0 :: u64) = 0 then thenM (modifyM (\<lambda>s. s\<lparr>kspecem_is_in_rt := False\<rparr>)) kspecem_restore_registers
        else returnM 0)) (\<lambda>_ _. False) (\<lambda>_. True)"
    by (auto simp: hoare_def bindM_apply then_modify kspecem_restore_registers_def split: option.splits prod.splits)
  show "hoare (\<lambda>_. r = 0) (if r = - 1 then returnM (- 1) else thenM m (bindM (getM kspecem_spec_assert) (\<lambda>a. case assert_fmt a of
      Some fmt \<Rightarrow> panicM [fmt, assert_file a, assert_line a, assert_condition a]
    | None \<Rightarrow> if (0 :: u64) = 0 then thenM (modifyM (\<lambda>s. s\<lparr>kspecem_is_in_rt := False\<rparr>)) kspecem_restore_registers
        else returnM 0))) (\<lambda>_ _. False) (\<lambda>_. True)" for m
  proof (cases "r = - 1")
    case False
    then show ?thesis using hoare_then [OF hoare_trivial end_here] by (simp only: if_False)
  qed (simp add: hoare_def)
qed

lemma restart_no_return:
  assumes "ty \<noteq> KSPECEM_RESTART_RETURN"
  shows "hoare kspecem_in_speculative_emulation (kspecem_restart k st 0 ty ca fa regs) (\<lambda>_ _. False) (\<lambda>_. True)"
  unfolding kspecem_restart_def kspecem_restart_with_def
  apply (rule hoare_if)
   apply (simp add: hoare_def)
  apply (rule hoare_then [OF hoare_trivial])
  apply (intro hoare_if)
    apply (use assms in \<open>simp add: hoare_def\<close>)
   apply (rule hoare_then [OF hoare_trivial restart_rollback_no_return])
  apply (rule restart_rollback_no_return)
  done

lemma keeps_rollback [keeps_rules]: "keeps I (\<lambda>_. True) (restart_rollback rst k st 0 ty fa regs)"
  by (rule keeps_no_return [OF restart_rollback_no_return])

lemma keeps_restart [keeps_rules]: "keeps (frozen v) (\<lambda>_. True) (kspecem_restart k st 0 ty ca fa regs)"
  unfolding kspecem_restart_def kspecem_restart_with_def
  by (intro keeps_rules) simp_all

lemma keeps_enter_leave [keeps_rules]:
  "keeps (frozen v) R (ENTER_KSPECEM_RT k)" "keeps (frozen v) R (ENTER_KSPECEM_NONMI_RT k)"
  "keeps (frozen v) R rst \<Longrightarrow> keeps (frozen v) R (LEAVE_KSPECEM_RT rst k f l fl)"
  "keeps (frozen v) R rst \<Longrightarrow> keeps (frozen v) R (LEAVE_KSPECEM_NONMI_RT rst k f l fl)"
  unfolding ENTER_KSPECEM_RT_def ENTER_KSPECEM_NONMI_RT_def LEAVE_KSPECEM_RT_def LEAVE_KSPECEM_NONMI_RT_def
    kspecem_set_rt_def kspecem_unset_rt_def
  by (intro keeps_rules; simp)+

lemma keeps_hook_restart [keeps_rules]:
  "keeps (frozen v) (\<lambda>_. True) (kspecem_hook_restart k st 0 ty ca)"
  "keeps (frozen v) (\<lambda>_. True) (assert_restart k sta)"
  unfolding assert_restart_def kspecem_hook_restart_def kspecem_hook_restart_with_def CHECK_KSPECEM_INIT_def
  by (intro keeps_rules)+

lemma keeps_access_report [keeps_rules]:
  "keeps (frozen v) R rst \<Longrightarrow> keeps (frozen v) R (kspecem_access_report rst k a sz w ip dl pl ty)"
  unfolding kspecem_access_report_def
  by (intro keeps_whenM_False keeps_then keeps_bind keeps_if keeps_seq_Nil keeps_seq_Cons keeps_get keeps_fault
      keeps_modify keeps_lt_assert)
    (simp_all add: frozen_in_spec)

lemma keeps_hooks:
  "keeps (frozen v) (\<lambda>_. True) (kspecem_hook_check_spec_length k st sta n)"
  "keeps (frozen v) (\<lambda>_. True) (kspecem_hook_check_call_depth k st sta)"
  "keeps (frozen v) (\<lambda>_. True) (kspecem_hook_access k sta ptr sz)"
  "keeps (frozen v) (\<lambda>_. True) (kspecem_hook_kasan_report k sta a sz w ip)"
  "keeps (frozen v) (\<lambda>_. True) (kspecem_hook_ridl_report k sta a sz w ip dl pl)"
  "keeps (frozen v) (\<lambda>_. True) (kspecem_hook_specv1_report k sta a sz w ip dl pl)"
  "keeps (frozen v) (\<lambda>_. True) (kspecem_hook_smotherspectre_report k sta ip lab)"
  "keeps (frozen v) (\<lambda>_. True) (swapCondition b)"
  unfolding kspecem_hook_check_spec_length_def kspecem_hook_check_call_depth_def kspecem_hook_access_def
    kspecem_hook_kasan_report_def kspecem_hook_ridl_report_def kspecem_hook_specv1_report_def
    kspecem_hook_smotherspectre_report_def swapCondition_def kspecem_access_def
    CHECK_KSPECEM_INIT_def CHECK_KSPECEM_RT_def CHECK_KDFINIT_RT_def CHECK_KDFSAN_RT_def lt_panic_def
    kspecem_kasan_report_def kspecem_ridl_report_def kspecem_specv1_report_def kspecem_smotherspectre_report_def
  by (intro keeps_rules; simp)+

lemma keeps_hook_new_checkpoint:
  "keeps (frozen v) (\<lambda>_. True) (kspecem_hook_new_checkpoint k st sta)"
proof -
  have w: "keeps (frozen v) (\<lambda>_. True) (is_whitelist_task k)"
    by (auto simp: keeps_def hoare_def is_whitelist_task_def split: sum.splits)
  have e: "keeps (frozen v) (\<lambda>_. True) (ifM kspecem_in_speculative_emulation
      (thenM (add_spec_statistics KSPECEM_FUNC_NEW_CHECKPOINT_INSPEC 0 0 0 (ret_addr st)) (returnM (- 1))) m)" for m :: "('a, u64) kop"
    by (intro keeps_ifM_True keeps_rules frozen_in_spec)
  show ?thesis
    unfolding kspecem_hook_new_checkpoint_def CHECK_KSPECEM_RT_def
    by (rule e w keeps_ifM keeps_bind keeps_if keeps_return)+
qed

section \<open>The invariant of a speculation\<close>

text \<open>
  \<open>m0\<close> is memory at the checkpoint and \<open>c\<close> the state then: the log leads back to \<open>m0\<close>, and the
  saved frame and registers are those of \<open>c\<close>.
\<close>

definition spec_inv :: "memory \<Rightarrow> 'c kstate \<Rightarrow> 'c kstate \<Rightarrow> bool" where
  "spec_inv m0 c s \<longleftrightarrow> kspecem_in_speculative_emulation s \<and> kspecem_init_done s \<and> log_inv m0 s
     \<and> kspecem_registers s = kspecem_registers c \<and> wl_stack_bytes s = wl_stack_bytes c
     \<and> kspecem_wl_stack_base_address s = kspecem_wl_stack_base_address c
     \<and> kspecem_wl_stack_len s = kspecem_wl_stack_len c"

lemma spec_inv_frozen:
  assumes "spec_inv m0 c s" and "frozen s t"
  shows "spec_inv m0 c t"
proof -
  have v: "log_view t = log_view s" using assms(2) by (simp add: frozen_def)
  then have "mem t = mem s" by (simp add: log_view_def)
  with rollback_cong(1) [OF v] have "log_inv m0 t = log_inv m0 s" by (simp add: log_inv_def)
  with assms show ?thesis by (simp add: spec_inv_def frozen_def log_view_def)
qed

lemma frozen_refl: "spec_inv m0 c s \<Longrightarrow> frozen s s"
  by (simp add: spec_inv_def frozen_def)

lemma spec_inv_keeps:
  "spec_inv m0 c s \<Longrightarrow> keeps (frozen s) (\<lambda>_. True) m \<Longrightarrow> m s = Ret x t \<Longrightarrow> spec_inv m0 c t"
  using spec_inv_frozen frozen_refl unfolding keeps_def by (metis hoareD_Ret)

lemma spec_inv_logged_write:
  assumes "spec_inv m0 c s" and "log_ready s (length gs)" and "\<forall>g \<in> set gs. align8 g = g"
    and "\<And>x. unat (x - a) < length bs \<Longrightarrow> align8 x \<in> set gs"
  shows "spec_inv m0 c ((store_logged st gs s)\<lparr>mem := write_bytes (mem (store_logged st gs s)) a bs\<rparr>)"
proof -
  let ?f = "fold (logged st) gs s" and ?t = "store_logged st gs s"
  have w: "wl_list ?t = wl_list ?f" "mem ?t = mem ?f"
    unfolding wl_list_def using fold_logged(2) [of s gs 0] assms(2)
    by (auto simp: store_logged_def log_of_def intro!: log_entries_cong)
  have "log_inv m0 ?f" using assms by (intro log_inv_fold_logged) (simp_all add: spec_inv_def)
  then have "log_inv m0 ?t" by (simp add: log_inv_def w)
  then have "log_inv m0 (?t\<lparr>mem := write_bytes (mem ?t) a bs\<rparr>)"
    using logged_granules [OF assms(2), of st] assms(4)
    by (intro log_inv_write) (auto simp: w write_bytes_def split: if_splits)
  then show ?thesis using assms(1) by (simp add: spec_inv_def store_logged_def log_of_def)
qed

lemma spec_step_inv:
  assumes "spec_inv m0 c s" and "spec_step k s t"
  shows "spec_inv m0 c t"
  using assms(2,1)
proof cases
  case (store st sta a t' bs)
  have "kspecem_init_done s" using assms(1) by (simp add: spec_inv_def)
  with store have "t' = store_logged st (granules a) s" by (simp add: kspecem_hook_store_eq)
  moreover have "align8 x \<in> set (granules a)" if "unat (x - a) < length bs" for x
    using that store(6) by (intro granules_cover) simp
  ultimately show ?thesis
    using spec_inv_logged_write [OF assms(1), of "granules a" a bs st] store granules_aligned by auto
next
  case (copy st sta a sz t' bs)
  have "kspecem_init_done s" using assms(1) by (simp add: spec_inv_def)
  with copy have "t' = store_logged st (memcpy_granules a sz) s" by (simp add: kspecem_hook_memcpy_eq)
  moreover have "align8 x \<in> set (memcpy_granules a sz)" if "unat (x - a) < length bs" for x
    using that copy by (intro memcpy_granules_cover) simp_all
  ultimately show ?thesis
    using spec_inv_logged_write [OF assms(1), of "memcpy_granules a sz" a bs st] copy memcpy_granules_aligned by auto
next
  case (code r d)
  then show ?thesis using spec_inv_frozen [OF assms(1)] frozen_refl [OF assms(1)] by simp
qed (rule spec_inv_keeps [OF assms(1)], rule keeps_hooks keeps_hook_restart keeps_hook_new_checkpoint, assumption)+

interpretation spec_run: step_invariant "spec_step k" "spec_inv m0 c" for k m0 c
  by unfold_locales (rule spec_step_inv)

section \<open>From the checkpoint and back\<close>

definition in_frame :: "'c kstate \<Rightarrow> addr \<Rightarrow> bool" where
  "in_frame c x \<longleftrightarrow> unat (x - (kspecem_wl_stack_base_address c - kspecem_wl_stack_len c)) < unat (kspecem_wl_stack_len c)"

text \<open>The state \<open>c\<close> right after a checkpoint, with its memory saved as far as it has to be.\<close>

definition at_checkpoint :: "'c kstate \<Rightarrow> bool" where
  "at_checkpoint c \<longleftrightarrow> spec_inv (mem c) c c
     \<and> (\<forall>x. in_frame c x \<longrightarrow>
          wl_stack_bytes c (unat (x - (kspecem_wl_stack_base_address c - kspecem_wl_stack_len c))) = mem c x)"

text \<open>Addresses whose contents a restart gives back: all but the stack of the running restart
  (unless saved with the frame) and the word below the restored stack pointer.\<close>

definition given_back :: "site \<Rightarrow> 'c kstate \<Rightarrow> addr \<Rightarrow> bool" where
  "given_back st c x \<longleftrightarrow> \<not> unat (x - (kspecem_registers c RSP - 8)) < 8
     \<and> (in_frame c x \<or> \<not> skip_entry st (restart_frame st) 0 (align8 x))"

lemma rollback_mem_checkpoint:
  assumes "at_checkpoint c" and "spec_inv (mem c) c s"
    and "in_frame c x \<or> \<not> skip_entry st (restart_frame st) 0 (align8 x)"
  shows "rollback_mem st (restart_frame st) 0 s x = mem c x"
proof (cases "in_frame c x")
  case True
  with assms(1,2) show ?thesis
    by (simp add: rollback_mem_def memcpy_to_def at_checkpoint_def spec_inv_def in_frame_def)
next
  case False
  have "\<forall>e \<in> set (wl_list s). align8 (fst e) = fst e" "undo store64 (wl_list s) (mem s) = mem c"
    using assms(2) by (simp_all add: spec_inv_def log_inv_def)
  with u64_log.undo_filter [of "wl_list s" "\<lambda>a. \<not> skip_entry st (restart_frame st) 0 a" "mem s" x] False assms
  show ?thesis by (simp add: rollback_mem_def memcpy_to_def spec_inv_def in_frame_def)
qed

text \<open>
  The restart after any run: memory and registers are those of the checkpoint.
\<close>

lemma restart_gives_back:
  assumes "at_checkpoint c" and "(spec_step k)\<^sup>*\<^sup>* c s" and "can_end k st ty s"
  shows "\<exists>t. kspecem_hook_restart k st 0 ty ca s = Resume t
    \<and> (\<forall>x. given_back st c x \<longrightarrow> mem t x = mem c x)
    \<and> (\<forall>r \<in> preserved_regs \<union> {RIP, RSP, EFLAGS}. hw t r = kspecem_registers c r)
    \<and> \<not> kspecem_in_speculative_emulation t \<and> \<not> kspecem_writelog_enabled t \<and> kspecem_wl_position t = 0
    \<and> \<not> kspecem_is_in_rt t \<and> \<not> kspecem_swap_branch_condition t
    \<and> cpu t = stop_nmi k (quiet_cpu k (cpu s))"
proof -
  have inv: "spec_inv (mem c) c s"
    using spec_run.steps_inv [OF assms(2)] assms(1) by (simp add: at_checkpoint_def)
  let ?s = "s\<lparr>kspecem_is_in_rt := True, cpu := stop_nmi k (quiet_cpu k (cpu s))\<rparr>"
  have v: "log_view s = log_view ?s" by (simp add: log_view_def)
  have "can_end k st ty ?s"
    using assms(3) by (intro can_end_cong [OF v assms(3)]) (simp_all add: can_end_def stats_ready_def)
  then obtain t where t: "kspecem_restart k st 0 ty ca 0 0 ?s = Resume t"
    "mem t = store64 (rollback_mem st (restart_frame st) 0 s) (kspecem_registers s RSP - 8) (kspecem_registers s EFLAGS)"
    "\<forall>r \<in> preserved_regs \<union> {RIP, RSP, EFLAGS}. hw t r = kspecem_registers s r"
    "\<not> kspecem_in_speculative_emulation t" "\<not> kspecem_writelog_enabled t" "kspecem_wl_position t = 0"
    "\<not> kspecem_is_in_rt t" "\<not> kspecem_swap_branch_condition t" "cpu t = stop_nmi k (quiet_cpu k (cpu s))"
    using restart_resumes [of ty ?s k st 0 ca 0] unfolding rollback_cong(2) [OF v] by (auto simp: can_end_def)
  have regs: "kspecem_registers s = kspecem_registers c" using inv by (simp add: spec_inv_def)
  have "mem t x = mem c x" if "given_back st c x" for x
    unfolding t(2) regs using that rollback_mem_checkpoint [OF assms(1) inv]
    by (auto simp: given_back_def store64_def)
  moreover have "kspecem_hook_restart k st 0 ty ca s = Resume t"
    using t(1) inv
    by (simp add: kspecem_hook_restart_def kspecem_hook_restart_with_def CHECK_KSPECEM_INIT_def ifM_apply
        bindM_apply enter_eq spec_inv_def)
  ultimately show ?thesis using t(3-) unfolding regs by auto
qed

text \<open>What the code around a branch needs for its checkpoint: the frame fits the saved stack and
  does not contain the word the flags are pushed to.\<close>

definition frame_ok :: "'c kernel \<Rightarrow> addr \<Rightarrow> addr \<Rightarrow> 'c kstate \<Rightarrow> bool" where
  "frame_ok k fp frameAddress s \<longleftrightarrow> saved_frame_ok fp frameAddress s \<and> kspecem_registers_ptr s \<noteq> 0
     \<and> - 1 < sint (irq_flags k (cpu s))
     \<and> (\<forall>x. unat (x - (hw s RSP - 8)) < 8 \<longrightarrow>
          \<not> unat (x - (fp + 0x10)) < unat (frameAddress - (fp + 0x10)))"

definition after_checkpoint :: "'c kernel \<Rightarrow> site \<Rightarrow> addr \<Rightarrow> addr \<Rightarrow> u64 \<Rightarrow> 'c kstate \<Rightarrow> 'c kstate" where
  "after_checkpoint k st fp frameAddress eflags s =
     (let (r, h, m) = kspecem_asm_save_registers (irq_flags k (cpu s)) eflags (kspecem_registers s) (hw s) (mem s) in
      (checkpointed (ret_addr st) s)
        \<lparr>wl_stack_bytes := memcpy_from (mem s) (fp + 0x10) (frameAddress - (fp + 0x10)) (wl_stack_bytes s),
         kspecem_wl_stack_base_address := frameAddress, kspecem_wl_stack_len := frameAddress - (fp + 0x10),
         kspecem_registers := r, hw := h, mem := m, kspecem_is_in_rt := False\<rparr>)"

lemma checkpoint_runs:
  assumes "kernel_ok k" and "rt_ready k s" and "may_checkpoint k s" and "frame_ok k fp frameAddress s"
  shows "insertNewCheckpointHook k st sta fp frameAddress eflags s =
    Ret () (after_checkpoint k st fp frameAddress eflags s)"
proof -
  let ?f = "irq_flags k (cpu s)" and ?len = "frameAddress - (fp + 0x10)"
  let ?c = "after_checkpoint k st fp frameAddress eflags s"
  have f: "?f \<noteq> - 1" using assms(4) by (auto simp: frame_ok_def)
  define s1 where "s1 = checkpointed (ret_addr st) (entered k s)"
  have n: "kspecem_hook_new_checkpoint k st sta s = Ret ?f s1"
    unfolding s1_def using assms(2,3) by (intro new_checkpoint_taken) (simp_all add: rt_ready_def stats_ready_def)
  have 1: "saved_frame_ok fp frameAddress s1" "cpu s1 = stop_nmi k (quiet_cpu k (cpu s))" "kspecem_registers_ptr s1 \<noteq> 0"
    using assms(4) by (simp_all add: s1_def checkpointed_def entered_def frame_ok_def saved_frame_ok_def)
  define s2 where "s2 = s1\<lparr>wl_stack_bytes := memcpy_from (mem s1) (fp + 0x10) ?len (wl_stack_bytes s1),
       kspecem_wl_stack_base_address := frameAddress, kspecem_wl_stack_len := ?len\<rparr>"
  have sv: "kspecem_hook_save_stack k sta fp ?f frameAddress s1 = Ret () s2"
    using f kspecem_save_stack_saves [OF 1(1)] by (simp add: kspecem_hook_save_stack_def s2_def)
  define s3 where "s3 = ?c\<lparr>kspecem_is_in_rt := True, cpu := cpu s1\<rparr>"
  have rg: "save_registers eflags ?f s2 = Ret () s3"
    using 1 by (simp add: save_registers_def s3_def s2_def s1_def after_checkpoint_def checkpointed_def entered_def
        split: prod.splits)
  have lv: "kspecem_hook_leave_rt k sta ?f s3 = Ret () ?c"
    using f leave_eq [OF assms(1), of s3 "cpu s"] 1(2)
    by (simp add: kspecem_hook_leave_rt_def s3_def) (simp add: after_checkpoint_def checkpointed_def split: prod.splits)
  show ?thesis using n sv rg lv by (simp add: insertNewCheckpointHook_def bindM_apply thenM_apply)
qed

lemma after_checkpoint_fields:
  fixes st :: site and eflags :: u64
  assumes "frame_ok k fp frameAddress s"
  defines "c \<equiv> after_checkpoint k st fp frameAddress eflags s"
  shows "mem c = store64 (mem s) (hw s RSP - 8) eflags"
    and "kspecem_registers c RIP = load64 (mem s) (hw s RSP)" and "kspecem_registers c RSP = hw s RSP + 8"
    and "\<forall>r \<in> preserved_regs. kspecem_registers c r = hw s r"
    and "cpu c = cpu s" and "\<not> kspecem_is_in_rt c" and "kspecem_in_speculative_emulation c"
    and "kspecem_swap_branch_condition c = (kspecem_swap_branch_enabled s \<or> kspecem_swap_branch_condition s)"
    and "kspecem_init_done c = kspecem_init_done s" and "kspecem_wl_position c = 0"
    and "kspecem_registers c EFLAGS = eflags"
proof -
  have "\<not> sint (irq_flags k (cpu s)) \<le> - 1" using assms(1) by (simp add: frame_ok_def)
  then show "mem c = store64 (mem s) (hw s RSP - 8) eflags"
    "kspecem_registers c RIP = load64 (mem s) (hw s RSP)" "kspecem_registers c RSP = hw s RSP + 8"
    "\<forall>r \<in> preserved_regs. kspecem_registers c r = hw s r"
    "cpu c = cpu s" "\<not> kspecem_is_in_rt c" "kspecem_in_speculative_emulation c"
    "kspecem_swap_branch_condition c = (kspecem_swap_branch_enabled s \<or> kspecem_swap_branch_condition s)"
    "kspecem_init_done c = kspecem_init_done s" "kspecem_wl_position c = 0" "kspecem_registers c EFLAGS = eflags"
    by (auto simp: c_def after_checkpoint_def checkpointed_def kspecem_asm_save_registers_def Let_def preserved_regs_def)
qed

lemma after_checkpoint_at_checkpoint:
  assumes "frame_ok k fp frameAddress s" and "kspecem_init_done s"
  shows "at_checkpoint (after_checkpoint k st fp frameAddress eflags s)"
proof -
  let ?c = "after_checkpoint k st fp frameAddress eflags s"
  note c = after_checkpoint_fields [OF assms(1), of st eflags]
  have "spec_inv (mem ?c) ?c ?c"
    using log_inv_empty [OF c(10)] c(7,9) assms(2) by (simp add: spec_inv_def)
  moreover have "wl_stack_bytes ?c (unat (x - (kspecem_wl_stack_base_address ?c - kspecem_wl_stack_len ?c))) = mem ?c x"
    if "in_frame ?c x" for x
  proof -
    have w: "wl_stack_bytes ?c = memcpy_from (mem s) (fp + 0x10) (frameAddress - (fp + 0x10)) (wl_stack_bytes s)"
      "kspecem_wl_stack_base_address ?c = frameAddress" "kspecem_wl_stack_len ?c = frameAddress - (fp + 0x10)"
      by (simp_all add: after_checkpoint_def split: prod.splits)
    show ?thesis
      using that assms(1) unfolding in_frame_def w c(1)
      by (auto simp: memcpy_from_def store64_def frame_ok_def)
  qed
  ultimately show ?thesis by (simp add: at_checkpoint_def)
qed

text \<open>
  The instrumented code before a branch takes a checkpoint: when the hook's conditions hold, the
  inserted calls return to the program in the state of a fresh speculation in which a restart
  gives back memory (\<open>at_checkpoint\<close>); the branch condition will be swapped if swapping is
  enabled, the registers to come back to are the program's own, interrupts are as before, and
  of memory only the word below the stack has changed.
\<close>

lemma insertNewCheckpointHook_checkpoint:
  assumes "kernel_ok k" and "rt_ready k s" and "may_checkpoint k s" and "frame_ok k fp frameAddress s"
  shows "\<exists>c. insertNewCheckpointHook k st sta fp frameAddress eflags s = Ret () c \<and> at_checkpoint c
    \<and> mem c = store64 (mem s) (hw s RSP - 8) eflags
    \<and> kspecem_registers c RIP = load64 (mem s) (hw s RSP) \<and> kspecem_registers c RSP = hw s RSP + 8
    \<and> (\<forall>r \<in> preserved_regs. kspecem_registers c r = hw s r)
    \<and> kspecem_swap_branch_condition c = kspecem_swap_branch_enabled s
    \<and> cpu c = cpu s \<and> \<not> kspecem_is_in_rt c"
proof -
  have "kspecem_init_done s" "\<not> kspecem_swap_branch_condition s" using assms(2) by (simp_all add: rt_ready_def)
  with after_checkpoint_at_checkpoint [OF assms(4)] after_checkpoint_fields [OF assms(4)] checkpoint_runs [OF assms]
  show ?thesis by auto
qed

section \<open>An example\<close>

lemma demo_idle_ready: "rt_ready plain_kernel demo_idle" "frame_ok plain_kernel 0x8000 0x8100 demo_idle"
proof -
  show "rt_ready plain_kernel demo_idle"
    using demo_spec_ok(2,3)
    by (simp add: rt_ready_def demo_idle_def stats_ready_def reports_ok_def map_ready_def bugs_wf_def)
      (simp add: demo_spec_def boot_state_def spec_statistics_wf_def kspecem_statistics_init_def BUGS_LIST_SIZE_def)
  have "\<not> unat (x - 0x8010) < 240" if "unat (x - (hw demo_idle RSP - 8)) < 8" for x
    by (rule ranges_disjoint [where a = "- 8" and n = 8])
      (use that in \<open>simp_all add: demo_idle_def demo_spec_def boot_state_def\<close>)
  moreover have "irq_flags plain_kernel (cpu demo_idle) = 0x200" by (rule demo_idle_ok)
  ultimately show "frame_ok plain_kernel 0x8000 0x8100 demo_idle"
    by (simp add: frame_ok_def saved_frame_ok_def STACKLOG_MAXLEN_def)
      (simp add: demo_idle_def demo_spec_def)
qed

text \<open>One speculative store after that checkpoint.\<close>

definition demo_at :: "machine kstate" where
  "demo_at = after_checkpoint plain_kernel demo_site 0x8000 0x8100 0x46 demo_idle"

definition demo_stored :: "machine kstate" where
  "demo_stored = (store_logged demo_site [0x3000] demo_at)\<lparr>mem := write_bytes (mem (store_logged demo_site [0x3000] demo_at))
     0x3000 [1, 2, 3, 4, 5, 6, 7, 8]\<rparr>"

lemma demo_at_fields:
  "log_ready demo_at 1" "loggable plain_kernel demo_at 0x3000" "kspecem_init_done demo_at" "stats_ready demo_at"
  "reports_ok plain_kernel demo_at" "kspecem_wl_position demo_at = 0"
proof -
  show "log_ready demo_at 1" "loggable plain_kernel demo_at 0x3000" "kspecem_init_done demo_at" "kspecem_wl_position demo_at = 0"
    by (simp_all add: log_ready_def loggable_def demo_at_def after_checkpoint_def checkpointed_def demo_idle_def
        demo_spec_def wl_addrs_end_def wl_data_end_def WRITELOG_MAXLEN_def plain_kernel_def split: prod.splits)
  show "stats_ready demo_at" "reports_ok plain_kernel demo_at"
    using demo_spec_ok(2,3)
    by (simp_all add: stats_ready_def demo_at_def after_checkpoint_def checkpointed_def demo_idle_def
        reports_ok_def map_ready_def push_spec_statistics_def split: prod.splits)
qed

lemma demo_stored_step: "spec_step plain_kernel demo_at demo_stored"
proof -
  have g: "granules 0x3000 = [0x3000]" by (simp add: granules_def align8_def)
  have "kspecem_hook_store plain_kernel demo_site demo_site 0x3000 demo_at = Ret () (store_logged demo_site (granules 0x3000) demo_at)"
    using demo_at_fields by (intro kspecem_hook_store_eq plain_kernel_ok) (simp_all add: g)
  then show ?thesis
    unfolding demo_stored_def using demo_at_fields(1,2) plain_kernel_ok
    by (intro spec_step.store [of plain_kernel demo_site demo_site "0x3000"]) (simp_all add: g)
qed

lemma demo_stored_can_end: "can_end plain_kernel demo_site KSPECEM_RESTART_CALL demo_stored"
proof -
  have w: "wl_list demo_stored = [(0x3000, load64 (mem demo_at) 0x3000)]"
    using demo_at_fields(6)
    by (simp add: wl_list_def demo_stored_def store_logged_def log_of_def logged_def Let_def)
  have r: "restorable plain_kernel demo_site demo_stored 0x3000"
    by (simp add: restorable_def kspecem_can_restore_def kspecem_overlaps_def demo_stored_def store_logged_def
        log_of_def demo_at_def after_checkpoint_def checkpointed_def demo_idle_def demo_spec_def plain_kernel_def
        demo_site_def WRITELOG_BYTES_def WRITELOG_MAXLEN_def WRITELOG_GRANULARITY_def split: prod.splits)
  have "rollback_ok plain_kernel demo_site (restart_frame demo_site) 0 demo_stored"
    unfolding rollback_ok_def w using r
    by (simp add: demo_stored_def store_logged_def log_of_def demo_at_def after_checkpoint_def checkpointed_def
        demo_site_def split: prod.splits)
  moreover have "ends_speculation KSPECEM_RESTART_CALL demo_stored"
    by (simp add: ends_speculation_def demo_stored_def store_logged_def log_of_def demo_at_def after_checkpoint_def
        checkpointed_def demo_idle_def demo_spec_def boot_state_def split: prod.splits)
  moreover have "stats_ready demo_stored" "reports_ok plain_kernel demo_stored"
    using demo_at_fields(4,5)
    by (simp_all add: stats_ready_def reports_ok_def map_ready_def demo_stored_def store_logged_def log_of_def)
  ultimately show ?thesis by (simp add: can_end_def)
qed

end
