(* ===== verification/KReach.thy ===== *)
theory KReach
  imports KSpeculation
begin

text \<open>
  Every state the runtime can get into. A step is one hook call that returns or jumps back to the
  checkpoint, a stretch of kernel code, an instrumented branch, or a write to one of the debugfs
  files; the invariant of the globals holds after any number of steps from an initialised runtime.
\<close>

section \<open>Steps\<close>

datatype hook_call =
    Check_spec_length u32
  | Panic_info
  | Print_restart_statistics
  | Check_call_depth
  | New_checkpoint
  | Restart u64 int u64
  | Leave_rt u64
  | Save_stack addr u64 addr
  | Store addr
  | Memcpy addr u64
  | Interrupt_exception addr addr int
  | Interrupt_timer addr addr
  | Report_kasan u64 u64 bool u64
  | Report_ridl u64 u64 bool u64 dfsan_label dfsan_label
  | Report_specv1 u64 u64 bool u64 dfsan_label dfsan_label
  | Report_smotherspectre u64 dfsan_label
  | Is_whitelist_task
  | Access addr u64

fun run_call :: "'c kernel \<Rightarrow> site \<Rightarrow> site \<Rightarrow> hook_call \<Rightarrow> ('c, unit) kop" where
  "run_call k st sta (Check_spec_length n) = kspecem_hook_check_spec_length k st sta n"
| "run_call k st sta Panic_info = kspecem_hook_panic_info"
| "run_call k st sta Print_restart_statistics = kspecem_hook_print_restart_statistics k sta"
| "run_call k st sta Check_call_depth = kspecem_hook_check_call_depth k st sta"
| "run_call k st sta New_checkpoint = ignoreM (kspecem_hook_new_checkpoint k st sta)"
| "run_call k st sta (Restart arg ty ca) = ignoreM (kspecem_hook_restart k st arg ty ca)"
| "run_call k st sta (Leave_rt flags) = kspecem_hook_leave_rt k sta flags"
| "run_call k st sta (Save_stack fp flags fa) = kspecem_hook_save_stack k sta fp flags fa"
| "run_call k st sta (Store a) = kspecem_hook_store k st sta a"
| "run_call k st sta (Memcpy a sz) = kspecem_hook_memcpy k st sta a sz"
| "run_call k st sta (Interrupt_exception arg fa ty) = ignoreM (kspecem_hook_interrupt_exception k st sta arg fa ty)"
| "run_call k st sta (Interrupt_timer arg fa) = kspecem_hook_interrupt_timer k st sta arg fa"
| "run_call k st sta (Report_kasan a sz w ip) = ignoreM (kspecem_hook_kasan_report k sta a sz w ip)"
| "run_call k st sta (Report_ridl a sz w ip dl pl) = kspecem_hook_ridl_report k sta a sz w ip dl pl"
| "run_call k st sta (Report_specv1 a sz w ip dl pl) = kspecem_hook_specv1_report k sta a sz w ip dl pl"
| "run_call k st sta (Report_smotherspectre ip lab) = kspecem_hook_smotherspectre_report k sta ip lab"
| "run_call k st sta Is_whitelist_task = ignoreM (kspecem_hook_is_whitelist_task k sta)"
| "run_call k st sta (Access ptr sz) = ignoreM (kspecem_hook_access k sta ptr sz)"

inductive kstep :: "'c kernel \<Rightarrow> 'c kstate \<Rightarrow> 'c kstate \<Rightarrow> bool" for k :: "'c kernel" where
  returns: "run_call k st sta h s = Ret () t \<Longrightarrow> kstep k s t"
| jumps: "run_call k st sta h s = Resume t \<Longrightarrow> kstep k s t"
| kernel_code: "kstep k s (s\<lparr>mem := m, hw := r, cpu := c\<rparr>)"
| registers: "save_registers eflags CI s = Ret () t \<Longrightarrow> kstep k s t"
| branches: "swapCondition b s = Ret b' t \<Longrightarrow> kstep k s t"
| debugfs: "kstep k s (debugfs_write v x s)"

section \<open>The invariant\<close>

text \<open>The write log is on exactly during a speculation, and every index stays within its array.\<close>

definition rt_inv :: "'c kstate \<Rightarrow> bool" where
  "rt_inv s \<longleftrightarrow> (kspecem_writelog_enabled s \<longleftrightarrow> kspecem_in_speculative_emulation s)
     \<and> (kspecem_swap_branch_condition s \<longrightarrow> kspecem_in_speculative_emulation s)
     \<and> unat (kspecem_wl_position s) \<le> unat (2 * WRITELOG_MAXLEN)
     \<and> spec_statistics_wf (spec_stats s) \<and> kspecem_next_bug_index s \<le> BUGS_LIST_SIZE"

lemma rt_inv_simps [simp]:
  "rt_inv (s\<lparr>kspecem_spec_assert := x1\<rparr>) = rt_inv s" "rt_inv (s\<lparr>mem := x2\<rparr>) = rt_inv s"
  "rt_inv (s\<lparr>kspecem_is_in_restart := x3\<rparr>) = rt_inv s" "rt_inv (s\<lparr>kspecem_is_in_rt := x3\<rparr>) = rt_inv s"
  "rt_inv (s\<lparr>kspecem_spec_call_depth := x4\<rparr>) = rt_inv s" "rt_inv (s\<lparr>cpu := x5\<rparr>) = rt_inv s"
  "rt_inv (s\<lparr>kspecem_speculative_instr_count := x6\<rparr>) = rt_inv s" "rt_inv (s\<lparr>hw := x7\<rparr>) = rt_inv s"
  "rt_inv (s\<lparr>klog := x8\<rparr>) = rt_inv s" "rt_inv (s\<lparr>kspecem_bugs := x10\<rparr>) = rt_inv s"
  "rt_inv (s\<lparr>kspecem_total_statistics := x11\<rparr>) = rt_inv s" "rt_inv (s\<lparr>inlineasm := x12\<rparr>) = rt_inv s"
  "rt_inv (s\<lparr>kspecem_call_depth := x4\<rparr>) = rt_inv s" "rt_inv (s\<lparr>kspecem_previous_bugs_map := x13\<rparr>) = rt_inv s"
  "rt_inv (s\<lparr>kspecem_wl_stack_base_address := x14\<rparr>) = rt_inv s" "rt_inv (s\<lparr>kspecem_wl_stack_len := x15\<rparr>) = rt_inv s"
  "rt_inv (s\<lparr>wl_stack_bytes := x16\<rparr>) = rt_inv s" "rt_inv (s\<lparr>kspecem_registers := x17\<rparr>) = rt_inv s"
  by (simp_all add: rt_inv_def)

lemma keeps_inv_statistics [keeps_rules]:
  "keeps rt_inv R (add_spec_statistics f a b c r)" "keeps rt_inv R (add_restart_to_statistics ty ca)"
  by (auto simp: keeps_def hoare_def add_spec_statistics_def add_restart_to_statistics_def split: option.splits)
    (auto simp: rt_inv_def intro: kspecem_add_spec_statistics_wf)

lemma keeps_inv_printk [keeps_rules]: "keeps rt_inv R (printk l)"
  unfolding printk_def by (intro keeps_rules) simp

lemma keeps_inv_restore_loop:
  "n \<le> 131072 \<Longrightarrow> keeps rt_inv R rst \<Longrightarrow> keeps rt_inv R (restore_loop rst k st fa regs n i)"
proof (induction n arbitrary: i)
  case 0
  show ?case unfolding restore_loop.simps by (rule keeps_return)
next
  case (Suc n)
  have "rt_inv (s\<lparr>kspecem_wl_position := of_nat n\<rparr>)" if "rt_inv s" for s :: "'a kstate"
    using that Suc.prems(1) by (simp add: rt_inv_def unsigned_of_nat take_bit_eq_mod)
  with Suc show ?case unfolding restore_loop.simps by (intro keeps_rules) simp_all
qed

lemma keeps_inv_restore_writelog [keeps_rules]:
  assumes "keeps rt_inv R rst"
  shows "keeps rt_inv R (kspecem_restore_writelog rst k st fa regs)"
  unfolding keeps_def kspecem_restore_writelog_def
proof (rule hoare_bind [where Q' = "\<lambda>n s. rt_inv s \<and> n \<le> 131072"])
  show "hoare rt_inv (getM (\<lambda>s. unat (kspecem_wl_position s))) (\<lambda>n s. rt_inv s \<and> n \<le> 131072) R"
    by (simp add: hoare_def rt_inv_def)
next
  fix n :: nat
  show "hoare (\<lambda>s. rt_inv s \<and> n \<le> 131072)
     (thenM (lt_assert rst ''kspecem_undolog.c'' ''125'' ''rsp'' (\<lambda>_. restore_rsp st \<noteq> 0))
        (bindM (restore_loop rst k st fa regs n 0) (\<lambda>i.
          thenM
           (seqM
             [lt_assert rst ''kspecem_undolog.c'' ''156'' ''i == num_entries'' (\<lambda>_. i = n),
              lt_assert rst ''kspecem_undolog.c'' ''157'' ''kspecem_wl_position == 0''
                (\<lambda>s. kspecem_wl_position s = 0)])
           (returnM 0)))) (\<lambda>_. rt_inv) R"
  proof (cases "n \<le> 131072")
    case True
    with assms have "keeps rt_inv R (thenM (lt_assert rst ''kspecem_undolog.c'' ''125'' ''rsp'' (\<lambda>_. restore_rsp st \<noteq> 0))
        (bindM (restore_loop rst k st fa regs n 0) (\<lambda>i.
          thenM
           (seqM
             [lt_assert rst ''kspecem_undolog.c'' ''156'' ''i == num_entries'' (\<lambda>_. i = n),
              lt_assert rst ''kspecem_undolog.c'' ''157'' ''kspecem_wl_position == 0''
                (\<lambda>s. kspecem_wl_position s = 0)])
           (returnM 0))))"
      by (intro keeps_rules keeps_inv_restore_loop) simp_all
    with True show ?thesis by (simp add: keeps_def)
  qed (simp add: hoare_def)
qed

lemma keeps_inv_print_and_clear [keeps_rules]:
  "keeps rt_inv R rst \<Longrightarrow> keeps rt_inv R (kspecem_report_print_and_clear rst k b ty)"
  by (rule keeps_print_and_clear) (simp_all add: keeps_lt_assert kspecem_report_clear_globals_def keeps_modify, intro keeps_modify, simp add: rt_inv_def)

lemma keeps_inv_restart_rollback [keeps_rules]:
  assumes "keeps rt_inv rt_inv rst"
  shows "keeps rt_inv rt_inv (restart_rollback rst k st arg ty fa regs)"
proof -
  have j: "keeps rt_inv rt_inv (kspecem_restore_registers :: ('a, int) kop)"
    by (simp add: keeps_def hoare_def kspecem_restore_registers_def split: prod.splits)
  have e: "keeps rt_inv rt_inv (case x of None \<Rightarrow> a | Some y \<Rightarrow> panicM (f y))" if "keeps rt_inv rt_inv a"
    for x :: "string option" and a :: "('a, int) kop" and f
    using that by (cases x) (simp_all add: keeps_panic)
  show ?thesis
    unfolding restart_rollback_def restore_stack_def lt_panic_def
    by (intro keeps_rules assms e j) (simp_all add: rt_inv_def)
qed

lemma keeps_inv_restart [keeps_rules]: "keeps rt_inv rt_inv (kspecem_restart k st arg ty ca fa regs)"
  unfolding kspecem_restart_def kspecem_restart_with_def
  by (intro keeps_rules) simp_all

lemma keeps_inv_enter_leave [keeps_rules]:
  "keeps rt_inv R (ENTER_KSPECEM_RT k)" "keeps rt_inv R (ENTER_KSPECEM_NONMI_RT k)"
  "keeps rt_inv R rst \<Longrightarrow> keeps rt_inv R (LEAVE_KSPECEM_RT rst k f l fl)"
  "keeps rt_inv R rst \<Longrightarrow> keeps rt_inv R (LEAVE_KSPECEM_NONMI_RT rst k f l fl)"
  unfolding ENTER_KSPECEM_RT_def ENTER_KSPECEM_NONMI_RT_def LEAVE_KSPECEM_RT_def LEAVE_KSPECEM_NONMI_RT_def
    kspecem_set_rt_def kspecem_unset_rt_def
  by (intro keeps_rules; simp)+

lemma keeps_inv_hook_restart [keeps_rules]:
  "keeps rt_inv rt_inv (kspecem_hook_restart k st arg ty ca)" "keeps rt_inv rt_inv (assert_restart k sta)"
  unfolding assert_restart_def kspecem_hook_restart_def kspecem_hook_restart_with_def CHECK_KSPECEM_INIT_def
  by (intro keeps_rules)+

lemma keeps_inv_write_wl [keeps_rules]:
  assumes "keeps rt_inv rt_inv rst"
  shows "keeps rt_inv rt_inv (kspecem_write_wl rst k st a)"
proof -
  have p: "keeps rt_inv rt_inv (push_entry st g :: ('a, unit) kop)" for g
    by (auto simp: keeps_def hoare_def push_entry_def Let_def rt_inv_def unat_position_Suc)
  have w: "keeps rt_inv rt_inv (write_wl_aligned rst k st g)" for g
    unfolding write_wl_aligned_def by (intro keeps_rules assms p) simp_all
  have "keeps rt_inv rt_inv (kspecem_write_wl rst k st (align8 a + 8))"
    by (subst kspecem_write_wl.simps) (simp add: w run_simps)
  then show ?thesis
    by (subst kspecem_write_wl.simps) (intro keeps_rules w)
qed

lemma keeps_inv_memcpy [keeps_rules]:
  assumes "keeps rt_inv rt_inv rst"
  shows "keeps rt_inv rt_inv (kspecem_memcpy rst k st a sz)"
proof -
  have "keeps rt_inv rt_inv (memcpy_loop rst k st n reg e)" for n reg e
  proof (induction n arbitrary: reg)
    case 0
    show ?case unfolding memcpy_loop.simps by (intro keeps_rules)
  next
    case (Suc n)
    show ?case unfolding memcpy_loop.simps by (intro keeps_rules assms Suc.IH)
  qed
  then show ?thesis unfolding kspecem_memcpy_def .
qed

text \<open>Taking the next slot of the list of pending reports; past the end the write is undefined.\<close>

lemma keeps_inv_take_slot:
  assumes "\<And>i. keeps rt_inv R (m i)"
  shows "keeps rt_inv R (bindM (getM kspecem_next_bug_index) (\<lambda>i.
    thenM (modifyM (\<lambda>s. s\<lparr>kspecem_next_bug_index := i + 1\<rparr>)) (if BUGS_LIST_SIZE \<le> i then faultM e else m i)))"
  unfolding keeps_def hoare_def
proof (intro allI impI)
  fix s :: "'a kstate"
  let ?i = "kspecem_next_bug_index s" and ?t = "s\<lparr>kspecem_next_bug_index := kspecem_next_bug_index s + 1\<rparr>"
  assume inv: "rt_inv s"
  show "case bindM (getM kspecem_next_bug_index) (\<lambda>i. thenM (modifyM (\<lambda>s. s\<lparr>kspecem_next_bug_index := i + 1\<rparr>))
      (if BUGS_LIST_SIZE \<le> i then faultM e else m i)) s of
      Ret x t \<Rightarrow> rt_inv t | Resume t \<Rightarrow> R t | Panic p t \<Rightarrow> True | Fault e t \<Rightarrow> True"
  proof (cases "BUGS_LIST_SIZE \<le> ?i")
    case False
    with inv have "rt_inv ?t" by (simp add: rt_inv_def)
    with assms [of ?i] False show ?thesis by (simp add: bind_get then_modify keeps_def hoare_def)
  qed (simp add: bind_get then_modify)
qed

lemma keeps_inv_access_report [keeps_rules]:
  assumes "keeps rt_inv R rst"
  shows "keeps rt_inv R (kspecem_access_report rst k a sz w ip dl pl ty)"
  unfolding kspecem_access_report_def
proof (rule keeps_then [OF keeps_lt_assert [OF _ assms] keeps_inv_take_slot], goal_cases)
  case (2 i)
  show ?case by (intro keeps_rules assms) simp_all
qed simp

text \<open>In the last part of \<open>kspecem_new_checkpoint\<close> the flags change one after the other, so the
  invariant is that of the whole part.\<close>

lemma keeps_inv_new_checkpoint [keeps_rules]:
  assumes "keeps rt_inv R rst"
  shows "keeps rt_inv R (kspecem_new_checkpoint rst ip)"
proof -
  have last: "keeps rt_inv R (seqM
        [modifyM (\<lambda>s. s\<lparr>kspecem_wl_position := 0\<rparr>),
         modifyM (\<lambda>s. s\<lparr>kspecem_in_speculative_emulation := True\<rparr>),
         whenM kspecem_swap_branch_enabled (modifyM (\<lambda>s. s\<lparr>kspecem_swap_branch_condition := True\<rparr>)),
         modifyM (\<lambda>s. s\<lparr>kspecem_spec_call_depth := 0, kspecem_call_depth := 0,
           kspecem_writelog_enabled := True\<rparr>)] :: ('a, unit) kop)"
    by (simp add: keeps_def hoare_def km_simps rt_inv_def)
  show ?thesis
    unfolding kspecem_new_checkpoint_def
    by (rule last | rule keeps_rules assms | simp add: rt_inv_def spec_statistics_wf_def)+
qed

section \<open>Every hook\<close>

lemma keeps_inv_small [keeps_rules]:
  "keeps rt_inv rt_inv (is_whitelist_task k)" "keeps rt_inv rt_inv print_restart_statistics"
  "keeps rt_inv rt_inv kspecem_panic_info" "keeps rt_inv rt_inv (kspecem_access k ptr sz)"
  "keeps rt_inv rt_inv (save_registers eflags CI)"
  "keeps rt_inv rt_inv rst \<Longrightarrow> keeps rt_inv rt_inv (kspecem_save_stack rst fp fa)"
  unfolding is_whitelist_task_def print_restart_statistics_def kspecem_panic_info_def kspecem_access_def
    kspecem_save_stack_def save_registers_def lt_panic_def Let_def printk_def
  by (auto simp: keeps_def hoare_def km_simps split: sum.splits option.splits prod.splits)[5]
    (intro keeps_rules; simp)

lemma keeps_inv_interrupts [keeps_rules]:
  assumes "keeps rt_inv rt_inv rst"
  shows "keeps rt_inv rt_inv (kspecem_interrupt_timer rst k st arg fa)"
    and "keeps rt_inv rt_inv (kspecem_interrupt_exception rst k st arg fa ty)"
  unfolding kspecem_interrupt_timer_def kspecem_interrupt_exception_def
  by (intro keeps_rules assms; simp)+

lemmas hook_defs = kspecem_hook_check_spec_length_def kspecem_hook_check_call_depth_def kspecem_hook_access_def
  kspecem_hook_kasan_report_def kspecem_hook_ridl_report_def kspecem_hook_specv1_report_def
  kspecem_hook_smotherspectre_report_def kspecem_hook_store_def kspecem_hook_memcpy_def
  kspecem_hook_interrupt_timer_def kspecem_hook_interrupt_exception_def kspecem_hook_new_checkpoint_def
  kspecem_hook_leave_rt_def kspecem_hook_save_stack_def kspecem_hook_panic_info_def
  kspecem_hook_print_restart_statistics_def kspecem_hook_is_whitelist_task_def
  CHECK_KSPECEM_RT_def CHECK_KSPECEM_INIT_def CHECK_KDFINIT_RT_def CHECK_KDFSAN_RT_def
  kspecem_kasan_report_def kspecem_ridl_report_def kspecem_specv1_report_def kspecem_smotherspectre_report_def
  kspecem_store_def lt_panic_def

lemma keeps_inv_run_call: "keeps rt_inv rt_inv (run_call k st sta h)"
  by (cases h; simp only: run_call.simps hook_defs; intro keeps_rules; simp)

lemma keeps_inv_swapCondition: "keeps rt_inv rt_inv (swapCondition b)"
  unfolding swapCondition_def by (intro keeps_rules) (simp add: rt_inv_def)

lemma kstep_inv:
  assumes "rt_inv s" and "kstep k s t"
  shows "rt_inv t"
  using assms(2)
proof cases
  case (returns st sta h)
  then show ?thesis using hoareD_Ret [OF keeps_inv_run_call [unfolded keeps_def] assms(1)] by blast
next
  case (jumps st sta h)
  then show ?thesis using hoareD_Resume [OF keeps_inv_run_call [unfolded keeps_def] assms(1)] by blast
next
  case (registers eflags CI)
  then show ?thesis using hoareD_Ret [OF keeps_inv_small(5) [unfolded keeps_def] assms(1)] by blast
next
  case (branches b b')
  then show ?thesis using hoareD_Ret [OF keeps_inv_swapCondition [unfolded keeps_def] assms(1)] by blast
next
  case (debugfs v x)
  with assms(1) show ?thesis by (cases v) (simp_all add: rt_inv_def)
qed (use assms(1) in \<open>simp_all add: rt_inv_def\<close>)

interpretation runtime: step_invariant "kstep k" rt_inv for k
  by unfold_locales (rule kstep_inv)

lemma rt_ready_inv: "rt_ready k s \<Longrightarrow> rt_inv s"
  by (simp add: rt_ready_def rt_inv_def)

lemma reachable_inv: "rt_ready k s \<Longrightarrow> (kstep k)\<^sup>*\<^sup>* s t \<Longrightarrow> rt_inv t"
  using runtime.steps_inv rt_ready_inv by blast

section \<open>Properties\<close>


text \<open>A checkpoint is one step of an idle runtime.\<close>

lemma demo_idle_checkpoint_step:
  "kstep plain_kernel demo_idle (checkpointed (ret_addr demo_site) (entered plain_kernel demo_idle))"
proof (rule kstep.returns [where h = New_checkpoint and st = demo_site and sta = demo_site])
  have "kspecem_hook_new_checkpoint plain_kernel demo_site demo_site demo_idle =
      Ret (irq_flags plain_kernel (cpu demo_idle)) (checkpointed (ret_addr demo_site) (entered plain_kernel demo_idle))"
    using demo_idle_ok by (intro new_checkpoint_taken) simp_all
  then show "run_call plain_kernel demo_site demo_site New_checkpoint demo_idle =
      Ret () (checkpointed (ret_addr demo_site) (entered plain_kernel demo_idle))"
    by (simp add: km_simps)
qed


text \<open>
  An interrupt or exception that arrives outside a speculation goes on to the kernel's own
  handler: the hooks change nothing, and the exception hook returns 0. In particular their assertion
  that the write log is enabled exactly during a speculation does not fail.
\<close>

lemma interrupt_hooks_outside_speculation:
  assumes "rt_ready k s" and "(kstep k)\<^sup>*\<^sup>* s t" and "\<not> kspecem_in_speculative_emulation t" and "frameaddr \<noteq> 0"
  shows "kspecem_hook_interrupt_timer k st sta arg frameaddr t = Ret () t
    \<and> kspecem_hook_interrupt_exception k st sta arg frameaddr exception_type t = Ret 0 t"
proof -
  have "kspecem_writelog_enabled t = kspecem_in_speculative_emulation t"
    using reachable_inv [OF assms(1,2)] by (simp add: rt_inv_def)
  with assms(3,4) show ?thesis
    by (simp add: kspecem_hook_interrupt_timer_def kspecem_hook_interrupt_exception_def CHECK_KSPECEM_INIT_def km_simps)
qed

end
