(* ===== verification/KDebugfs.thy ===== *)
theory KDebugfs
  imports KReach
begin

text \<open>
  What a write to a debugfs file can do to the runtime: it may change the variables the files are bound to at any
  time, during a speculation too.
\<close>

section \<open>Writes\<close>

lemma set_low_byte_level: "x \<in> {0, 1, 2} \<Longrightarrow> set_low_byte x b = ucast b"
  by (auto simp: set_low_byte_def)

lemma level_of_byte: "(ucast (b :: u8) :: u32) \<in> {0, 1, 2} \<longleftrightarrow> b \<in> {0, 1, 2}"
proof -
  have "(ucast b :: u32) = ucast c \<longleftrightarrow> b = c" for c :: u8
    by transfer (simp add: take_bit_eq_mod)
  from this [of 0] this [of 1] this [of 2] show ?thesis by simp
qed

text \<open>
  C31. The level at which reports are printed can be set through debugfs to any byte, while the runtime knows
  three. A restart with reports pending comes back to the checkpoint if the level is one of them; for any other
  the assertion in \<open>kspecem_should_report_access_bug\<close> stops the kernel.
\<close>

theorem debugfs_print_level:
  assumes "ends_speculation ty s" and "stats_ready s" and "reports_ok k s"
    and "rollback_ok k st (restart_frame st) 0 s" and "reports_at_restart ty" and "0 < kspecem_next_bug_index s"
  shows "if ucast v \<in> {0, 1, 2 :: u8} then \<exists>t. kspecem_restart k st 0 ty ca fa 0 (debugfs_write Print_level v s) = Resume t
    else \<exists>t. kspecem_restart k st 0 ty ca fa 0 (debugfs_write Print_level v s) =
      Panic [''assert failed in %s: %s: %s'', ''kspecem_bugs.c'', ''118'', ''kspecem_print_level == PRINT_DEFAULT''] t"
proof -
  let ?s = "debugfs_write Print_level v s"
  have lv: "log_view ?s = log_view s" by (simp add: log_view_def)
  have p: "kspecem_print_level ?s = ucast (ucast v :: u8)"
    using assms(3) by (auto simp: reports_ok_def set_low_byte_level)
  have s: "ends_speculation ty ?s" "stats_ready ?s" "rollback_ok k st (restart_frame st) 0 ?s"
    using assms(1,2,4) rollback_cong(3) [OF lv] by (simp_all add: ends_speculation_def stats_ready_def)
  show ?thesis
  proof (cases "ucast v \<in> {0, 1, 2 :: u8}")
    case True
    then have "kspecem_print_level ?s \<in> {0, 1, 2}" unfolding p level_of_byte .
    with assms(3) have "reports_ok k ?s" by (simp add: reports_ok_def map_ready_def)
    with True restart_resumes [OF s(1,2) _ s(3), of ca fa] show ?thesis by auto
  next
    case False
    then have n: "kspecem_print_level ?s \<notin> {0, 1, 2}" unfolding p level_of_byte .
    obtain a b c where r: "kspecem_restart k st 0 ty ca fa 0 ?s = restart_rollback (faultM ''re-entered'') k st 0 ty fa 0
        (with_stats a b c (?s\<lparr>kspecem_is_in_restart := True\<rparr>))"
      unfolding kspecem_restart_def using s(1,2) by (rule restart_to_rollback)
    let ?t = "with_stats a b c (?s\<lparr>kspecem_is_in_restart := True\<rparr>)"
    let ?u = "rolled_back st (stack_top st 0 fa) 0 ?t"
    have u: "kspecem_print_level ?u = kspecem_print_level ?s" "kspecem_next_bug_index ?u = kspecem_next_bug_index s"
      "\<not> kspecem_in_speculative_emulation ?u" by (simp_all add: rolled_back_def with_stats_def)
    have "rollback_ok k st (stack_top st 0 fa) 0 ?t" using s(3) by (simp add: stack_top_def)
    from restart_rollback_eq [OF this] assms(5,6) n u False show ?thesis unfolding r
      by (auto simp: kspecem_report_print_and_clear_def kspecem_should_report_access_bug_def km_simps upt_conv_Cons)
  qed
qed


text \<open>In the example one report is pending when somebody writes 3 to \<open>print_reports\<close>.\<close>

definition demo_pending :: "machine kstate" where
  "demo_pending = demo_spec\<lparr>kspecem_next_bug_index := 1, kspecem_bugs := kspecem_bugs two_reports\<rparr>"

theorem debugfs_print_level_witness:
  "\<exists>t. kspecem_restart plain_kernel demo_site 0 KSPECEM_RESTART_CALL 0 0 0 (debugfs_write Print_level 3 demo_pending) =
      Panic [''assert failed in %s: %s: %s'', ''kspecem_bugs.c'', ''118'', ''kspecem_print_level == PRINT_DEFAULT''] t"
proof -
  have "log_view demo_pending = log_view demo_spec" by (simp add: demo_pending_def log_view_def)
  then have d: "ends_speculation KSPECEM_RESTART_CALL demo_pending" "stats_ready demo_pending"
      "rollback_ok plain_kernel demo_site (restart_frame demo_site) 0 demo_pending" "0 < kspecem_next_bug_index demo_pending"
    using demo_spec_ok(1,2,4) rollback_cong(3) [of demo_pending demo_spec]
    by (simp_all add: demo_pending_def ends_speculation_def stats_ready_def)
  have r: "reports_ok plain_kernel demo_pending"
    using demo_spec_ok(3) two_reports_ok(1,4)
    by (simp add: reports_ok_def demo_pending_def map_ready_def two_reports_def printable_def exI [of _ 0])
  have a: "reports_at_restart KSPECEM_RESTART_CALL" by (simp add: reports_at_restart_def)
  from debugfs_print_level [OF d(1,2) r d(3) a d(4), of 3 0 0] show ?thesis by simp
qed

section \<open>Boot\<close>

text \<open>What the kernel's functions do when files are created is the kernel's own business.\<close>

definition only_cpu :: "('c, 'a) kop \<Rightarrow> bool" where
  "only_cpu f \<longleftrightarrow> (\<forall>s. \<exists>x c. f s = Ret x (s\<lparr>cpu := c\<rparr>))"

definition debugfs_ok :: "('c, 'd) debugfs \<Rightarrow> bool" where
  "debugfs_ok d \<longleftrightarrow> (\<forall>n. only_cpu (debugfs_create_dir d n)) \<and> (\<forall>n m p f. only_cpu (debugfs_create_file d n m p f))
     \<and> (\<forall>n m p v. only_cpu (debugfs_create_u8 d n m p v) \<and> only_cpu (debugfs_create_u32 d n m p v)
        \<and> only_cpu (debugfs_create_bool d n m p v))"

lemma only_cpuE:
  assumes "only_cpu f"
  obtains x c where "f s = Ret x (s\<lparr>cpu := c\<rparr>)"
  using assms unfolding only_cpu_def by blast

lemma only_cpu_seq: "list_all only_cpu fs \<Longrightarrow> only_cpu (seqM fs)"
proof (induction fs)
  case Nil
  have "s = s\<lparr>cpu := cpu s\<rparr>" for s :: "'a kstate" by simp
  then show ?case unfolding only_cpu_def seqM.simps returnM_apply by blast
next
  case (Cons f fs)
  show ?case
    unfolding only_cpu_def
  proof
    fix s :: "'a kstate"
    have o: "only_cpu f" "only_cpu (seqM fs)" using Cons by simp_all
    obtain x c where f: "f s = Ret x (s\<lparr>cpu := c\<rparr>)" by (rule only_cpuE [OF o(1)])
    obtain y c' where "seqM fs (s\<lparr>cpu := c\<rparr>) = Ret y (s\<lparr>cpu := c, cpu := c'\<rparr>)" by (rule only_cpuE [OF o(2)])
    with f show "\<exists>x c. seqM (f # fs) s = Ret x (s\<lparr>cpu := c\<rparr>)" by (auto simp: thenM_apply)
  qed
qed

text \<open>Boot leaves the runtime switched off, allows system calls of test programs only, and changes nothing else.\<close>

lemma kspecem_init_boots:
  assumes "debugfs_ok d"
  shows "\<exists>c. kspecem_init d s = Ret 0 (s\<lparr>cpu := c, kspecem_whitelist_type := KSPECEM_WHITELIST_SYSCALL,
    klog := klog s @ [Printk ''KSpecEm: Initializing...'', Printk ''KSpecEm: Initializing done.'']\<rparr>)"
proof -
  let ?s = "s\<lparr>klog := klog s @ [Printk ''KSpecEm: Initializing...'']\<rparr>"
  let ?files = "\<lambda>dir. [debugfs_create_file d ''restarts'' 292 dir Kspecem_restart_stats_fops,
      debugfs_create_file d ''enable'' 292 dir Kspecem_enable_fops,
      debugfs_create_u8 d ''whitelist'' 438 dir Whitelist_type,
      debugfs_create_u32 d ''call_depth'' 438 dir Max_call_depth,
      debugfs_create_u8 d ''print_reports'' 438 dir Print_level,
      debugfs_create_bool d ''spec_enabled'' 438 dir Swap_branch_enabled,
      debugfs_create_bool d ''calltrace_enabled'' 438 dir Report_error_dump_stack,
      debugfs_create_bool d ''inlineasm_restart_stats_enabled'' 438 dir Inlineasm_restart_stats_enabled]"
  let ?done = "seqM [modifyM (\<lambda>s. s\<lparr>kspecem_whitelist_type := kspecem_whitelist_init\<rparr>),
      printk (Printk ''KSpecEm: Initializing done.'')]"
  have "only_cpu (seqM (?files dir))" for dir
    using assms by (intro only_cpu_seq) (simp add: debugfs_ok_def)
  note files = only_cpuE [OF this]
  have "only_cpu (debugfs_create_dir d ''kasper'')" using assms by (simp add: debugfs_ok_def)
  then obtain dir c where dir: "debugfs_create_dir d ''kasper'' ?s = Ret dir (?s\<lparr>cpu := c\<rparr>)" by (rule only_cpuE)
  obtain c' where files: "seqM (?files dir) (?s\<lparr>cpu := c\<rparr>) = Ret () (?s\<lparr>cpu := c, cpu := c'\<rparr>)"
    by (rule files [of dir "?s\<lparr>cpu := c\<rparr>"]) simp
  have "kspecem_init d s = bindM (debugfs_create_dir d ''kasper'')
      (\<lambda>dir. thenM (seqM (?files dir)) (thenM ?done (returnM 0))) ?s"
    by (simp add: kspecem_init_def printk_def run_simps)
  then show ?thesis
    by (simp add: bindM_apply dir thenM_apply files del: seqM.simps)
      (auto simp: km_simps printk_def kspecem_whitelist_init_def)
qed

end
