(* ===== verification/LLVM_IR.thy ===== *)
theory LLVM_IR
  imports Main "HOL-Library.State_Monad"
begin

text \<open>
  What the instrumentation passes (\<open>passes\<close>) read and write of a program: modules, functions, basic
  blocks, instructions, values and their types, with the constructors the passes distinguish and
  one for every other instruction. A value refers to the instruction that computes it by number.
  The \<open>IRBuilder\<close> is a state monad over the next free number and the instructions inserted so far;
  \<open>visit_function\<close> is the traversal of \<open>InstVisitor\<close>.

  The no-inline attribute of a call and the declarations of intrinsics are left out.
\<close>

section \<open>Types and values\<close>

text \<open>A struct type has a name, or none when it is a literal one.\<close>

datatype ir_type =
    VoidTy
  | IntTy nat
  | FloatTy nat
  | PtrTy ir_type
  | FunTy ir_type "ir_type list"
  | StructTy "string option"
  | VectorTy nat ir_type

abbreviation i8ptr :: ir_type where "i8ptr \<equiv> PtrTy (IntTy 8)"

text \<open>
  \<open>InlineAsm\<close> holds the assembly string and, for each constraint, its codes as
  \<open>ParseConstraints\<close> returns them. Integer constants are unsigned.
\<close>

datatype ir_value =
    Inst nat ir_type
  | Arg nat ir_type
  | Fun string ir_type
  | Global string ir_type
  | ConstInt nat nat
  | ConstNull ir_type
  | ConstBitCast ir_value ir_type
  | InlineAsm string "string list list" ir_type

primrec type_of :: "ir_value \<Rightarrow> ir_type" where
  "type_of (Inst n t) = t"
| "type_of (Arg n t) = t"
| "type_of (Fun f t) = PtrTy t"
| "type_of (Global g t) = PtrTy t"
| "type_of (ConstInt w n) = IntTy w"
| "type_of (ConstNull t) = t"
| "type_of (ConstBitCast v t) = t"
| "type_of (InlineAsm a c t) = PtrTy t"

primrec is_constant :: "ir_value \<Rightarrow> bool" where
  "is_constant (Inst n t) = False"
| "is_constant (Arg n t) = False"
| "is_constant (Fun f t) = True"
| "is_constant (Global g t) = True"
| "is_constant (ConstInt w n) = True"
| "is_constant (ConstNull t) = True"
| "is_constant (ConstBitCast v t) = True"
| "is_constant (InlineAsm a c t) = False"

section \<open>Instructions\<close>

datatype calling_conv = CC_C | CC_Fast

datatype mem_kind = MemCpy | MemMove | MemSet

datatype icmp_pred =
  ICMP_EQ | ICMP_NE | ICMP_UGT | ICMP_UGE | ICMP_ULT | ICMP_ULE | ICMP_SGT | ICMP_SGE | ICMP_SLT | ICMP_SLE

datatype fcmp_pred =
    FCMP_FALSE | FCMP_OEQ | FCMP_OGT | FCMP_OGE | FCMP_OLT | FCMP_OLE | FCMP_ONE | FCMP_ORD
  | FCMP_UNO | FCMP_UEQ | FCMP_UGT | FCMP_UGE | FCMP_ULT | FCMP_ULE | FCMP_UNE | FCMP_TRUE

text \<open>
  \<open>LoadInst\<close> has its pointer, \<open>StoreInst\<close> the value and the pointer, \<open>CallInst\<close> the callee and the
  arguments, \<open>MemIntrinsic\<close> the destination, the source (or the byte, for \<open>memset\<close>) and the length. The
  destination is the one \<open>MemIntrinsic::getDest\<close> gives the passes, below its pointer casts.
\<close>

datatype ir_op =
    LoadInst ir_value
  | StoreInst ir_value ir_value
  | CallInst calling_conv ir_value "ir_value list"
  | MemIntrinsic mem_kind ir_value ir_value ir_value
  | BitCastInst ir_value
  | TruncInst ir_value
  | ZExtInst ir_value
  | ICmpInst icmp_pred ir_value ir_value
  | FCmpInst fcmp_pred ir_value ir_value
  | XorInst ir_value ir_value
  | SelectInst ir_value ir_value ir_value
  | OtherInst nat "ir_value list"

text \<open>\<open>is_asan_instr\<close>: the metadata the address sanitizer leaves at the accesses it checks.\<close>

record ir_inst =
  inst_id :: nat
  inst_ty :: ir_type
  inst_op :: ir_op
  is_asan_instr :: bool

abbreviation result :: "ir_inst \<Rightarrow> ir_value" where
  "result i \<equiv> Inst (inst_id i) (inst_ty i)"

record ir_phi =
  phi_id :: nat
  phi_ty :: ir_type
  phi_in :: "(string \<times> ir_value) list"

datatype terminator =
    Br string
  | CondBr ir_value string string
  | Switch ir_value string "(nat \<times> string) list"
  | ReturnInst "ir_value option"
  | Unreachable

record basic_block =
  bb_label :: string
  bb_phis :: "ir_phi list"
  bb_insts :: "ir_inst list"
  bb_term :: terminator

text \<open>A function without blocks is a declaration. \<open>fun_next\<close> is above every number in use.\<close>

record ir_function =
  fun_name :: string
  fun_ret :: ir_type
  fun_args :: "ir_type list"
  fun_cc :: calling_conv
  fun_blocks :: "basic_block list"
  fun_next :: nat

text \<open>\<open>mod_name\<close> is the module identifier.\<close>

record ir_module =
  mod_name :: string
  mod_funs :: "ir_function list"

abbreviation fun_type :: "ir_function \<Rightarrow> ir_type" where
  "fun_type F \<equiv> FunTy (fun_ret F) (fun_args F)"

definition inst_count :: "basic_block \<Rightarrow> nat" where
  "inst_count b = length (bb_phis b) + length (bb_insts b) + 1"

text \<open>The instruction that computes a value, as \<open>isa\<close> and \<open>cast\<close> find it.\<close>

definition defining_inst :: "ir_function \<Rightarrow> ir_value \<Rightarrow> ir_inst option" where
  "defining_inst F v = (case v of
       Inst n t \<Rightarrow> find (\<lambda>i. inst_id i = n) (concat (map bb_insts (fun_blocks F)))
     | _ \<Rightarrow> None)"

text \<open>What the passes ask of the data layout.\<close>

record data_layout =
  pointer_size_in_bits :: nat
  type_store_size :: "ir_type \<Rightarrow> nat"

section \<open>Strings\<close>

text \<open>\<open>StringRef::startswith\<close> and \<open>contains\<close>, \<open>std::string::rfind\<close> of a string at position 0.\<close>

fun startswith :: "string \<Rightarrow> string \<Rightarrow> bool" where
  "startswith s [] = True"
| "startswith [] (p # ps) = False"
| "startswith (c # cs) (p # ps) = (c = p \<and> startswith cs ps)"

text \<open>\<open>StringRef::find\<close>: the first position.\<close>

fun find_sub :: "string \<Rightarrow> string \<Rightarrow> nat option" where
  "find_sub [] p = (if p = [] then Some 0 else None)"
| "find_sub (c # cs) p = (if startswith (c # cs) p then Some 0 else map_option Suc (find_sub cs p))"

definition contains :: "string \<Rightarrow> string \<Rightarrow> bool" where
  "contains s p \<longleftrightarrow> find_sub s p \<noteq> None"

section \<open>The builder\<close>

type_synonym 'a irb = "(nat \<times> ir_inst list, 'a) state"

definition insert_inst :: "ir_type \<Rightarrow> ir_op \<Rightarrow> ir_value irb" where
  "insert_inst t op = State (\<lambda>(n, is).
     (Inst n t, (n + 1, is @ [\<lparr>inst_id = n, inst_ty = t, inst_op = op, is_asan_instr = False\<rparr>])))"

text \<open>Moving past an instruction of the program.\<close>

definition keep_inst :: "ir_inst \<Rightarrow> unit irb" where
  "keep_inst i = State (\<lambda>(n, is). ((), (n, is @ [i])))"

fun ret_type :: "ir_type \<Rightarrow> ir_type" where
  "ret_type (PtrTy (FunTy r ts)) = r"
| "ret_type t = VoidTy"

text \<open>A call created by the builder has the default calling convention, whatever the callee's.\<close>

definition CreateCall :: "ir_value \<Rightarrow> ir_value list \<Rightarrow> ir_value irb" where
  "CreateCall f args = insert_inst (ret_type (type_of f)) (CallInst CC_C f args)"

definition CreateBitCast :: "ir_value \<Rightarrow> ir_type \<Rightarrow> ir_value irb" where
  "CreateBitCast v t =
     (if type_of v = t then State_Monad.return v
      else if is_constant v then State_Monad.return (ConstBitCast v t)
      else insert_inst t (BitCastInst v))"

text \<open>Between pointers, which is the only use.\<close>

definition CreatePointerCast :: "ir_value \<Rightarrow> ir_type \<Rightarrow> ir_value irb" where
  "CreatePointerCast v t = CreateBitCast v t"

fun int_width :: "ir_type \<Rightarrow> nat" where
  "int_width (IntTy w) = w"
| "int_width t = 0"

definition CreateTrunc :: "ir_value \<Rightarrow> nat \<Rightarrow> ir_value irb" where
  "CreateTrunc v w =
     (case v of ConstInt w' c \<Rightarrow> State_Monad.return (ConstInt w (c mod 2 ^ w))
      | _ \<Rightarrow> insert_inst (IntTy w) (TruncInst v))"

definition CreateZExt :: "ir_value \<Rightarrow> nat \<Rightarrow> ir_value irb" where
  "CreateZExt v w =
     (case v of ConstInt w' c \<Rightarrow> State_Monad.return (ConstInt w c)
      | _ \<Rightarrow> insert_inst (IntTy w) (ZExtInst v))"

definition CreateZExtOrTrunc :: "ir_value \<Rightarrow> nat \<Rightarrow> ir_value irb" where
  "CreateZExtOrTrunc v w =
     (if int_width (type_of v) < w then CreateZExt v w
      else if w < int_width (type_of v) then CreateTrunc v w
      else State_Monad.return v)"

section \<open>Visiting a function\<close>

text \<open>
  The visitor looks at every instruction of a block, and then at its terminator. It inserts
  before the one it looks at and may replace it. Inserted instructions are not visited.
\<close>

record visitor =
  visit_inst :: "ir_inst \<Rightarrow> ir_inst irb"
  visit_term :: "basic_block \<Rightarrow> terminator irb"

primrec visit_insts :: "(ir_inst \<Rightarrow> ir_inst irb) \<Rightarrow> ir_inst list \<Rightarrow> unit irb" where
  "visit_insts f [] = State_Monad.return ()"
| "visit_insts f (i # is) = do { i' \<leftarrow> f i; keep_inst i'; visit_insts f is }"

definition visit_block :: "visitor \<Rightarrow> basic_block \<Rightarrow> nat \<Rightarrow> basic_block \<times> nat" where
  "visit_block V b n =
     (case run_state (do { visit_insts (visit_inst V) (bb_insts b); visit_term V b }) (n, []) of
        (t, (n', is)) \<Rightarrow> (b\<lparr>bb_insts := is, bb_term := t\<rparr>, n'))"

primrec visit_blocks :: "visitor \<Rightarrow> basic_block list \<Rightarrow> nat \<Rightarrow> basic_block list \<times> nat" where
  "visit_blocks V [] n = ([], n)"
| "visit_blocks V (b # bs) n =
     (case visit_block V b n of (b', n') \<Rightarrow> case visit_blocks V bs n' of (bs', n'') \<Rightarrow> (b' # bs', n''))"

definition visit_function :: "visitor \<Rightarrow> ir_function \<Rightarrow> ir_function" where
  "visit_function V F =
     (case visit_blocks V (fun_blocks F) (fun_next F) of
        (bs, n) \<Rightarrow> F\<lparr>fun_blocks := bs, fun_next := n\<rparr>)"

text \<open>Inserting before the first instruction of a block that is not a PHI node.\<close>

definition insert_at_front :: "unit irb \<Rightarrow> basic_block \<Rightarrow> nat \<Rightarrow> basic_block \<times> nat" where
  "insert_at_front m b n =
     (case run_state m (n, []) of (u, (n', is)) \<Rightarrow> (b\<lparr>bb_insts := is @ bb_insts b\<rparr>, n'))"

text \<open>The visit of all functions of a module, the hooks just declared included; \<open>None\<close> when it is undefined for
  one of them.\<close>

primrec visit_functions :: "(ir_function \<Rightarrow> ir_function option) \<Rightarrow> ir_function list \<Rightarrow> ir_function list option" where
  "visit_functions f [] = Some []"
| "visit_functions f (F # Fs) = do { F' \<leftarrow> f F; Fs' \<leftarrow> visit_functions f Fs; Some (F' # Fs') }"

section \<open>Declaring functions\<close>

definition lookup_fun :: "ir_module \<Rightarrow> string \<Rightarrow> ir_function option" where
  "lookup_fun M f = find (\<lambda>F. fun_name F = f) (mod_funs M)"

text \<open>\<open>Module::getOrInsertFunction\<close>: the function of that name, cast if it has another type, and
  declared if there is none.\<close>

definition getOrInsertFunction :: "string \<Rightarrow> ir_type \<Rightarrow> ir_type list \<Rightarrow> ir_module \<Rightarrow> ir_value \<times> ir_module" where
  "getOrInsertFunction f r ts M =
     (case lookup_fun M f of
        Some F \<Rightarrow> (if fun_type F = FunTy r ts then Fun f (FunTy r ts)
                   else ConstBitCast (Fun f (fun_type F)) (PtrTy (FunTy r ts)), M)
      | None \<Rightarrow> (Fun f (FunTy r ts), M\<lparr>mod_funs := mod_funs M @
          [\<lparr>fun_name = f, fun_ret = r, fun_args = ts, fun_cc = CC_C, fun_blocks = [], fun_next = 0\<rparr>]\<rparr>))"

definition setCallingConv :: "calling_conv \<Rightarrow> string \<Rightarrow> ir_module \<Rightarrow> ir_module" where
  "setCallingConv cc f M =
     M\<lparr>mod_funs := map (\<lambda>F. if fun_name F = f then F\<lparr>fun_cc := cc\<rparr> else F) (mod_funs M)\<rparr>"

text \<open>
  What every \<open>init\<close> does for a hook: declare it, cast the result to a function (undefined when it
  has another type), and make its calling convention \<open>Fast\<close>.
\<close>

definition declare_hook :: "string \<Rightarrow> ir_type \<Rightarrow> ir_type list \<Rightarrow> ir_module \<Rightarrow> (ir_value \<times> ir_module) option" where
  "declare_hook f r ts M =
     (case getOrInsertFunction f r ts M of
        (Fun g t, M') \<Rightarrow> Some (Fun g t, setCallingConv CC_Fast f M')
      | (v, M') \<Rightarrow> None)"

section \<open>Intrinsics\<close>

abbreviation frameaddress :: ir_value where
  "frameaddress \<equiv> Fun ''llvm.frameaddress.p0i8'' (FunTy i8ptr [IntTy 32])"

abbreviation returnaddress :: ir_value where
  "returnaddress \<equiv> Fun ''llvm.returnaddress'' (FunTy i8ptr [IntTy 32])"

section \<open>Fresh numbers\<close>

definition function_ids :: "ir_function \<Rightarrow> nat list" where
  "function_ids F = concat (map (\<lambda>b. map phi_id (bb_phis b) @ map inst_id (bb_insts b)) (fun_blocks F))"

definition ids_ok :: "ir_function \<Rightarrow> bool" where
  "ids_ok F \<longleftrightarrow> distinct (function_ids F) \<and> (\<forall>i \<in> set (function_ids F). i < fun_next F)"

end
