(* ===== verification/LLVM_Semantics.thy ===== *)
theory LLVM_Semantics
  imports LLVM_IR KSpeculation
begin

text \<open>
  Running a function of the intermediate language on the state of the runtime. The values of
  instructions are natural numbers (an integer, a pointer or a vector as its bytes make it), calls of
  hooks run the hooks of \<open>KInterface\<close>, and everything the passes do not look into is a parameter
  (\<open>world\<close>): other instructions, comparison of floating point numbers, calls of functions, of computed
  addresses and of inline assembly, and where things are.

  The two globals the inserted code uses are fields of the state, like everything of the
  runtime. A run has a bound on the number of blocks.
\<close>

section \<open>Values\<close>

type_synonym env = "nat \<Rightarrow> nat"

text \<open>\<open>site_at\<close> and \<open>assert_site_at\<close> are the sites of the hook called at an instruction, \<open>hook_fp\<close> the frame
  pointer \<open>kspecem_hook_save_stack\<close> finds there, \<open>flags_at\<close> the flags.\<close>

record 'c world =
  kern :: "'c kernel"
  site_at :: "nat \<Rightarrow> site"
  assert_site_at :: "nat \<Rightarrow> site"
  hook_fp :: "nat \<Rightarrow> addr"
  flags_at :: "nat \<Rightarrow> u64"
  frame_address :: addr
  return_address :: u64
  fun_addr :: "string \<Rightarrow> nat"
  global_addr :: "string \<Rightarrow> nat"
  store_size :: "ir_type \<Rightarrow> nat"
  other_value :: "nat \<Rightarrow> nat list \<Rightarrow> nat"
  fcmp_value :: "fcmp_pred \<Rightarrow> nat \<Rightarrow> nat \<Rightarrow> bool"
  known_call :: "string \<Rightarrow> nat list \<Rightarrow> ('c, nat) kop"
  unknown_call :: "nat \<Rightarrow> nat list \<Rightarrow> ('c, nat) kop"
  asm_call :: "string \<Rightarrow> nat list \<Rightarrow> ('c, nat) kop"

primrec eval :: "'c world \<Rightarrow> (nat \<Rightarrow> nat) \<Rightarrow> env \<Rightarrow> ir_value \<Rightarrow> nat" where
  "eval w args e (Inst n t) = e n"
| "eval w args e (Arg n t) = args n"
| "eval w args e (Fun f t) = fun_addr w f"
| "eval w args e (Global g t) = global_addr w g"
| "eval w args e (ConstInt b c) = c"
| "eval w args e (ConstNull t) = 0"
| "eval w args e (ConstBitCast v t) = eval w args e v"
| "eval w args e (InlineAsm a iV t) = 0"

definition bytes_at :: "memory \<Rightarrow> addr \<Rightarrow> nat \<Rightarrow> u8 list" where
  "bytes_at m a n = map (\<lambda>i. m (a + of_nat i)) [0..<n]"

definition nat_of_bytes :: "u8 list \<Rightarrow> nat" where
  "nat_of_bytes bs = foldr (\<lambda>b v. unat b + 256 * v) bs 0"

definition bytes_of_nat :: "nat \<Rightarrow> nat \<Rightarrow> u8 list" where
  "bytes_of_nat n v = map (\<lambda>i. of_nat (v div 256 ^ i mod 256)) [0..<n]"

definition signed_value :: "nat \<Rightarrow> nat \<Rightarrow> int" where
  "signed_value b x = (if 2 * x < 2 ^ b then int x else int x - 2 ^ b)"

definition compare_width :: "ir_type \<Rightarrow> nat" where
  "compare_width t = (case t of IntTy b \<Rightarrow> b | _ \<Rightarrow> 64)"

fun icmp_value :: "nat \<Rightarrow> icmp_pred \<Rightarrow> nat \<Rightarrow> nat \<Rightarrow> bool" where
  "icmp_value b ICMP_EQ x y = (x = y)"
| "icmp_value b ICMP_NE x y = (x \<noteq> y)"
| "icmp_value b ICMP_UGT x y = (y < x)"
| "icmp_value b ICMP_UGE x y = (y \<le> x)"
| "icmp_value b ICMP_ULT x y = (x < y)"
| "icmp_value b ICMP_ULE x y = (x \<le> y)"
| "icmp_value b ICMP_SGT x y = (signed_value b y < signed_value b x)"
| "icmp_value b ICMP_SGE x y = (signed_value b y \<le> signed_value b x)"
| "icmp_value b ICMP_SLT x y = (signed_value b x < signed_value b y)"
| "icmp_value b ICMP_SLE x y = (signed_value b x \<le> signed_value b y)"

section \<open>Calls\<close>

definition argn :: "nat list \<Rightarrow> nat \<Rightarrow> nat" where
  "argn xs i = (if i < length xs then xs ! i else 0)"

definition void :: "('c, unit) kop \<Rightarrow> ('c, nat) kop" where
  "void m = bindM m (\<lambda>_. returnM 0)"

primrec callee_name :: "ir_value \<Rightarrow> string option" where
  "callee_name (Inst n t) = None"
| "callee_name (Arg n t) = None"
| "callee_name (Fun f t) = Some f"
| "callee_name (Global g t) = None"
| "callee_name (ConstInt b c) = None"
| "callee_name (ConstNull t) = None"
| "callee_name (ConstBitCast v t) = callee_name v"
| "callee_name (InlineAsm a iV t) = None"

definition call_function :: "'c world \<Rightarrow> nat \<Rightarrow> string \<Rightarrow> nat list \<Rightarrow> ('c, nat) kop" where
  "call_function w i f xs =
     (let k = kern w; st = site_at w i; sta = assert_site_at w i; p = (\<lambda>n. of_nat (argn xs n) :: u64) in
      if f = ''kspecem_hook_store'' then void (kspecem_hook_store k st sta (p 0))
      else if f = ''kspecem_hook_memcpy'' then void (kspecem_hook_memcpy k st sta (p 0) (p 1))
      else if f = ''kspecem_hook_restart'' then
        bindM (kspecem_hook_restart k st (p 0) (int (argn xs 1)) (p 2)) (\<lambda>r. returnM (nat (r mod 2 ^ 32)))
      else if f = ''kspecem_hook_interrupt_timer'' then void (kspecem_hook_interrupt_timer k st sta (p 0) (p 1))
      else if f = ''kspecem_hook_interrupt_exception'' then
        bindM (kspecem_hook_interrupt_exception k st sta (p 0) (p 1) (int (argn xs 2))) (\<lambda>r. returnM (nat (r mod 2 ^ 32)))
      else if f = ''kspecem_hook_new_checkpoint'' then
        bindM (kspecem_hook_new_checkpoint k st sta) (\<lambda>r. returnM (unat r))
      else if f = ''kspecem_hook_save_stack'' then void (kspecem_hook_save_stack k sta (hook_fp w i) (p 0) (p 1))
      else if f = ''kspecem_asm_save_registers'' then void (save_registers (flags_at w i) (p 1))
      else if f = ''kspecem_hook_leave_rt'' then void (kspecem_hook_leave_rt k sta (p 0))
      else if f = ''kspecem_hook_check_call_depth'' then void (kspecem_hook_check_call_depth k st sta)
      else if f = ''kspecem_hook_check_spec_length'' then
        void (kspecem_hook_check_spec_length k st sta (of_nat (argn xs 0)))
      else if f = ''kspecem_hook_access'' then
        bindM (kspecem_hook_access k sta (p 0) (p 1)) (\<lambda>r. returnM (unat r))
      else if f = ''llvm.frameaddress.p0i8'' then returnM (unat (frame_address w))
      else if f = ''llvm.returnaddress'' then returnM (unat (return_address w))
      else known_call w f xs)"

definition call_value :: "'c world \<Rightarrow> (nat \<Rightarrow> nat) \<Rightarrow> env \<Rightarrow> nat \<Rightarrow> ir_value \<Rightarrow> nat list \<Rightarrow> ('c, nat) kop" where
  "call_value w args e i callee xs =
     (case callee_name callee of
        Some f \<Rightarrow> call_function w i f xs
      | None \<Rightarrow> (case callee of InlineAsm asm iV t \<Rightarrow> asm_call w asm xs
                 | _ \<Rightarrow> unknown_call w (eval w args e callee) xs))"

section \<open>Instructions\<close>

definition load_value :: "'c world \<Rightarrow> ir_type \<Rightarrow> ir_value \<Rightarrow> nat \<Rightarrow> ('c, nat) kop" where
  "load_value w t ptr a =
     (case ptr of
        Global g u \<Rightarrow>
          (if g = ''kspecem_swap_branch_condition'' then getM (\<lambda>s. of_bool (kspecem_swap_branch_condition s))
           else if g = ''kspecem_registers_ptr'' then getM (\<lambda>s. unat (kspecem_registers_ptr s))
           else getM (\<lambda>s. nat_of_bytes (bytes_at (mem s) (of_nat a) (store_size w t))))
      | _ \<Rightarrow> getM (\<lambda>s. nat_of_bytes (bytes_at (mem s) (of_nat a) (store_size w t))))"

definition store_value :: "'c world \<Rightarrow> ir_type \<Rightarrow> nat \<Rightarrow> ir_value \<Rightarrow> nat \<Rightarrow> ('c, unit) kop" where
  "store_value w t v ptr a =
     (let to_memory = modifyM (\<lambda>s. s\<lparr>mem := write_bytes (mem s) (of_nat a) (bytes_of_nat (store_size w t) v)\<rparr>) in
      case ptr of
        Global g u \<Rightarrow>
          (if g = ''kspecem_swap_branch_condition'' then modifyM (\<lambda>s. s\<lparr>kspecem_swap_branch_condition := v \<noteq> 0\<rparr>)
           else to_memory)
      | _ \<Rightarrow> to_memory)"

definition copy_bytes :: "mem_kind \<Rightarrow> nat \<Rightarrow> nat \<Rightarrow> memory \<Rightarrow> u8 list" where
  "copy_bytes mk src n m =
     (case mk of MemSet \<Rightarrow> replicate n (of_nat src) | _ \<Rightarrow> bytes_at m (of_nat src) n)"

definition exec_op :: "'c world \<Rightarrow> (nat \<Rightarrow> nat) \<Rightarrow> env \<Rightarrow> ir_inst \<Rightarrow> ('c, nat) kop" where
  "exec_op w args e i =
     (let ev = eval w args e in
      case inst_op i of
        LoadInst p \<Rightarrow> load_value w (inst_ty i) p (ev p)
      | StoreInst v p \<Rightarrow> void (store_value w (type_of v) (ev v) p (ev p))
      | CallInst cc f xs \<Rightarrow> call_value w args e (inst_id i) f (map ev xs)
      | MemIntrinsic mk d src len \<Rightarrow>
          void (modifyM (\<lambda>s. s\<lparr>mem := write_bytes (mem s) (of_nat (ev d)) (copy_bytes mk (ev src) (ev len) (mem s))\<rparr>))
      | BitCastInst v \<Rightarrow> returnM (ev v)
      | TruncInst v \<Rightarrow> returnM (ev v mod 2 ^ int_width (inst_ty i))
      | ZExtInst v \<Rightarrow> returnM (ev v)
      | ICmpInst p x y \<Rightarrow> returnM (of_bool (icmp_value (compare_width (type_of x)) p (ev x) (ev y)))
      | FCmpInst p x y \<Rightarrow> returnM (of_bool (fcmp_value w p (ev x) (ev y)))
      | XorInst x y \<Rightarrow> returnM (xor (ev x) (ev y))
      | SelectInst c x y \<Rightarrow> returnM (if ev c \<noteq> 0 then ev x else ev y)
      | OtherInst n xs \<Rightarrow> returnM (other_value w n (map ev xs)))"

definition exec_inst :: "'c world \<Rightarrow> (nat \<Rightarrow> nat) \<Rightarrow> ir_inst \<Rightarrow> env \<Rightarrow> ('c, env) kop" where
  "exec_inst w args i e = bindM (exec_op w args e i) (\<lambda>v. returnM (e(inst_id i := v)))"

primrec exec_insts :: "'c world \<Rightarrow> (nat \<Rightarrow> nat) \<Rightarrow> ir_inst list \<Rightarrow> env \<Rightarrow> ('c, env) kop" where
  "exec_insts w args [] e = returnM e"
| "exec_insts w args (i # is) e = bindM (exec_inst w args i e) (exec_insts w args is)"

section \<open>Functions\<close>

text \<open>The PHI nodes of a block read their operands before any of them is assigned.\<close>

definition exec_phis :: "'c world \<Rightarrow> (nat \<Rightarrow> nat) \<Rightarrow> string \<Rightarrow> ir_phi list \<Rightarrow> env \<Rightarrow> env" where
  "exec_phis w args prev ps e n =
     (case find (\<lambda>p. phi_id p = n) ps of
        None \<Rightarrow> e n
      | Some p \<Rightarrow> (case map_of (phi_in p) prev of None \<Rightarrow> 0 | Some v \<Rightarrow> eval w args e v))"

datatype control = Goto string | Return "nat option" | Stuck

definition exec_term :: "'c world \<Rightarrow> (nat \<Rightarrow> nat) \<Rightarrow> terminator \<Rightarrow> env \<Rightarrow> control" where
  "exec_term w args t e =
     (case t of
        Br l \<Rightarrow> Goto l
      | CondBr c l l' \<Rightarrow> Goto (if eval w args e c \<noteq> 0 then l else l')
      | Switch v d cs \<Rightarrow> Goto (case map_of cs (eval w args e v) of None \<Rightarrow> d | Some l \<Rightarrow> l)
      | ReturnInst r \<Rightarrow> Return (map_option (eval w args e) r)
      | Unreachable \<Rightarrow> Stuck)"

primrec run_blocks ::
  "nat \<Rightarrow> 'c world \<Rightarrow> (nat \<Rightarrow> nat) \<Rightarrow> basic_block list \<Rightarrow> string \<Rightarrow> string \<Rightarrow> env \<Rightarrow> ('c, nat option) kop" where
  "run_blocks 0 w args bs prev l e = faultM ''fuel''"
| "run_blocks (Suc n) w args bs prev l e =
     (case find (\<lambda>b. bb_label b = l) bs of
        None \<Rightarrow> faultM ''label''
      | Some b \<Rightarrow>
          bindM (exec_insts w args (bb_insts b) (exec_phis w args prev (bb_phis b) e)) (\<lambda>e.
            case exec_term w args (bb_term b) e of
              Goto l' \<Rightarrow> run_blocks n w args bs l l' e
            | Return r \<Rightarrow> returnM r
            | Stuck \<Rightarrow> faultM ''unreachable''))"

definition run_function :: "nat \<Rightarrow> 'c world \<Rightarrow> ir_function \<Rightarrow> (nat \<Rightarrow> nat) \<Rightarrow> ('c, nat option) kop" where
  "run_function n w F args =
     (case fun_blocks F of
        [] \<Rightarrow> faultM ''declaration''
      | b # bs \<Rightarrow> run_blocks n w args (fun_blocks F) [] (bb_label b) (\<lambda>_. 0))"

end
