(* ===== verification/LLVM_Simulation.thy ===== *)
theory LLVM_Simulation
  imports LLVM_Semantics
begin

text \<open>
  When a pass does not change what a function does. A program and its instrumented copy run on
  the same state; the copy has more instruction numbers, so that the values of instructions
  agree up to a number only (\<open>env_eq\<close>). The locale \<open>transparent_visitor\<close> says what a visitor has to show
  for single instructions, and gives the result for whole functions.
\<close>

section \<open>What a builder emits\<close>

text \<open>A builder appends instructions with fresh numbers, whatever there is already.\<close>

definition built :: "'a irb \<Rightarrow> nat \<Rightarrow> 'a" where
  "built m n = fst (run_state m (n, []))"

definition next_id :: "'a irb \<Rightarrow> nat \<Rightarrow> nat" where
  "next_id m n = fst (snd (run_state m (n, [])))"

definition emitted :: "'a irb \<Rightarrow> nat \<Rightarrow> ir_inst list" where
  "emitted m n = snd (snd (run_state m (n, [])))"

definition builder :: "'a irb \<Rightarrow> bool" where
  "builder m \<longleftrightarrow> (\<forall>n is. run_state m (n, is) = (built m n, (next_id m n, is @ emitted m n)) \<and> n \<le> next_id m n
     \<and> (\<forall>i \<in> set (emitted m n). n \<le> inst_id i \<and> inst_id i < next_id m n) \<and> distinct (map inst_id (emitted m n)))"

named_theorems irb_simps \<open>what builders emit\<close>

lemma builder_run: "builder m \<Longrightarrow> run_state m (n, is) = (built m n, (next_id m n, is @ emitted m n))"
  by (simp add: builder_def)

lemma builder_next: "builder m \<Longrightarrow> n \<le> next_id m n"
  by (simp add: builder_def)

lemma builder_return [irb_simps, simp]:
  "builder (State_Monad.return x)" "built (State_Monad.return x) n = x" "next_id (State_Monad.return x) n = n"
  "emitted (State_Monad.return x) n = []"
  by (simp_all add: builder_def built_def next_id_def emitted_def)

lemma builder_insert [irb_simps, simp]:
  "builder (insert_inst t op)" "built (insert_inst t op) n = Inst n t" "next_id (insert_inst t op) n = n + 1"
  "emitted (insert_inst t op) n = [\<lparr>inst_id = n, inst_ty = t, inst_op = op, is_asan_instr = False\<rparr>]"
  by (simp_all add: builder_def built_def next_id_def emitted_def insert_inst_def)

lemma builder_bind_run:
  assumes "builder m" and "builder (f (built m n))"
  shows "built (State_Monad.bind m f) n = built (f (built m n)) (next_id m n)"
    and "next_id (State_Monad.bind m f) n = next_id (f (built m n)) (next_id m n)"
    and "emitted (State_Monad.bind m f) n = emitted m n @ emitted (f (built m n)) (next_id m n)"
  using assms
  by (simp_all add: built_def [of "State_Monad.bind m f"] next_id_def [of "State_Monad.bind m f"]
      emitted_def [of "State_Monad.bind m f"] builder_run)

lemma builder_bind [irb_simps, simp]:
  assumes "builder m" and "\<And>x. builder (f x)"
  shows "builder (State_Monad.bind m f)"
  unfolding builder_def
proof (intro allI)
  fix n "is"
  let ?f = "f (built m n)" and ?n = "next_id m n"
  have f: "builder ?f" by (rule assms)
  note e = builder_bind_run [of m f n, OF assms(1) f]
  have "n \<le> ?n" "?n \<le> next_id ?f ?n" using assms(1) f by (simp_all add: builder_next)
  moreover have "\<forall>i \<in> set (emitted m n). n \<le> inst_id i \<and> inst_id i < ?n" "distinct (map inst_id (emitted m n))"
    using assms(1) by (simp_all add: builder_def)
  moreover have "\<forall>i \<in> set (emitted ?f ?n). ?n \<le> inst_id i \<and> inst_id i < next_id ?f ?n" "distinct (map inst_id (emitted ?f ?n))"
    using f by (simp_all add: builder_def)
  ultimately show "run_state (State_Monad.bind m f) (n, is) =
      (built (State_Monad.bind m f) n, next_id (State_Monad.bind m f) n, is @ emitted (State_Monad.bind m f) n)
      \<and> n \<le> next_id (State_Monad.bind m f) n
      \<and> (\<forall>i \<in> set (emitted (State_Monad.bind m f) n). n \<le> inst_id i \<and> inst_id i < next_id (State_Monad.bind m f) n)
      \<and> distinct (map inst_id (emitted (State_Monad.bind m f) n))"
    unfolding e using assms(1) f by (fastforce simp: builder_run)
qed

lemma builder_bind_eqs [irb_simps, simp]:
  assumes "builder m" and "\<And>x. builder (f x)"
  shows "built (State_Monad.bind m f) n = built (f (built m n)) (next_id m n)"
    and "next_id (State_Monad.bind m f) n = next_id (f (built m n)) (next_id m n)"
    and "emitted (State_Monad.bind m f) n = emitted m n @ emitted (f (built m n)) (next_id m n)"
  using builder_bind_run [OF assms(1), of f] assms(2) by auto

lemma builder_CreateCall [irb_simps, simp]:
  "builder (CreateCall f xs)" "built (CreateCall f xs) n = Inst n (ret_type (type_of f))" "next_id (CreateCall f xs) n = n + 1"
  "emitted (CreateCall f xs) n = [\<lparr>inst_id = n, inst_ty = ret_type (type_of f), inst_op = CallInst CC_C f xs, is_asan_instr = False\<rparr>]"
  by (simp_all add: CreateCall_def)

lemma builder_casts [irb_simps, simp]:
  "builder (CreateBitCast v t)" "builder (CreatePointerCast v t)" "builder (CreateTrunc v b)" "builder (CreateZExt v b)"
  "builder (CreateZExtOrTrunc v b)"
  by (simp_all add: CreateBitCast_def CreatePointerCast_def CreateTrunc_def CreateZExt_def CreateZExtOrTrunc_def
      split: ir_value.split)

section \<open>Visited instructions\<close>

primrec visited :: "(ir_inst \<Rightarrow> ir_inst irb) \<Rightarrow> ir_inst list \<Rightarrow> nat \<Rightarrow> ir_inst list" where
  "visited f [] n = []"
| "visited f (i # is) n = emitted (f i) n @ [built (f i) n] @ visited f is (next_id (f i) n)"

primrec visited_next :: "(ir_inst \<Rightarrow> ir_inst irb) \<Rightarrow> ir_inst list \<Rightarrow> nat \<Rightarrow> nat" where
  "visited_next f [] n = n"
| "visited_next f (i # is) n = visited_next f is (next_id (f i) n)"

lemma visit_insts_run:
  assumes "\<And>i. builder (f i)"
  shows "run_state (visit_insts f is) (n, acc) = ((), (visited_next f is n, acc @ visited f is n))"
  by (induction "is" arbitrary: n acc) (simp_all add: builder_run [OF assms] keep_inst_def)

lemma visited_next_le: "(\<And>i. builder (f i)) \<Longrightarrow> n \<le> visited_next f is n"
proof (induction "is" arbitrary: n)
  case (Cons i "is")
  then show ?case using builder_next [of "f i" n] order_trans by fastforce
qed simp

lemma visit_block_eq:
  assumes "\<And>i. builder (visit_inst V i)" and "\<And>b. builder (visit_term V b)"
  shows "visit_block V b n =
    (let m = visited_next (visit_inst V) (bb_insts b) n in
     (b\<lparr>bb_insts := visited (visit_inst V) (bb_insts b) n @ emitted (visit_term V b) m, bb_term := built (visit_term V b) m\<rparr>,
      next_id (visit_term V b) m))"
  using assms by (simp add: visit_block_def visit_insts_run builder_run Let_def)

lemma visit_blocks_in:
  assumes "\<And>i. builder (visit_inst V i)" and "\<And>b. builder (visit_term V b)"
  shows "b' \<in> set (fst (visit_blocks V bs n)) \<Longrightarrow> \<exists>b \<in> set bs. \<exists>m \<ge> n. b' = fst (visit_block V b m)"
proof (induction bs arbitrary: n)
  case (Cons b bs)
  have le: "n \<le> snd (visit_block V b n)"
    using visited_next_le [of "visit_inst V" n "bb_insts b", OF assms(1)]
      builder_next [OF assms(2), of "visited_next (visit_inst V) (bb_insts b) n" b]
    unfolding visit_block_eq [OF assms] Let_def snd_conv by linarith
  from Cons.prems consider "b' = fst (visit_block V b n)" | "b' \<in> set (fst (visit_blocks V bs (snd (visit_block V b n))))"
    by (auto simp: split_beta)
  then show ?case
  proof cases
    case 2
    from Cons.IH [OF this] le show ?thesis by (auto intro: order_trans)
  qed auto
qed simp

section \<open>Values that are left alone\<close>

definition env_eq :: "nat \<Rightarrow> env \<Rightarrow> env \<Rightarrow> bool" where
  "env_eq N e e' \<longleftrightarrow> (\<forall>n < N. e n = e' n)"

lemma env_eq_refl [simp]: "env_eq N e e"
  by (simp add: env_eq_def)

lemma env_eq_update: "env_eq N e e' \<Longrightarrow> env_eq N (e(n := v)) (e'(n := v))"
  by (simp add: env_eq_def)

lemma env_eq_fresh [simp]: "N \<le> n \<Longrightarrow> env_eq N e (e'(n := v)) = env_eq N e e'"
  by (auto simp: env_eq_def)

primrec value_below :: "nat \<Rightarrow> ir_value \<Rightarrow> bool" where
  "value_below N (Inst n t) = (n < N)"
| "value_below N (Arg n t) = True"
| "value_below N (Fun f t) = True"
| "value_below N (Global g t) = True"
| "value_below N (ConstInt b c) = True"
| "value_below N (ConstNull t) = True"
| "value_below N (ConstBitCast v t) = value_below N v"
| "value_below N (InlineAsm a iV t) = True"

fun operands :: "ir_op \<Rightarrow> ir_value list" where
  "operands (LoadInst p) = [p]"
| "operands (StoreInst v p) = [v, p]"
| "operands (CallInst cc f xs) = f # xs"
| "operands (MemIntrinsic mk d src len) = [d, src, len]"
| "operands (BitCastInst v) = [v]"
| "operands (TruncInst v) = [v]"
| "operands (ZExtInst v) = [v]"
| "operands (ICmpInst p x y) = [x, y]"
| "operands (FCmpInst p x y) = [x, y]"
| "operands (XorInst x y) = [x, y]"
| "operands (SelectInst c x y) = [c, x, y]"
| "operands (OtherInst n xs) = xs"

fun term_operands :: "terminator \<Rightarrow> ir_value list" where
  "term_operands (Br l) = []"
| "term_operands (CondBr c l l') = [c]"
| "term_operands (Switch v d cs) = [v]"
| "term_operands (ReturnInst r) = (case r of None \<Rightarrow> [] | Some v \<Rightarrow> [v])"
| "term_operands Unreachable = []"

definition inst_below :: "nat \<Rightarrow> ir_inst \<Rightarrow> bool" where
  "inst_below N i \<longleftrightarrow> inst_id i < N \<and> list_all (value_below N) (operands (inst_op i))"

definition block_below :: "nat \<Rightarrow> basic_block \<Rightarrow> bool" where
  "block_below N b \<longleftrightarrow> list_all (\<lambda>p. phi_id p < N \<and> list_all (value_below N \<circ> snd) (phi_in p)) (bb_phis b)
     \<and> list_all (inst_below N) (bb_insts b) \<and> list_all (value_below N) (term_operands (bb_term b))"

text \<open>Every number a function uses is below \<open>fun_next\<close>.\<close>

definition fun_below :: "ir_function \<Rightarrow> bool" where
  "fun_below F \<longleftrightarrow> list_all (block_below (fun_next F)) (fun_blocks F)"

lemma eval_env_eq: "env_eq N e e' \<Longrightarrow> value_below N v \<Longrightarrow> eval w args e v = eval w args e' v"
  by (induction v) (auto simp: env_eq_def)

lemma map_eval_env_eq:
  "env_eq N e e' \<Longrightarrow> list_all (value_below N) vs \<Longrightarrow> map (eval w args e) vs = map (eval w args e') vs"
  by (auto simp: list_all_iff intro: eval_env_eq)

lemma call_value_env_eq:
  "eval w args e f = eval w args e' f \<Longrightarrow> call_value w args e i f xs = call_value w args e' i f xs"
  by (cases f) (simp_all add: call_value_def split: option.split)

lemma exec_op_env_eq:
  assumes "env_eq N e e'" and "inst_below N i"
  shows "exec_op w args e i = exec_op w args e' i"
proof -
  have "eval w args e v = eval w args e' v" if "v \<in> set (operands (inst_op i))" for v
    using assms that by (auto simp: inst_below_def list_all_iff intro: eval_env_eq)
  moreover from this have "call_value w args e (inst_id i) f (map (eval w args e) xs) =
      call_value w args e' (inst_id i) f (map (eval w args e') xs)" if "inst_op i = CallInst cc f xs" for cc f xs
    using that call_value_env_eq by (metis (mono_tags, lifting) list.set_intros map_eq_conv operands.simps(3))
  ultimately show ?thesis
    unfolding exec_op_def Let_def by (cases "inst_op i") (auto cong: map_cong)
qed

lemma exec_phis_env_eq:
  assumes "env_eq N e e'" and "list_all (\<lambda>p. phi_id p < N \<and> list_all (value_below N \<circ> snd) (phi_in p)) ps"
  shows "env_eq N (exec_phis w args prev ps e) (exec_phis w args prev ps e')"
  unfolding env_eq_def exec_phis_def
proof (intro allI impI)
  fix n assume "n < N"
  show "(case find (\<lambda>p. phi_id p = n) ps of None \<Rightarrow> e n
      | Some p \<Rightarrow> case map_of (phi_in p) prev of None \<Rightarrow> 0 | Some v \<Rightarrow> eval w args e v) =
    (case find (\<lambda>p. phi_id p = n) ps of None \<Rightarrow> e' n
      | Some p \<Rightarrow> case map_of (phi_in p) prev of None \<Rightarrow> 0 | Some v \<Rightarrow> eval w args e' v)"
  proof (cases "find (\<lambda>p. phi_id p = n) ps")
    case (Some p)
    then have "p \<in> set ps" by (auto simp: find_Some_iff)
    with assms(2) have "value_below N v" if "map_of (phi_in p) prev = Some v" for v
      using map_of_SomeD [OF that] by (fastforce simp: list_all_iff)
    with Some assms(1) show ?thesis by (auto split: option.split intro: eval_env_eq)
  qed (use assms(1) \<open>n < N\<close> in \<open>simp add: env_eq_def\<close>)
qed

lemma exec_term_env_eq:
  "env_eq N e e' \<Longrightarrow> list_all (value_below N) (term_operands t) \<Longrightarrow> exec_term w args t e = exec_term w args t e'"
  by (cases t) (auto simp: exec_term_def eval_env_eq map_option_case split: option.splits)

section \<open>Simulation\<close>

text \<open>The two programs end the same way in the same state; on return \<open>P\<close> holds and the results are related.\<close>

fun same_outcome :: "('s \<Rightarrow> bool) \<Rightarrow> ('a \<Rightarrow> 'b \<Rightarrow> bool) \<Rightarrow> ('s, 'a) outcome \<Rightarrow> ('s, 'b) outcome \<Rightarrow> bool" where
  "same_outcome P R (Ret x t) (Ret y u) = (t = u \<and> P t \<and> R x y)"
| "same_outcome P R (Resume t) (Resume u) = (t = u)"
| "same_outcome P R (Panic p t) (Panic q u) = (p = q \<and> t = u)"
| "same_outcome P R (Fault p t) (Fault q u) = (p = q \<and> t = u)"
| "same_outcome P R x y = False"

definition sim :: "('s \<Rightarrow> bool) \<Rightarrow> ('a \<Rightarrow> 'b \<Rightarrow> bool) \<Rightarrow> ('s, 'a) km \<Rightarrow> ('s, 'b) km \<Rightarrow> bool" where
  "sim P R m m' \<longleftrightarrow> (\<forall>s. P s \<longrightarrow> same_outcome P R (m s) (m' s))"

lemma sim_return: "R x y \<Longrightarrow> sim P R (returnM x) (returnM y)"
  by (simp add: sim_def)

lemma sim_fault: "sim P R (faultM p) (faultM p)"
  by (simp add: sim_def)

lemma sim_keeps: "keeps P (\<lambda>_. True) m \<Longrightarrow> (\<And>x. R x x) \<Longrightarrow> sim P R m m"
proof -
  assume m: "keeps P (\<lambda>_. True) m" and R: "\<And>x. R x x"
  have "same_outcome P R (m s) (m s)" if "P s" for s
    using m that R by (cases "m s") (auto simp: keeps_def dest: hoareD_Ret)
  then show "sim P R m m" by (simp add: sim_def)
qed

lemma sim_bind:
  assumes "sim P R m m'" and "\<And>x y. R x y \<Longrightarrow> sim P R' (f x) (f' y)"
  shows "sim P R' (bindM m f) (bindM m' f')"
  unfolding sim_def
proof (intro allI impI)
  fix s assume "P s"
  then have "same_outcome P R (m s) (m' s)" using assms(1) by (simp add: sim_def)
  then show "same_outcome P R' (bindM m f s) (bindM m' f' s)"
    using assms(2) by (cases "m s"; cases "m' s") (auto simp: bindM_apply sim_def)
qed

lemma bind_return [simp]: "bindM (returnM x) f = f x"
  by (simp add: fun_eq_iff bindM_apply)

lemma bindM_assoc: "bindM (bindM m f) g = bindM m (\<lambda>x. bindM (f x) g)"
  by (simp add: fun_eq_iff bindM_apply split: outcome.split)

lemma exec_insts_append: "exec_insts w args (is @ js) e = bindM (exec_insts w args is e) (exec_insts w args js)"
proof (induction "is" arbitrary: e)
  case (Cons i "is")
  then have "exec_insts w args (is @ js) = (\<lambda>e. bindM (exec_insts w args is e) (exec_insts w args js))" by blast
  then show ?case by (simp add: bindM_assoc)
qed simp

lemma exec_inst_sim:
  assumes "env_eq N e e'" and "inst_below N i" and "keeps P (\<lambda>_. True) (exec_op w args e i)"
  shows "sim P (env_eq N) (exec_inst w args i e) (exec_inst w args i e')"
  unfolding exec_inst_def exec_op_env_eq [OF assms(1,2)]
proof (rule sim_bind)
  show "sim P (=) (exec_op w args e' i) (exec_op w args e' i)"
    using assms(3) unfolding exec_op_env_eq [OF assms(1,2)] by (rule sim_keeps) simp
qed (simp add: sim_return env_eq_update assms(1))

text \<open>Inserted code that returns, changes no state and no value of the program.\<close>

definition invisible :: "'c world \<Rightarrow> (nat \<Rightarrow> nat) \<Rightarrow> ('c kstate \<Rightarrow> bool) \<Rightarrow> nat \<Rightarrow> ir_inst list \<Rightarrow> bool" where
  "invisible w args P N is \<longleftrightarrow> (\<forall>e s. P s \<longrightarrow> (\<exists>e'. exec_insts w args is e s = Ret e' s \<and> env_eq N e e'))"

lemma invisible_Nil [simp]: "invisible w args P N []"
  by (auto simp: invisible_def)

lemma invisible_sim:
  assumes "invisible w args P N is" and "env_eq N e e'"
  shows "sim P (env_eq N) (returnM e) (exec_insts w args is e')"
  unfolding sim_def
proof (intro allI impI)
  fix s assume "P s"
  with assms obtain e'' where "exec_insts w args is e' s = Ret e'' s" "env_eq N e' e''" unfolding invisible_def by blast
  with assms(2) \<open>P s\<close> show "same_outcome P (env_eq N) (returnM e s) (exec_insts w args is e' s)"
    by (simp add: env_eq_def)
qed

lemma sim_invisible_then:
  assumes "invisible w args P N js" and "env_eq N e e'" and "\<And>e''. env_eq N e e'' \<Longrightarrow> sim P R (exec_insts w args is e) (f e'')"
  shows "sim P R (exec_insts w args is e) (bindM (exec_insts w args js e') f)"
proof -
  have "sim P R (bindM (returnM e) (exec_insts w args is)) (bindM (exec_insts w args js e') f)"
  proof (rule sim_bind)
    show "sim P (\<lambda>x y. x = e \<and> env_eq N e y) (returnM e) (exec_insts w args js e')"
      using invisible_sim [OF assms(1,2)] by (auto simp: sim_def elim!: same_outcome.elims)
  qed (use assms(3) in auto)
  then show ?thesis by simp
qed

text \<open>An instruction that stays, after invisible code.\<close>

lemma invisible_then_inst:
  assumes "invisible w args P N js" and "inst_below N i" and "env_eq N e e'"
    and "\<And>e. keeps P (\<lambda>_. True) (exec_op w args e i)"
  shows "sim P (env_eq N) (exec_inst w args i e) (exec_insts w args (js @ [i]) e')"
proof -
  have one: "exec_insts w args [i] e = exec_inst w args i e" for e
    by (simp add: fun_eq_iff bindM_apply split: outcome.split)
  have "sim P (env_eq N) (exec_insts w args [i] e) (bindM (exec_insts w args js e') (exec_insts w args [i]))"
    by (rule sim_invisible_then [OF assms(1,3)]) (use assms(2,4) in \<open>simp only: one exec_inst_sim\<close>)
  then show ?thesis unfolding exec_insts_append by (simp only: one)
qed

lemma invisible_append:
  assumes "invisible w args P N is" and "invisible w args P N js"
  shows "invisible w args P N (is @ js)"
  unfolding invisible_def
proof (intro allI impI)
  fix e s assume "P s"
  with assms(1) obtain e1 where 1: "exec_insts w args is e s = Ret e1 s" "env_eq N e e1" unfolding invisible_def by blast
  with assms(2) \<open>P s\<close> obtain e2 where "exec_insts w args js e1 s = Ret e2 s" "env_eq N e1 e2" unfolding invisible_def by blast
  with 1 show "\<exists>e'. exec_insts w args (is @ js) e s = Ret e' s \<and> env_eq N e e'"
    by (auto simp: exec_insts_append bindM_apply env_eq_def)
qed

lemma invisible_Cons:
  assumes "N \<le> inst_id i" and "\<And>e s. P s \<Longrightarrow> \<exists>v. exec_op w args e i s = Ret v s" and "invisible w args P N is"
  shows "invisible w args P N (i # is)"
proof -
  have "\<exists>e'. exec_insts w args [i] e s = Ret e' s \<and> env_eq N e e'" if "P s" for e s
    using assms(1) assms(2) [OF that, of e] by (auto simp: exec_inst_def bindM_apply)
  then have "invisible w args P N [i]" unfolding invisible_def by blast
  from invisible_append [OF this assms(3)] show ?thesis by simp
qed

section \<open>Functions\<close>

definition block_sim :: "'c world \<Rightarrow> (nat \<Rightarrow> nat) \<Rightarrow> ('c kstate \<Rightarrow> bool) \<Rightarrow> nat \<Rightarrow> basic_block \<Rightarrow> basic_block \<Rightarrow> bool" where
  "block_sim w args P N b b' \<longleftrightarrow> bb_label b' = bb_label b \<and> bb_phis b' = bb_phis b \<and> bb_term b' = bb_term b
     \<and> (\<forall>e e'. env_eq N e e' \<longrightarrow> sim P (env_eq N) (exec_insts w args (bb_insts b) e) (exec_insts w args (bb_insts b') e'))"

text \<open>
  More generally the two programs may run on different states, related by \<open>E\<close> while they run and by \<open>D\<close> when they end in another
  way than returning, and a block may end with another terminator that decides the same.
\<close>

fun related ::
  "('s \<Rightarrow> 't \<Rightarrow> bool) \<Rightarrow> ('s \<Rightarrow> 't \<Rightarrow> bool) \<Rightarrow> ('a \<Rightarrow> 'b \<Rightarrow> bool) \<Rightarrow> ('s, 'a) outcome \<Rightarrow> ('t, 'b) outcome \<Rightarrow> bool" where
  "related E D R (Ret x s) (Ret y t) = (E s t \<and> R x y)"
| "related E D R (Resume s) (Resume t) = D s t"
| "related E D R (Panic p s) (Panic q t) = (p = q \<and> D s t)"
| "related E D R (Fault p s) (Fault q t) = (p = q \<and> D s t)"
| "related E D R x y = False"

definition rsim :: "('s \<Rightarrow> 't \<Rightarrow> bool) \<Rightarrow> ('s \<Rightarrow> 't \<Rightarrow> bool) \<Rightarrow> ('a \<Rightarrow> 'b \<Rightarrow> bool) \<Rightarrow> ('s, 'a) km \<Rightarrow> ('t, 'b) km \<Rightarrow> bool" where
  "rsim E D R m m' \<longleftrightarrow> (\<forall>s t. E s t \<longrightarrow> related E D R (m s) (m' t))"

lemma rsim_return: "R x y \<Longrightarrow> rsim E D R (returnM x) (returnM y)"
  by (simp add: rsim_def)

lemma rsim_fault: "(\<And>s t. E s t \<Longrightarrow> D s t) \<Longrightarrow> rsim E D R (faultM p) (faultM p)"
  by (simp add: rsim_def)

lemma rsim_bind:
  assumes "rsim E D R m m'" and "\<And>x y. R x y \<Longrightarrow> rsim E D R' (f x) (f' y)"
  shows "rsim E D R' (bindM m f) (bindM m' f')"
  unfolding rsim_def
proof (intro allI impI)
  fix s t assume "E s t"
  then have "related E D R (m s) (m' t)" using assms(1) by (simp add: rsim_def)
  then show "related E D R' (bindM m f s) (bindM m' f' t)"
    using assms(2) by (cases "m s"; cases "m' t") (auto simp: bindM_apply rsim_def)
qed

lemma rsim_mono: "rsim E D R m m' \<Longrightarrow> (\<And>x y. R x y \<Longrightarrow> R' x y) \<Longrightarrow> rsim E D R' m m'"
proof -
  assume m: "rsim E D R m m'" and R: "\<And>x y. R x y \<Longrightarrow> R' x y"
  have "related E D R' x y" if "related E D R x y" for x y using that R by (cases x; cases y) auto
  with m show "rsim E D R' m m'" by (simp add: rsim_def)
qed

lemma sim_rsim: "sim P R m m' = rsim (\<lambda>s t. t = s \<and> P s) (\<lambda>s t. t = s) R m m'"
proof -
  have "same_outcome P R x y = related (\<lambda>s t. t = s \<and> P s) (\<lambda>s t. t = s) R x y" for x y
    by (cases x; cases y) auto
  then show ?thesis by (auto simp: sim_def rsim_def)
qed

definition block_rsim ::
  "'c world \<Rightarrow> (nat \<Rightarrow> nat) \<Rightarrow> ('c kstate \<Rightarrow> 'c kstate \<Rightarrow> bool) \<Rightarrow> ('c kstate \<Rightarrow> 'c kstate \<Rightarrow> bool) \<Rightarrow> nat \<Rightarrow> basic_block \<Rightarrow> basic_block \<Rightarrow> bool" where
  "block_rsim w args E D N b b' \<longleftrightarrow> bb_label b' = bb_label b \<and> bb_phis b' = bb_phis b
     \<and> list_all (\<lambda>p. phi_id p < N \<and> list_all (value_below N \<circ> snd) (phi_in p)) (bb_phis b)
     \<and> (\<forall>e e'. env_eq N e e' \<longrightarrow>
          rsim E D (\<lambda>x y. env_eq N x y \<and> exec_term w args (bb_term b) x = exec_term w args (bb_term b') y)
            (exec_insts w args (bb_insts b) e) (exec_insts w args (bb_insts b') e'))"

lemma find_block_rsim:
  assumes "list_all2 (block_rsim w args E D N) bs bs'"
  shows "rel_option (block_rsim w args E D N) (find (\<lambda>b. bb_label b = l) bs) (find (\<lambda>b. bb_label b = l) bs')"
  using assms by (induction rule: list_all2_induct) (auto simp: block_rsim_def)

lemma run_blocks_rsim:
  assumes "list_all2 (block_rsim w args E D N) bs bs'" and "\<And>s t. E s t \<Longrightarrow> D s t"
  shows "env_eq N e e' \<Longrightarrow> rsim E D (=) (run_blocks n w args bs prev l e) (run_blocks n w args bs' prev l e')"
proof (induction n arbitrary: prev l e e')
  case 0
  show ?case unfolding run_blocks.simps by (rule rsim_fault [OF assms(2)])
next
  case (Suc n)
  show ?case
  proof (cases "find (\<lambda>b. bb_label b = l) bs")
    case None
    with find_block_rsim [OF assms(1), of l] assms(2) show ?thesis by (simp add: rsim_def)
  next
    case (Some b)
    with find_block_rsim [OF assms(1), of l] obtain b' where b': "find (\<lambda>b. bb_label b = l) bs' = Some b'" "block_rsim w args E D N b b'"
      by (auto simp: option_rel_Some1)
    then have same: "bb_phis b' = bb_phis b"
      and below: "list_all (\<lambda>p. phi_id p < N \<and> list_all (value_below N \<circ> snd) (phi_in p)) (bb_phis b)"
      by (simp_all add: block_rsim_def)
    have "rsim E D (\<lambda>x y. env_eq N x y \<and> exec_term w args (bb_term b) x = exec_term w args (bb_term b') y)
        (exec_insts w args (bb_insts b) (exec_phis w args prev (bb_phis b) e))
        (exec_insts w args (bb_insts b') (exec_phis w args prev (bb_phis b) e'))"
      using b'(2) exec_phis_env_eq [OF Suc.prems below] unfolding block_rsim_def by blast
    then show ?thesis
      unfolding run_blocks.simps Some b'(1) option.case same
    proof (rule rsim_bind)
      fix x y assume xy: "env_eq N x y \<and> exec_term w args (bb_term b) x = exec_term w args (bb_term b') y"
      then have IH: "rsim E D (=) (run_blocks n w args bs l l' x) (run_blocks n w args bs' l l' y)" for l' using Suc.IH by blast
      show "rsim E D (=)
          (case exec_term w args (bb_term b) x of Goto l' \<Rightarrow> run_blocks n w args bs l l' x | Return r \<Rightarrow> returnM r | Stuck \<Rightarrow> faultM ''unreachable'')
          (case exec_term w args (bb_term b') y of Goto l' \<Rightarrow> run_blocks n w args bs' l l' y | Return r \<Rightarrow> returnM r | Stuck \<Rightarrow> faultM ''unreachable'')"
        using xy IH by (cases "exec_term w args (bb_term b') y") (auto intro: rsim_return rsim_fault [OF assms(2)])
    qed
  qed
qed

lemma run_function_rsim:
  assumes "list_all2 (block_rsim w args E D N) (fun_blocks F) (fun_blocks F')" and "\<And>s t. E s t \<Longrightarrow> D s t"
  shows "rsim E D (=) (run_function n w F args) (run_function n w F' args)"
proof (cases "fun_blocks F")
  case Nil
  with assms show ?thesis by (simp add: run_function_def rsim_def)
next
  case (Cons b bs)
  with assms(1) obtain b' bs' where F': "fun_blocks F' = b' # bs'" "bb_label b' = bb_label b"
    by (auto simp: list_all2_Cons1 block_rsim_def)
  from run_blocks_rsim [OF assms, of "\<lambda>_. 0" "\<lambda>_. 0" n "[]" "bb_label b"] Cons F' show ?thesis
    by (simp add: run_function_def)
qed

text \<open>On the same states a block that is simulated ends as before.\<close>

lemma block_sim_rsim:
  assumes "block_sim w args P N b b'" and "block_below N b"
  shows "block_rsim w args (\<lambda>s t. t = s \<and> P s) (\<lambda>s t. t = s) N b b'"
proof -
  have t: "exec_term w args (bb_term b) x = exec_term w args (bb_term b') y" if "env_eq N x y" for x y
    using assms exec_term_env_eq [OF that, of "bb_term b"] by (simp add: block_sim_def block_below_def)
  have "rsim (\<lambda>s t. t = s \<and> P s) (\<lambda>s t. t = s) (\<lambda>x y. env_eq N x y \<and> exec_term w args (bb_term b) x = exec_term w args (bb_term b') y)
      (exec_insts w args (bb_insts b) e) (exec_insts w args (bb_insts b') e')" if "env_eq N e e'" for e e'
    by (rule rsim_mono [where R = "env_eq N"]) (use assms(1) that t in \<open>auto simp: block_sim_def sim_rsim [symmetric]\<close>)
  with assms show ?thesis by (simp add: block_rsim_def block_sim_def block_below_def)
qed

fun_cases same_RetE: "same_outcome P R (Ret x t) v" and same_RetE2: "same_outcome P R v (Ret y t)"

lemma sim_RetD: "sim P R m m' \<Longrightarrow> P s \<Longrightarrow> m s = Ret x t \<Longrightarrow> \<exists>y. m' s = Ret y t \<and> R x y"
  by (fastforce simp: sim_def elim: same_RetE dest: spec [of _ s])

lemma sim_RetD2: "sim P R m m' \<Longrightarrow> P s \<Longrightarrow> m' s = Ret y t \<Longrightarrow> \<exists>x. m s = Ret x t \<and> R x y"
  by (fastforce simp: sim_def elim: same_RetE2 dest: spec [of _ s])

lemma sim_eqD: "sim P (=) m m' \<Longrightarrow> P s \<Longrightarrow> m s = m' s"
  unfolding sim_def by (auto elim!: same_outcome.elims dest: spec [of _ s])

text \<open>A function whose blocks are simulated runs as before.\<close>

lemma run_function_same:
  assumes "list_all2 (block_sim w args P (fun_next F)) (fun_blocks F) (fun_blocks F')" and "fun_below F" and "P s"
  shows "run_function n w F' args s = run_function n w F args s"
proof -
  have "list_all2 (block_rsim w args (\<lambda>s t. t = s \<and> P s) (\<lambda>s t. t = s) (fun_next F)) (fun_blocks F) (fun_blocks F')"
    using assms(1,2) unfolding fun_below_def by (induction rule: list_all2_induct) (auto intro: block_sim_rsim)
  from run_function_rsim [OF this] have "sim P (=) (run_function n w F args) (run_function n w F' args)"
    by (simp add: sim_rsim)
  from sim_eqD [OF this assms(3)] show ?thesis by simp
qed

section \<open>Visitors that change nothing\<close>

text \<open>
  What a visitor promises: its builders append, an instruction and what it becomes have the same effect
  in states with \<open>P\<close>, terminators stay and what is inserted before them is invisible. \<open>ok\<close> restricts the
  instructions the program may have.
\<close>

locale transparent_visitor =
  fixes w :: "'c world"
    and args :: "nat \<Rightarrow> nat"
    and P :: "'c kstate \<Rightarrow> bool"
    and V :: visitor
    and ok :: "ir_inst \<Rightarrow> bool"
  assumes builder_inst: "builder (visit_inst V i)"
    and builder_term: "builder (visit_term V b)"
    and inst_sim: "ok i \<Longrightarrow> inst_below N i \<Longrightarrow> N \<le> n \<Longrightarrow> env_eq N e e' \<Longrightarrow>
      sim P (env_eq N) (exec_inst w args i e)
        (exec_insts w args (emitted (visit_inst V i) n @ [built (visit_inst V i) n]) e')"
    and term_same: "built (visit_term V b) n = bb_term b"
    and term_invisible: "N \<le> n \<Longrightarrow> invisible w args P N (emitted (visit_term V b) n)"
begin

lemma insts_sim:
  "list_all ok is \<Longrightarrow> list_all (inst_below N) is \<Longrightarrow> N \<le> n \<Longrightarrow> env_eq N e e' \<Longrightarrow>
   sim P (env_eq N) (exec_insts w args is e) (exec_insts w args (visited (visit_inst V) is n) e')"
proof (induction "is" arbitrary: n e e')
  case Nil
  then show ?case unfolding exec_insts.simps visited.simps by (intro sim_return)
next
  case (Cons i "is")
  have "N \<le> next_id (visit_inst V i) n" using Cons.prems builder_next [OF builder_inst] order_trans by blast
  with Cons show ?case
    unfolding visited.simps append_assoc [symmetric] exec_insts_append [of _ _ _ "visited _ _ _"] exec_insts.simps
    by (intro sim_bind [OF inst_sim]) simp_all
qed

lemma block_visited:
  assumes "list_all ok (bb_insts b)" and "block_below N b" and "N \<le> n"
  shows "block_sim w args P N b (fst (visit_block V b n))"
proof -
  let ?m = "visited_next (visit_inst V) (bb_insts b) n"
  have "N \<le> ?m" using assms(3) visited_next_le [of "visit_inst V", OF builder_inst] order_trans by blast
  then have "sim P (env_eq N) (bindM (exec_insts w args (bb_insts b) e) returnM)
      (exec_insts w args (visited (visit_inst V) (bb_insts b) n @ emitted (visit_term V b) ?m) e')"
    if "env_eq N e e'" for e e'
    unfolding exec_insts_append using assms that
    by (intro sim_bind [OF insts_sim] invisible_sim term_invisible) (simp_all add: block_below_def)
  moreover have "bindM m returnM = m" for m :: "('c, env) kop"
    by (simp add: fun_eq_iff bindM_apply split: outcome.split)
  ultimately show ?thesis
    by (simp add: block_sim_def visit_block_eq [OF builder_inst builder_term] term_same Let_def)
qed

lemma blocks_visited:
  "list_all (\<lambda>b. list_all ok (bb_insts b)) bs \<Longrightarrow> list_all (block_below N) bs \<Longrightarrow> N \<le> n \<Longrightarrow>
   list_all2 (block_sim w args P N) bs (fst (visit_blocks V bs n))"
proof (induction bs arbitrary: n)
  case (Cons b bs)
  have "N \<le> snd (visit_block V b n)"
    using Cons.prems(3) visited_next_le [of "visit_inst V" n "bb_insts b", OF builder_inst]
      builder_next [OF builder_term, of "visited_next (visit_inst V) (bb_insts b) n" b]
    unfolding visit_block_eq [OF builder_inst builder_term] Let_def snd_conv by linarith
  with Cons block_visited [of b N n] show ?case by (simp add: split_beta)
qed simp

text \<open>The visited function runs exactly as the function does.\<close>

lemma function_visited:
  assumes "list_all (\<lambda>b. list_all ok (bb_insts b)) (fun_blocks F)" and "fun_below F" and "P s"
  shows "run_function n w (visit_function V F) args s = run_function n w F args s"
proof (rule run_function_same [where P = P])
  show "list_all2 (block_sim w args P (fun_next F)) (fun_blocks F) (fun_blocks (visit_function V F))"
    using blocks_visited [OF assms(1), of "fun_next F" "fun_next F"] assms(2)
    by (simp add: visit_function_def fun_below_def split_beta)
qed (use assms in simp_all)

end

text \<open>Inserting invisible code at the start of a function.\<close>

lemma front_same:
  assumes "builder m" and "invisible w args P (fun_next F) (emitted m (fun_next F))" and "fun_blocks F = bb # rest"
    and "list_all (\<lambda>b. block_sim w args P (fun_next F) b b) (fun_blocks F)"
    and "fun_below F" and "P s" and "insert_at_front m bb (fun_next F) = (bb', n')"
  shows "run_function n w (F\<lparr>fun_blocks := bb' # rest, fun_next := n'\<rparr>) args s = run_function n w F args s"
proof (rule run_function_same [where P = P])
  have bb': "bb' = bb\<lparr>bb_insts := emitted m (fun_next F) @ bb_insts bb\<rparr>"
    using assms(1,7) by (auto simp: insert_at_front_def builder_run)
  have "block_sim w args P (fun_next F) bb bb'"
    using assms(3,4) unfolding bb' block_sim_def
    by (auto simp: exec_insts_append intro!: sim_invisible_then [OF assms(2)])
  with assms(3,4) show "list_all2 (block_sim w args P (fun_next F)) (fun_blocks F)
      (fun_blocks (F\<lparr>fun_blocks := bb' # rest, fun_next := n'\<rparr>))"
    by (auto simp: list_all_iff list_all2_same)
qed (use assms in simp_all)

end
