(* ===== verification/KSpecEmABIList.thy ===== *)
theory KSpecEmABIList
  imports LLVM_IR
begin

text \<open>
  The function lists of the passes (\<open>passes/include/kspecem/KSpecEmABIList.h\<close>). Matching a name
  against the patterns of a list is LLVM's \<open>SpecialCaseList::inSection\<close>, a parameter: it gets the
  section, the prefix, the name and the category.
\<close>

section \<open>Definitions\<close>

record abi_list =
  SCL :: "string \<Rightarrow> string \<Rightarrow> string \<Rightarrow> string \<Rightarrow> bool"
  func_prefix :: string

definition set_abi_list :: "(string \<Rightarrow> string \<Rightarrow> string \<Rightarrow> string \<Rightarrow> bool) \<Rightarrow> string \<Rightarrow> abi_list" where
  "set_abi_list List prefix = \<lparr>SCL = List, func_prefix = prefix\<rparr>"

record global_alias =
  alias_name :: string
  alias_value_type :: ir_type

definition GetGlobalTypeString :: "ir_type \<Rightarrow> string" where
  "GetGlobalTypeString t = (case t of StructTy (Some n) \<Rightarrow> n | _ \<Rightarrow> ''<unknown type>'')"

definition drop_prefix :: "abi_list \<Rightarrow> string \<Rightarrow> string" where
  "drop_prefix l n = (if startswith n (func_prefix l) then drop (length (func_prefix l)) n else n)"

definition isIn_module :: "abi_list \<Rightarrow> string \<Rightarrow> string \<Rightarrow> bool" where
  "isIn_module l moduleIdentifier Category = SCL l ''dataflow'' ''src'' (drop_prefix l moduleIdentifier) Category"

text \<open>A function is looked up without the suffix link time optimisation adds to promoted names.\<close>

definition isIn :: "abi_list \<Rightarrow> string \<Rightarrow> ir_function \<Rightarrow> string \<Rightarrow> bool" where
  "isIn l moduleIdentifier F Category =
     (let functionName = fun_name F;
          functionName = (case find_sub functionName ''.llvm.'' of Some dotIndex \<Rightarrow> take dotIndex functionName | None \<Rightarrow> functionName);
          functionName = drop_prefix l functionName
      in isIn_module l moduleIdentifier Category \<or> SCL l ''dataflow'' ''fun'' functionName Category)"

definition isIn_alias :: "abi_list \<Rightarrow> string \<Rightarrow> global_alias \<Rightarrow> string \<Rightarrow> bool" where
  "isIn_alias l moduleIdentifier GA Category =
     (if isIn_module l moduleIdentifier Category then True
      else
        let globalAliasName = drop_prefix l (alias_name GA) in
        case alias_value_type GA of
          FunTy r ts \<Rightarrow> SCL l ''dataflow'' ''fun'' globalAliasName Category
        | _ \<Rightarrow>
            let globalTypeString = drop_prefix l (GetGlobalTypeString (alias_value_type GA)) in
            SCL l ''dataflow'' ''global'' globalAliasName Category
            \<or> SCL l ''dataflow'' ''type'' globalTypeString Category)"

section \<open>Names\<close>

lemma startswith_prefix: "startswith s p \<longleftrightarrow> (\<exists>r. s = p @ r)"
  by (induction s p rule: startswith.induct) auto

lemma startswith_append [simp]: "startswith (p @ r) p"
  by (auto simp: startswith_prefix)

lemma drop_prefix_append [simp]: "func_prefix l = p \<Longrightarrow> drop_prefix l (p @ n) = n"
  by (simp add: drop_prefix_def)

lemma find_sub_no_dot:
  assumes "CHR ''.'' \<notin> set x"
  shows "find_sub (x @ ''.llvm.'' @ h) ''.llvm.'' = Some (length x)" and "find_sub x ''.llvm.'' = None"
  using assms by (induction x) auto

end
