(* ===== verification/KSpecEmPass.thy ===== *)
theory KSpecEmPass
  imports KSpecEmABIList
begin

text \<open>
  The pass that inserts the restart, store and interrupt hooks (\<open>passes/kspecem/KSpecEm.cpp\<close>).
  \<open>None\<close> is undefined behaviour of the pass: the entry block of a declaration, the first argument
  of a function that has none, the cast of a hook that is declared with another type.
\<close>

section \<open>The pass\<close>

record kspecem_pass =
  kspecem_functions :: abi_list
  layout :: data_layout
  storeInstHook :: ir_value
  memcpyHook :: ir_value
  restartHook :: ir_value
  timerInterruptHook :: ir_value
  exceptionInterruptHook :: ir_value

definition KSpecEm_init :: "abi_list \<Rightarrow> data_layout \<Rightarrow> ir_module \<Rightarrow> (kspecem_pass \<times> ir_module) option" where
  "KSpecEm_init l DL M = do {
     (storeInst, M) \<leftarrow> declare_hook ''kspecem_hook_store'' VoidTy [i8ptr] M;
     (memcpy, M) \<leftarrow> declare_hook ''kspecem_hook_memcpy'' VoidTy [i8ptr, IntTy 64] M;
     (restart, M) \<leftarrow> declare_hook ''kspecem_hook_restart'' (IntTy 32) [i8ptr, IntTy 32, i8ptr] M;
     (timerInterrupt, M) \<leftarrow> declare_hook ''kspecem_hook_interrupt_timer'' VoidTy [i8ptr, i8ptr] M;
     (exceptionInterrupt, M) \<leftarrow> declare_hook ''kspecem_hook_interrupt_exception'' (IntTy 32) [i8ptr, i8ptr, IntTy 32] M;
     Some (\<lparr>kspecem_functions = l, layout = DL, storeInstHook = storeInst, memcpyHook = memcpy,
       restartHook = restart, timerInterruptHook = timerInterrupt, exceptionInterruptHook = exceptionInterrupt\<rparr>, M)
   }"

section \<open>Inserting hooks\<close>

definition insertRestartHook :: "kspecem_pass \<Rightarrow> nat \<Rightarrow> ir_value option \<Rightarrow> unit irb" where
  "insertRestartHook L restart_type calledFunc = do {
     arg \<leftarrow> (case calledFunc of
         Some v \<Rightarrow> CreatePointerCast v i8ptr
       | None \<Rightarrow> State_Monad.return (ConstNull i8ptr));
     CreateCall (restartHook L) [ConstNull i8ptr, ConstInt 32 restart_type, arg];
     State_Monad.return ()
   }"

definition insertTimerInterruptHook :: "kspecem_pass \<Rightarrow> ir_value \<Rightarrow> unit irb" where
  "insertTimerInterruptHook L arg = do {
     frameAddress \<leftarrow> CreateCall frameaddress [ConstInt 32 0];
     regs \<leftarrow> CreateBitCast arg i8ptr;
     CreateCall (timerInterruptHook L) [regs, frameAddress];
     State_Monad.return ()
   }"

definition insertExceptionInterruptHook :: "kspecem_pass \<Rightarrow> ir_function \<Rightarrow> ir_value \<Rightarrow> ir_value irb" where
  "insertExceptionInterruptHook L F arg = do {
     frameAddress \<leftarrow> CreateCall frameaddress [ConstInt 32 0];
     regs \<leftarrow> CreateBitCast arg i8ptr;
     CreateCall (exceptionInterruptHook L)
       [regs, frameAddress, ConstInt 32 (if fun_name F = ''exc_page_fault'' then 1 else 0)]
   }"

section \<open>Calls\<close>

text \<open>The operand of a bit cast, of the instruction or of the constant expression.\<close>

definition bitcast_operand :: "ir_function \<Rightarrow> ir_value \<Rightarrow> ir_value option" where
  "bitcast_operand F v = (case v of
       ConstBitCast w t \<Rightarrow> Some w
     | _ \<Rightarrow> (case defining_inst F v of
           Some i \<Rightarrow> (case inst_op i of BitCastInst w \<Rightarrow> Some w | _ \<Rightarrow> None)
         | None \<Rightarrow> None))"

definition hasMemoryGlobber :: "string list list \<Rightarrow> bool" where
  "hasMemoryGlobber iV = list_ex (list_ex (\<lambda>code. code = ''{memory}'' \<or> code = ''m'')) iV"

text \<open>
  Assembly that does not end a speculation. In C++ \<open>\%\<close> is a percent sign, and two of the prefixes are
  written with \<open>\0\<close> followed by a hexadecimal digit: that is a NUL character, which ends
  the string passed to \<open>rfind\<close>. What is compared is \<open>1:\<close> and \<open>${0:c}:\<close>.
\<close>

definition asm_no_restart :: "string \<Rightarrow> bool \<Rightarrow> bool" where
  "asm_no_restart asm memory \<longleftrightarrow>
     startswith asm (''# __raw_save_flags'' @ [CHR 0x0A, CHR 0x09] @ ''pushf ; pop $0'')
     \<or> contains asm ''#KSPECEM_NO_RESTART''
     \<or> asm \<in> set [''push $0 ; popf'', ''cli'', ''sti'', ''str $0'', ''rep; nop'']
     \<or> \<not> memory \<and>
        (asm \<in> set [''mull %edx'', ''bswapq $0'', ''rep; bsf $1,$0'', ''movl %cs,$0'', ''movl %ds,$0'',
           ''movl %es,$0'', ''movl %fs,$0'', ''movl %gs,$0'']
         \<or> startswith asm ''mov $0, %db'' \<or> startswith asm ''mov %db''
         \<or> startswith asm ''1:'' \<or> startswith asm ''${0:c}:''
         \<or> asm \<in> set [''movq ${1:P},$0'', ''movq $1,$0'', ''decl $0'', ''incl $0'', ''incq $0'', ''bswapl $0'',
             ''orl $1,$0'', ''andb $1,$0'', ''addq $1, $0'', ''mov $0,%cr3'', ''mov %cr4,$0'', ''mov %cr8,$0'',
             ''mov %cr3,$0''])"

text \<open>
  The called function if it is known, the restart type (initially \<open>-1\<close>) and the called value. Calls of
  memory intrinsics do not come here: the visitor has a method of their own for them.
\<close>

definition getCalledFunction :: "ir_function \<Rightarrow> ir_value \<Rightarrow> ir_value option \<times> int \<times> ir_value option" where
  "getCalledFunction F callee = (case callee of
       Fun f t \<Rightarrow> (Some callee, 1, None)
     | InlineAsm asm iV t \<Rightarrow>
         (if 0 < length asm then
            if asm_no_restart asm (hasMemoryGlobber iV) then (None, -1, None) else (None, 3, None)
          else (None, -1, None))
     | _ \<Rightarrow> (case bitcast_operand F callee of
           Some (Fun f t) \<Rightarrow> (Some (Fun f t), 2, None)
         | _ \<Rightarrow> (None, 2, Some callee)))"

definition visitCallInst :: "kspecem_pass \<Rightarrow> string \<Rightarrow> ir_function \<Rightarrow> ir_value \<Rightarrow> unit irb" where
  "visitCallInst L M F callee =
     (if isIn (kspecem_functions L) M F ''nospec'' then State_Monad.return ()
      else case getCalledFunction F callee of
        (calledFunction, restart_type, calledVal) \<Rightarrow>
          (if restart_type \<noteq> -1 \<and> calledFunction = None then insertRestartHook L (nat restart_type) calledVal
           else State_Monad.return ()))"

section \<open>Returns, stores and copies\<close>

definition visitReturnInst :: "kspecem_pass \<Rightarrow> string \<Rightarrow> ir_function \<Rightarrow> unit irb" where
  "visitReturnInst L M F =
     (if isIn (kspecem_functions L) M F ''nospec'' then State_Monad.return ()
      else do {
        returnAddress \<leftarrow> CreateCall returnaddress [ConstInt 32 0];
        insertRestartHook L 0 (Some returnAddress)
      })"

definition visitStoreInst :: "kspecem_pass \<Rightarrow> ir_function \<Rightarrow> ir_value \<Rightarrow> unit irb" where
  "visitStoreInst L F ptr =
     (if startswith (fun_name F) ''kspecem_'' then State_Monad.return ()
      else do {
        a \<leftarrow> insert_inst i8ptr (BitCastInst ptr);
        insert_inst VoidTy (CallInst CC_Fast (storeInstHook L) [a]);
        State_Monad.return ()
      })"

definition visitMemIntrinsic :: "kspecem_pass \<Rightarrow> ir_function \<Rightarrow> ir_value \<Rightarrow> ir_value \<Rightarrow> unit irb" where
  "visitMemIntrinsic L F dest len =
     (if startswith (fun_name F) ''kspecem_'' then State_Monad.return ()
      else do {
        a \<leftarrow> insert_inst i8ptr (BitCastInst dest);
        sz \<leftarrow> (if pointer_size_in_bits (layout L) = 32
               then (if int_width (type_of len) \<noteq> 32 then CreateTrunc len 32 else State_Monad.return len)
               else if 64 < int_width (type_of len) then CreateTrunc len 64
               else if int_width (type_of len) < 64 then CreateZExt len 64
               else State_Monad.return len);
        insert_inst VoidTy (CallInst CC_Fast (memcpyHook L) [a, sz]);
        State_Monad.return ()
      })"

definition KSpecEmPassVisitor :: "kspecem_pass \<Rightarrow> string \<Rightarrow> ir_function \<Rightarrow> visitor" where
  "KSpecEmPassVisitor L M F = \<lparr>
     visit_inst = (\<lambda>i. do {
       (case inst_op i of
          CallInst cc callee args \<Rightarrow> visitCallInst L M F callee
        | StoreInst v p \<Rightarrow> visitStoreInst L F p
        | MemIntrinsic mk d src len \<Rightarrow> visitMemIntrinsic L F d len
        | _ \<Rightarrow> State_Monad.return ());
       State_Monad.return i }),
     visit_term = (\<lambda>b. do {
       (case bb_term b of ReturnInst v \<Rightarrow> visitReturnInst L M F | _ \<Rightarrow> State_Monad.return ());
       State_Monad.return (bb_term b) })\<rparr>"

section \<open>Functions\<close>

text \<open>A block name that is not in use.\<close>

fun unique_label :: "string list \<Rightarrow> string \<Rightarrow> nat \<Rightarrow> string" where
  "unique_label used l 0 = l"
| "unique_label used l (Suc n) = (if l \<in> set used then unique_label used (l @ ''_'') n else l)"

definition new_label :: "basic_block list \<Rightarrow> string \<Rightarrow> string" where
  "new_label bs l = unique_label (map bb_label bs) l (length bs)"

text \<open>After \<open>SplitBlock\<close> the successors' PHI nodes name the second half.\<close>

definition rename_pred :: "string \<Rightarrow> string \<Rightarrow> basic_block \<Rightarrow> basic_block" where
  "rename_pred old new b = b\<lparr>bb_phis := map (\<lambda>p. p\<lparr>phi_in := map (\<lambda>(l, v). (if l = old then new else l, v)) (phi_in p)\<rparr>) (bb_phis b)\<rparr>"

definition exception_entry :: "kspecem_pass \<Rightarrow> ir_function \<Rightarrow> basic_block \<Rightarrow> basic_block list \<Rightarrow> ir_value \<Rightarrow> ir_function" where
  "exception_entry L F bb rest arg =
     (case run_state (do { inSpec \<leftarrow> insertExceptionInterruptHook L F arg;
                           insert_inst (IntTy 1) (ICmpInst ICMP_EQ inSpec (ConstInt 32 0)) }) (fun_next F, []) of
        (cond, (n, is)) \<Rightarrow>
          let newBB = new_label (bb # rest) (bb_label bb @ ''.split'');
              second = bb\<lparr>bb_label := newBB, bb_phis := []\<rparr>;
              returnBB = new_label (bb # second # rest) ''returnBlock'';
              first = bb\<lparr>bb_insts := is, bb_term := CondBr cond newBB returnBB\<rparr>
          in F\<lparr>fun_blocks := map (rename_pred (bb_label bb) newBB) (first # second # rest)
                 @ [\<lparr>bb_label = returnBB, bb_phis = [], bb_insts = [], bb_term = ReturnInst None\<rparr>],
               fun_next := n\<rparr>)"

definition KSpecEm_visitor :: "kspecem_pass \<Rightarrow> string \<Rightarrow> ir_function \<Rightarrow> ir_function option" where
  "KSpecEm_visitor L M F =
     (if isIn (kspecem_functions L) M F ''blacklist'' then
        (case fun_blocks F of
           [] \<Rightarrow> Some F
         | bb # rest \<Rightarrow>
             (case insert_at_front (insertRestartHook L 4 (Some (Fun (fun_name F) (fun_type F)))) bb (fun_next F) of
                (bb', n) \<Rightarrow> Some (F\<lparr>fun_blocks := bb' # rest, fun_next := n\<rparr>)))
      else if isIn (kspecem_functions L) M F ''timer'' then
        (case (fun_blocks F, fun_args F) of
           (bb # rest, t # ts) \<Rightarrow>
             (case insert_at_front (insertTimerInterruptHook L (Arg 0 t)) bb (fun_next F) of
                (bb', n) \<Rightarrow> Some (F\<lparr>fun_blocks := bb' # rest, fun_next := n\<rparr>))
         | _ \<Rightarrow> None)
      else if isIn (kspecem_functions L) M F ''exception'' then
        (case (fun_blocks F, fun_args F) of
           (bb # rest, t # ts) \<Rightarrow> Some (exception_entry L F bb rest (Arg 0 t))
         | _ \<Rightarrow> None)
      else Some (visit_function (KSpecEmPassVisitor L M F) F))"

definition KSpecEm_runImpl :: "abi_list \<Rightarrow> data_layout \<Rightarrow> ir_module \<Rightarrow> (bool \<times> ir_module) option" where
  "KSpecEm_runImpl l DL M =
     (if contains (mod_name M) ''libkspecem.a'' then Some (False, M)
      else do {
        (L, M) \<leftarrow> KSpecEm_init l DL M;
        Fs \<leftarrow> visit_functions (KSpecEm_visitor L (mod_name M)) (mod_funs M);
        Some (True, M\<lparr>mod_funs := Fs\<rparr>)
      })"

end
