(* ===== verification/KSpecEmSmallPasses.thy ===== *)
theory KSpecEmSmallPasses
  imports LLVM_IR
begin

text \<open>
  Three passes that need no function lists: the one that sends checked accesses through the access hook
  (\<open>passes/kspecem-pf-checker/KSpecEmPfChecker.cpp\<close>), the one that counts the instructions of
  a speculation (\<open>passes/kspecem-check-spec-length/KSpecEmCheckSpecLength.cpp\<close>), and the one that
  prints the size of every function (\<open>passes/count-instrs/CountInstrs.cpp\<close>).
\<close>

section \<open>The page fault checker\<close>

record pf_checker_pass =
  pf_layout :: data_layout
  AccessHookFn :: ir_value

definition PfChecker_init :: "data_layout \<Rightarrow> ir_module \<Rightarrow> pf_checker_pass \<times> ir_module" where
  "PfChecker_init DL M =
     (case getOrInsertFunction ''kspecem_hook_access'' i8ptr [i8ptr, IntTy (pointer_size_in_bits DL)] M of
        (hook, M') \<Rightarrow> (\<lparr>pf_layout = DL, AccessHookFn = hook\<rparr>, M'))"

definition PfChecker_visitLoadInst :: "pf_checker_pass \<Rightarrow> ir_inst \<Rightarrow> ir_value \<Rightarrow> ir_inst irb" where
  "PfChecker_visitLoadInst K LI ptr =
     (if \<not> is_asan_instr LI then State_Monad.return LI
      else do {
        Ptr \<leftarrow> CreateBitCast ptr i8ptr;
        Call \<leftarrow> CreateCall (AccessHookFn K)
          [Ptr, ConstInt (pointer_size_in_bits (pf_layout K)) (type_store_size (pf_layout K) (inst_ty LI))];
        NewPtr \<leftarrow> CreateBitCast Call (type_of ptr);
        State_Monad.return (LI\<lparr>inst_op := LoadInst NewPtr\<rparr>)
      })"

definition PfChecker_visitStoreInst :: "pf_checker_pass \<Rightarrow> ir_inst \<Rightarrow> ir_value \<Rightarrow> ir_value \<Rightarrow> ir_inst irb" where
  "PfChecker_visitStoreInst K SI v ptr =
     (if \<not> is_asan_instr SI then State_Monad.return SI
      else do {
        Ptr \<leftarrow> CreateBitCast ptr i8ptr;
        Call \<leftarrow> CreateCall (AccessHookFn K)
          [Ptr, ConstInt (pointer_size_in_bits (pf_layout K)) (type_store_size (pf_layout K) (type_of v))];
        NewPtr \<leftarrow> CreateBitCast Call (type_of ptr);
        State_Monad.return (SI\<lparr>inst_op := StoreInst v NewPtr\<rparr>)
      })"

text \<open>Of a copy only the destination goes through the hook.\<close>

definition PfChecker_visitMemIntrinsic ::
  "pf_checker_pass \<Rightarrow> ir_inst \<Rightarrow> mem_kind \<Rightarrow> ir_value \<Rightarrow> ir_value \<Rightarrow> ir_value \<Rightarrow> ir_inst irb" where
  "PfChecker_visitMemIntrinsic K MI mk dest src len =
     (if \<not> is_asan_instr MI then State_Monad.return MI
      else do {
        Ptr \<leftarrow> CreateBitCast dest i8ptr;
        Size \<leftarrow> CreateZExtOrTrunc len (pointer_size_in_bits (pf_layout K));
        Call \<leftarrow> CreateCall (AccessHookFn K) [Ptr, Size];
        State_Monad.return (MI\<lparr>inst_op := MemIntrinsic mk Call src len\<rparr>)
      })"

definition PfCheckerPassVisitor :: "pf_checker_pass \<Rightarrow> visitor" where
  "PfCheckerPassVisitor K = \<lparr>
     visit_inst = (\<lambda>i. case inst_op i of
        LoadInst p \<Rightarrow> PfChecker_visitLoadInst K i p
      | StoreInst v p \<Rightarrow> PfChecker_visitStoreInst K i v p
      | MemIntrinsic mk d src len \<Rightarrow> PfChecker_visitMemIntrinsic K i mk d src len
      | _ \<Rightarrow> State_Monad.return i),
     visit_term = (\<lambda>b. State_Monad.return (bb_term b))\<rparr>"

definition PfChecker_visitor :: "pf_checker_pass \<Rightarrow> ir_function \<Rightarrow> ir_function" where
  "PfChecker_visitor K F = visit_function (PfCheckerPassVisitor K) F"

definition PfChecker_runImpl :: "data_layout \<Rightarrow> ir_module \<Rightarrow> bool \<times> ir_module" where
  "PfChecker_runImpl DL M =
     (if contains (mod_name M) ''libkspecem.a'' then (False, M)
      else case PfChecker_init DL M of
        (K, M') \<Rightarrow> (True, M'\<lparr>mod_funs := map (PfChecker_visitor K) (mod_funs M')\<rparr>))"

section \<open>The length of a speculation\<close>

definition CheckSpecLength_init :: "ir_module \<Rightarrow> (ir_value \<times> ir_module) option" where
  "CheckSpecLength_init M = declare_hook ''kspecem_hook_check_spec_length'' VoidTy [IntTy 32] M"

text \<open>The count is an \<open>unsigned int\<close>.\<close>

definition CheckSpecLengthVisitor :: "ir_value \<Rightarrow> visitor" where
  "CheckSpecLengthVisitor hook = \<lparr>
     visit_inst = State_Monad.return,
     visit_term = (\<lambda>b. do {
       CreateCall hook [ConstInt 32 (inst_count b mod 2 ^ 32)];
       State_Monad.return (bb_term b) })\<rparr>"

definition CheckSpecLength_visitor :: "ir_value \<Rightarrow> ir_function \<Rightarrow> ir_function" where
  "CheckSpecLength_visitor hook F =
     (if startswith (fun_name F) ''__dfsan'' \<or> fun_name F = ''stop_nmi'' \<or> fun_name F = ''unset_rt''
         \<or> startswith (fun_name F) ''kspecem_''
      then F
      else visit_function (CheckSpecLengthVisitor hook) F)"

definition CheckSpecLength_runImpl :: "ir_module \<Rightarrow> (bool \<times> ir_module) option" where
  "CheckSpecLength_runImpl M =
     (if contains (mod_name M) ''libkspecem.a'' then Some (False, M)
      else if (contains (mod_name M) ''kdfsan'' \<or> contains (mod_name M) ''kdfinit'')
          \<and> \<not> contains (mod_name M) ''test_kdfsan'' then Some (False, M)
      else do {
        (hook, M) \<leftarrow> CheckSpecLength_init M;
        Some (True, M\<lparr>mod_funs := map (CheckSpecLength_visitor hook) (mod_funs M)\<rparr>)
      })"

section \<open>Counting instructions\<close>

text \<open>The lines printed: the name and the number of instructions, for functions that have any.\<close>

definition CountInstrs_visitor :: "ir_function \<Rightarrow> (string \<times> nat) list" where
  "CountInstrs_visitor F =
     (let count = sum_list (map inst_count (fun_blocks F)) in
      if count \<noteq> 0 then [(fun_name F, count)] else [])"

definition CountInstrs_runImpl :: "ir_module \<Rightarrow> bool \<times> (string \<times> nat) list" where
  "CountInstrs_runImpl M = (True, concat (map CountInstrs_visitor (mod_funs M)))"

end
