(* ===== verification/KTransparent.thy ===== *)
theory KTransparent
  imports LLVM_Simulation KSpecEmPass KSpecEmSmallPasses
begin

text \<open>
  Outside a speculation instrumented code runs as the code it was made from: the hooks return
  at once and change nothing. Shown for the pass that inserts restarts and store hooks, the page
  fault checker and the pass that counts instructions, as interpretations of
  \<open>transparent_visitor\<close>. Code that starts a speculation is in \<open>KInsertedCode\<close>.
\<close>

section \<open>Hooks outside a speculation\<close>

definition quiet :: "'c kstate \<Rightarrow> bool" where
  "quiet s \<longleftrightarrow> \<not> kspecem_in_speculative_emulation s \<and> \<not> kspecem_writelog_enabled s \<and> \<not> kspecem_is_in_rt s"

lemma quiet_hooks:
  assumes "quiet s"
  shows "kspecem_hook_store k st sta a s = Ret () s" and "kspecem_hook_memcpy k st sta a sz s = Ret () s"
    and "kspecem_hook_access k sta a sz s = Ret a s" and "kspecem_hook_check_spec_length k st sta c s = Ret () s"
    and "kspecem_hook_check_call_depth k st sta s = Ret () s"
    and "fa \<noteq> 0 \<Longrightarrow> kspecem_hook_interrupt_timer k st sta arg fa s = Ret () s"
    and "fa \<noteq> 0 \<Longrightarrow> kspecem_hook_interrupt_exception k st sta arg fa ty s = Ret 0 s"
  using assms
  by (simp_all add: quiet_def kspecem_hook_store_def kspecem_hook_memcpy_def kspecem_hook_access_def
      kspecem_hook_check_spec_length_def kspecem_hook_check_call_depth_def kspecem_hook_interrupt_timer_def
      kspecem_hook_interrupt_exception_def CHECK_KSPECEM_RT_def CHECK_KSPECEM_INIT_def km_simps)

lemma quiet_restart:
  assumes "quiet s" and "kernel_ok k"
  shows "kspecem_hook_restart k st arg ty ca s = Ret 0 s"
  using assms leave_eq [OF assms(2), of "s\<lparr>kspecem_is_in_rt := True, cpu := stop_nmi k (quiet_cpu k (cpu s))\<rparr>" "cpu s"]
  by (simp add: quiet_def kspecem_hook_restart_def kspecem_hook_restart_with_def CHECK_KSPECEM_INIT_def km_simps
      kspecem_restart_def kspecem_restart_with_def)

text \<open>What the calls of the program are assumed to do: they return in such states, if they return.\<close>

definition calls_keep :: "'c world \<Rightarrow> ('c kstate \<Rightarrow> bool) \<Rightarrow> bool" where
  "calls_keep w P \<longleftrightarrow> (\<forall>f xs. keeps P (\<lambda>_. True) (known_call w f xs))
     \<and> (\<forall>a xs. keeps P (\<lambda>_. True) (unknown_call w a xs)) \<and> (\<forall>a xs. keeps P (\<lambda>_. True) (asm_call w a xs))"

definition calls_quiet :: "'c world \<Rightarrow> bool" where
  "calls_quiet w \<longleftrightarrow> kernel_ok (kern w) \<and> frame_address w \<noteq> 0 \<and> calls_keep w quiet"

section \<open>Instructions of the program\<close>

definition no_hook_call :: "ir_inst \<Rightarrow> bool" where
  "no_hook_call i = (case inst_op i of
       CallInst cc f xs \<Rightarrow> (case callee_name f of Some n \<Rightarrow> \<not> startswith n ''kspecem_'' | None \<Rightarrow> True)
     | _ \<Rightarrow> True)"

lemma call_function_other:
  assumes "\<not> startswith f ''kspecem_''"
  shows "call_function w i f xs = (if f = ''llvm.frameaddress.p0i8'' then returnM (unat (frame_address w))
    else if f = ''llvm.returnaddress'' then returnM (unat (return_address w)) else known_call w f xs)"
proof -
  have ne: "f \<noteq> g" if "startswith g ''kspecem_''" for g using assms that by blast
  have "f \<noteq> ''kspecem_hook_store''" "f \<noteq> ''kspecem_hook_memcpy''" "f \<noteq> ''kspecem_hook_restart''"
    "f \<noteq> ''kspecem_hook_interrupt_timer''" "f \<noteq> ''kspecem_hook_interrupt_exception''" "f \<noteq> ''kspecem_hook_new_checkpoint''"
    "f \<noteq> ''kspecem_hook_save_stack''" "f \<noteq> ''kspecem_asm_save_registers''" "f \<noteq> ''kspecem_hook_leave_rt''"
    "f \<noteq> ''kspecem_hook_check_call_depth''" "f \<noteq> ''kspecem_hook_check_spec_length''" "f \<noteq> ''kspecem_hook_access''"
    by (rule ne, simp)+
  then show ?thesis by (simp only: call_function_def Let_def if_False)
qed

lemma keeps_exec_op:
  assumes "calls_keep w P" and "no_hook_call i" and "\<And>s m. P s \<Longrightarrow> P (s\<lparr>mem := m\<rparr>)"
    and "\<And>s b. P s \<Longrightarrow> P (s\<lparr>kspecem_swap_branch_condition := b\<rparr>)"
  shows "keeps P (\<lambda>_. True) (exec_op w args e i)"
proof (cases "inst_op i")
  case (CallInst cc f xs)
  show ?thesis
  proof (cases "callee_name f")
    case (Some n)
    with CallInst assms show ?thesis
      by (auto simp: exec_op_def call_value_def no_hook_call_def calls_keep_def call_function_other keeps_return)
  next
    case None
    with CallInst assms show ?thesis
      by (cases f) (auto simp: exec_op_def call_value_def calls_keep_def)
  qed
next
  case (LoadInst p)
  then show ?thesis by (cases p) (simp_all add: exec_op_def load_value_def keeps_get)
next
  case (StoreInst v p)
  then show ?thesis
    using assms(3,4)
    by (auto simp: exec_op_def store_value_def Let_def void_def keeps_def hoare_def bindM_apply split: ir_value.splits)
next
  case (MemIntrinsic mk d src len)
  then show ?thesis using assms(3) by (simp add: exec_op_def void_def keeps_def hoare_def bindM_apply Let_def)
qed (simp_all add: exec_op_def keeps_return Let_def)

section \<open>Restarts, stores and copies\<close>

definition kspecem_hooks :: "kspecem_pass \<Rightarrow> bool" where
  "kspecem_hooks L \<longleftrightarrow> storeInstHook L = Fun ''kspecem_hook_store'' (FunTy VoidTy [i8ptr])
     \<and> memcpyHook L = Fun ''kspecem_hook_memcpy'' (FunTy VoidTy [i8ptr, IntTy 64])
     \<and> restartHook L = Fun ''kspecem_hook_restart'' (FunTy (IntTy 32) [i8ptr, IntTy 32, i8ptr])
     \<and> timerInterruptHook L = Fun ''kspecem_hook_interrupt_timer'' (FunTy VoidTy [i8ptr, i8ptr])
     \<and> exceptionInterruptHook L = Fun ''kspecem_hook_interrupt_exception'' (FunTy (IntTy 32) [i8ptr, i8ptr, IntTy 32])"

lemma declare_hook_Some: "declare_hook f r ts M = Some (v, M') \<Longrightarrow> v = Fun f (FunTy r ts)"
  by (auto simp: declare_hook_def getOrInsertFunction_def split: option.splits if_splits)

lemma KSpecEm_init_hooks: "KSpecEm_init l DL M = Some (L, M') \<Longrightarrow> kspecem_hooks L \<and> kspecem_functions L = l \<and> layout L = DL"
  by (auto simp: KSpecEm_init_def kspecem_hooks_def dest!: declare_hook_Some split: bind_splits)

lemma call_function_hooks:
  "call_function w i ''kspecem_hook_store'' xs = void (kspecem_hook_store (kern w) (site_at w i) (assert_site_at w i) (of_nat (argn xs 0)))"
  "call_function w i ''kspecem_hook_memcpy'' xs =
     void (kspecem_hook_memcpy (kern w) (site_at w i) (assert_site_at w i) (of_nat (argn xs 0)) (of_nat (argn xs 1)))"
  "call_function w i ''kspecem_hook_restart'' xs =
     bindM (kspecem_hook_restart (kern w) (site_at w i) (of_nat (argn xs 0)) (int (argn xs 1)) (of_nat (argn xs 2)))
       (\<lambda>r. returnM (nat (r mod 2 ^ 32)))"
  "call_function w i ''kspecem_hook_interrupt_timer'' xs =
     void (kspecem_hook_interrupt_timer (kern w) (site_at w i) (assert_site_at w i) (of_nat (argn xs 0)) (of_nat (argn xs 1)))"
  "call_function w i ''kspecem_hook_check_spec_length'' xs =
     void (kspecem_hook_check_spec_length (kern w) (site_at w i) (assert_site_at w i) (of_nat (argn xs 0)))"
  "call_function w i ''kspecem_hook_check_call_depth'' xs =
     void (kspecem_hook_check_call_depth (kern w) (site_at w i) (assert_site_at w i))"
  "call_function w i ''kspecem_hook_access'' xs =
     bindM (kspecem_hook_access (kern w) (assert_site_at w i) (of_nat (argn xs 0)) (of_nat (argn xs 1))) (\<lambda>r. returnM (unat r))"
  "call_function w i ''llvm.frameaddress.p0i8'' xs = returnM (unat (frame_address w))"
  "call_function w i ''llvm.returnaddress'' xs = returnM (unat (return_address w))"
  by (simp_all add: call_function_def)

text \<open>Instructions the passes insert return in the same state.\<close>

lemma quiet_exec:
  fixes fa :: addr
  assumes "quiet s" and "kernel_ok (kern w)"
  shows "inst_op i = CallInst cc (Fun ''kspecem_hook_store'' t) vs \<Longrightarrow> exec_op w args e i s = Ret 0 s"
    and "inst_op i = CallInst cc (Fun ''kspecem_hook_memcpy'' t) vs \<Longrightarrow> exec_op w args e i s = Ret 0 s"
    and "inst_op i = CallInst cc (Fun ''kspecem_hook_restart'' t) vs \<Longrightarrow> exec_op w args e i s = Ret 0 s"
    and "inst_op i = CallInst cc (Fun ''kspecem_hook_check_spec_length'' t) vs \<Longrightarrow> exec_op w args e i s = Ret 0 s"
    and "inst_op i = CallInst cc (Fun ''kspecem_hook_check_call_depth'' t) vs \<Longrightarrow> exec_op w args e i s = Ret 0 s"
    and "inst_op i = CallInst cc (Fun ''kspecem_hook_interrupt_timer'' t) [v, v'] \<Longrightarrow> eval w args e v' = unat fa \<Longrightarrow> fa \<noteq> 0
      \<Longrightarrow> exec_op w args e i s = Ret 0 s"
    and "inst_op i = CallInst cc (Fun ''llvm.frameaddress.p0i8'' t) vs \<Longrightarrow> exec_op w args e i s = Ret (unat (frame_address w)) s"
    and "inst_op i = CallInst cc (Fun ''llvm.returnaddress'' t) vs \<Longrightarrow> exec_op w args e i s = Ret (unat (return_address w)) s"
    and "inst_op i = BitCastInst x \<Longrightarrow> exec_op w args e i s = Ret (eval w args e x) s"
    and "inst_op i = TruncInst x \<Longrightarrow> \<exists>v. exec_op w args e i s = Ret v s"
    and "inst_op i = ZExtInst x \<Longrightarrow> \<exists>v. exec_op w args e i s = Ret v s"
  using quiet_hooks [OF assms(1)] quiet_restart [OF assms]
  by (simp_all add: exec_op_def call_value_def call_function_hooks void_def bindM_apply argn_def Let_def)

text \<open>The states of a run: they have \<open>P\<close>, which implies that they are outside a speculation. The instructions of the
  program keep them so.\<close>

definition quiet_context :: "'c world \<Rightarrow> ('c kstate \<Rightarrow> bool) \<Rightarrow> bool" where
  "quiet_context w P \<longleftrightarrow> kernel_ok (kern w) \<and> frame_address w \<noteq> 0 \<and> (\<forall>s. P s \<longrightarrow> quiet s)"

definition quiet_run :: "'c world \<Rightarrow> ('c kstate \<Rightarrow> bool) \<Rightarrow> bool \<Rightarrow> 'c kstate \<Rightarrow> bool" where
  "quiet_run w P hooks s \<longleftrightarrow> quiet_context w P \<and> hooks \<and> P s"

lemma quiet_runD: "quiet_run w P h s \<Longrightarrow> quiet s \<and> kernel_ok (kern w) \<and> frame_address w \<noteq> 0"
  by (simp add: quiet_run_def quiet_context_def)

definition keeps_inst :: "'c world \<Rightarrow> ('c kstate \<Rightarrow> bool) \<Rightarrow> ir_inst \<Rightarrow> bool" where
  "keeps_inst w P i \<longleftrightarrow> (\<forall>args e. keeps P (\<lambda>_. True) (exec_op w args e i))"

lemma keeps_quiet_run: "keeps_inst w P i \<Longrightarrow> keeps (quiet_run w P h) (\<lambda>_. True) (exec_op w args e i)"
  by (cases "quiet_context w P \<and> h") (auto simp: quiet_run_def [abs_def] keeps_inst_def keeps_def hoare_def)

lemma calls_quiet_keeps: "calls_quiet w \<Longrightarrow> no_hook_call i \<Longrightarrow> keeps_inst w quiet i" and calls_quiet_context: "calls_quiet w \<Longrightarrow> quiet_context w quiet"
proof -
  assume w: "calls_quiet w"
  then show "quiet_context w quiet" by (simp add: calls_quiet_def quiet_context_def)
  show "keeps_inst w quiet i" if "no_hook_call i"
    using w that unfolding keeps_inst_def by (intro allI keeps_exec_op) (simp_all add: calls_quiet_def quiet_def)
qed

lemma builder_insertRestartHook [simp]: "builder (insertRestartHook L ty v)"
  by (cases v) (simp_all add: insertRestartHook_def)

lemma builder_visits [simp]:
  "builder (visitCallInst L M F f)" "builder (visitReturnInst L M F)" "builder (visitStoreInst L F p)"
  "builder (visitMemIntrinsic L F d len)"
  by (simp_all add: visitCallInst_def visitReturnInst_def visitStoreInst_def visitMemIntrinsic_def split_beta)

lemma builder_KSpecEmPassVisitor [simp]:
  "builder (visit_inst (KSpecEmPassVisitor L M F) i)" "builder (visit_term (KSpecEmPassVisitor L M F) b)"
  by (auto simp: KSpecEmPassVisitor_def split: ir_op.split terminator.split)

text \<open>Casts are invisible, whatever the builder makes of them.\<close>

lemma cast_cases:
  "emitted (CreateBitCast v t) n = [] \<and> next_id (CreateBitCast v t) n = n \<or>
   emitted (CreateBitCast v t) n = [\<lparr>inst_id = n, inst_ty = t, inst_op = BitCastInst v, is_asan_instr = False\<rparr>]
     \<and> next_id (CreateBitCast v t) n = n + 1"
  by (simp add: CreateBitCast_def)

definition int_cast :: "ir_value \<Rightarrow> nat \<Rightarrow> ir_value irb \<Rightarrow> bool" where
  "int_cast v b m \<longleftrightarrow> (\<forall>n. emitted m n = [] \<and> next_id m n = n \<or>
     (\<exists>op. emitted m n = [\<lparr>inst_id = n, inst_ty = IntTy b, inst_op = op, is_asan_instr = False\<rparr>]
       \<and> (op = TruncInst v \<or> op = ZExtInst v) \<and> next_id m n = n + 1))"

lemma int_cast_rules:
  "int_cast v b (CreateTrunc v b)" "int_cast v b (CreateZExt v b)" "int_cast v b (State_Monad.return v)"
  "int_cast v b m \<Longrightarrow> int_cast v b m' \<Longrightarrow> int_cast v b (if c then m else m')"
  by (cases v; simp add: int_cast_def CreateTrunc_def CreateZExt_def)+

lemma int_cast_ZExtOrTrunc: "int_cast v b (CreateZExtOrTrunc v b)"
  unfolding CreateZExtOrTrunc_def by (intro int_cast_rules)

lemma invisible_casts:
  assumes "N \<le> n"
  shows "invisible w args (quiet_run w P h) N (emitted (CreateBitCast v t) n)"
    and "int_cast v b m \<Longrightarrow> invisible w args (quiet_run w P h) N (emitted m n)"
proof -
  show "invisible w args (quiet_run w P h) N (emitted (CreateBitCast v t) n)"
    using cast_cases [of v t n] assms
    by (elim disjE conjE) (auto intro!: invisible_Cons dest!: quiet_runD simp: quiet_exec)
  show "invisible w args (quiet_run w P h) N (emitted m n)"
    if "int_cast v b m"
    using that [unfolded int_cast_def, rule_format, of n] assms
    by (elim disjE conjE exE) (auto intro!: invisible_Cons simp: exec_op_def Let_def)
qed

lemma invisible_call:
  assumes "N \<le> n" and "f \<in> {''kspecem_hook_store'', ''kspecem_hook_memcpy'', ''kspecem_hook_restart'',
      ''kspecem_hook_check_spec_length'', ''kspecem_hook_check_call_depth'', ''llvm.returnaddress'', ''llvm.frameaddress.p0i8''}"
  shows "invisible w args (quiet_run w P h) N [\<lparr>inst_id = n, inst_ty = t, inst_op = CallInst cc (Fun f u) vs, is_asan_instr = False\<rparr>]"
  using assms
  by (intro invisible_Cons invisible_Nil) (auto dest!: quiet_runD simp: quiet_exec)

lemma invisible_restart:
  assumes "N \<le> n" and "kspecem_hooks L \<or> \<not> h"
  shows "invisible w args (quiet_run w P h) N (emitted (insertRestartHook L ty v) n)"
proof (cases "kspecem_hooks L")
  case True
  then have r: "restartHook L = Fun ''kspecem_hook_restart'' (FunTy (IntTy 32) [i8ptr, IntTy 32, i8ptr])"
    by (simp add: kspecem_hooks_def)
  have "N \<le> next_id (CreateBitCast x i8ptr) n" for x using assms(1) cast_cases [of x i8ptr n] by auto
  then show ?thesis
    using assms(1)
    by (cases v) (auto simp: insertRestartHook_def CreatePointerCast_def r
        intro!: invisible_append invisible_call invisible_casts)
next
  case False
  with assms(2) show ?thesis by (simp add: invisible_def quiet_run_def)
qed

lemma invisible_bitcast:
  "N \<le> n \<Longrightarrow> invisible w args (quiet_run w P h) N [\<lparr>inst_id = n, inst_ty = t, inst_op = BitCastInst v, is_asan_instr = False\<rparr>]"
  by (intro invisible_Cons invisible_Nil) (auto simp: exec_op_def Let_def)

lemma invisible_absurd: "\<not> h \<Longrightarrow> invisible w args (quiet_run w P h) N is"
  by (simp add: invisible_def quiet_run_def)

lemma invisible_KSpecEm_visits:
  assumes "N \<le> n"
  shows "invisible w args (quiet_run w P (kspecem_hooks L)) N (emitted (visitCallInst L M F f) n)"
    and "invisible w args (quiet_run w P (kspecem_hooks L)) N (emitted (visitReturnInst L M F) n)"
    and "invisible w args (quiet_run w P (kspecem_hooks L)) N (emitted (visitStoreInst L F p) n)"
    and "invisible w args (quiet_run w P (kspecem_hooks L)) N (emitted (visitMemIntrinsic L F d len) n)"
proof -
  let ?I = "invisible w args (quiet_run w P (kspecem_hooks L)) N"
  have app: "?I (x # ys)" if "?I [x]" "?I ys" for x ys using invisible_append [OF that] by simp
  show "?I (emitted (visitCallInst L M F f) n)"
    using assms by (auto simp: visitCallInst_def split_beta intro!: invisible_restart)
  show "?I (emitted (visitReturnInst L M F) n)"
    using assms by (simp add: visitReturnInst_def app invisible_call invisible_restart)
  show "?I (emitted (visitStoreInst L F p) n)"
  proof (cases "kspecem_hooks L")
    case True
    then have "storeInstHook L = Fun ''kspecem_hook_store'' (FunTy VoidTy [i8ptr])" by (simp add: kspecem_hooks_def)
    with assms show ?thesis by (simp add: visitStoreInst_def app invisible_bitcast invisible_call)
  qed (rule invisible_absurd)
  show "?I (emitted (visitMemIntrinsic L F d len) n)"
  proof (cases "kspecem_hooks L")
    case True
    let ?m = "if pointer_size_in_bits (layout L) = 32
       then (if int_width (type_of len) \<noteq> 32 then CreateTrunc len 32 else State_Monad.return len)
       else if 64 < int_width (type_of len) then CreateTrunc len 64
       else if int_width (type_of len) < 64 then CreateZExt len 64 else State_Monad.return len"
    have "\<exists>b. int_cast len b ?m" by (auto intro: int_cast_rules)
    then obtain b where m: "int_cast len b ?m" by blast
    have "N \<le> next_id ?m (n + 1)" using m [unfolded int_cast_def, rule_format, of "n + 1"] assms by auto
    then have "?I (emitted ?m (n + 1) @ [\<lparr>inst_id = next_id ?m (n + 1), inst_ty = VoidTy,
        inst_op = CallInst CC_Fast (memcpyHook L) [Inst n i8ptr, built ?m (n + 1)], is_asan_instr = False\<rparr>])"
      using True assms m by (intro invisible_append invisible_casts) (auto simp: kspecem_hooks_def intro!: invisible_call)
    with assms show ?thesis
      by (simp add: visitMemIntrinsic_def app invisible_bitcast)
  qed (rule invisible_absurd)
qed

text \<open>The interpretation: this pass is transparent.\<close>

interpretation kspecem: transparent_visitor w args "quiet_run w P (kspecem_hooks L)" "KSpecEmPassVisitor L M F" "keeps_inst w P"
  for w :: "'c world" and args P L M F
proof
  fix i N n e e'
  assume i: "keeps_inst w P i" "inst_below N i" "N \<le> n" "env_eq N e e'"
  have "emitted (visit_inst (KSpecEmPassVisitor L M F) i) n = emitted (case inst_op i of
          CallInst cc callee args \<Rightarrow> visitCallInst L M F callee
        | StoreInst v p \<Rightarrow> visitStoreInst L F p
        | MemIntrinsic mk d src len \<Rightarrow> visitMemIntrinsic L F d len
        | _ \<Rightarrow> State_Monad.return ()) n" "built (visit_inst (KSpecEmPassVisitor L M F) i) n = i"
    by (cases "inst_op i"; simp add: KSpecEmPassVisitor_def)+
  moreover have "invisible w args (quiet_run w P (kspecem_hooks L)) N (emitted (case inst_op i of
          CallInst cc callee args \<Rightarrow> visitCallInst L M F callee
        | StoreInst v p \<Rightarrow> visitStoreInst L F p
        | MemIntrinsic mk d src len \<Rightarrow> visitMemIntrinsic L F d len
        | _ \<Rightarrow> State_Monad.return ()) n)"
    using i(3) by (cases "inst_op i") (simp_all add: invisible_KSpecEm_visits)
  ultimately show "sim (quiet_run w P (kspecem_hooks L)) (env_eq N) (exec_inst w args i e)
     (exec_insts w args (emitted (visit_inst (KSpecEmPassVisitor L M F) i) n @ [built (visit_inst (KSpecEmPassVisitor L M F) i) n]) e')"
    using i invisible_then_inst keeps_quiet_run by metis
next
  fix N n :: nat and b
  assume "N \<le> n"
  then show "invisible w args (quiet_run w P (kspecem_hooks L)) N (emitted (visit_term (KSpecEmPassVisitor L M F) b) n)"
    by (cases "bb_term b") (simp_all add: KSpecEmPassVisitor_def invisible_KSpecEm_visits)
next
  fix b n
  show "built (visit_term (KSpecEmPassVisitor L M F) b) n = bb_term b"
    by (cases "bb_term b") (simp_all add: KSpecEmPassVisitor_def)
qed simp_all

text \<open>A block simulates itself.\<close>

lemma block_sim_refl:
  assumes "list_all (keeps_inst w P) (bb_insts b)" and "block_below N b"
  shows "block_sim w args (quiet_run w P h) N b b"
proof -
  have "sim (quiet_run w P h) (env_eq N) (exec_insts w args is e) (exec_insts w args is e')"
    if "list_all (keeps_inst w P) is" "list_all (inst_below N) is" "env_eq N e e'" for "is" e e'
    using that
  proof (induction "is" arbitrary: e e')
    case Nil
    then show ?case unfolding exec_insts.simps by (intro sim_return)
  next
    case (Cons i "is")
    then show ?case
      unfolding exec_insts.simps by (intro sim_bind [OF exec_inst_sim [of N]]) (auto simp: keeps_quiet_run)
  qed
  with assms show ?thesis by (simp add: block_sim_def block_below_def)
qed

lemma front_quiet:
  assumes "builder m" and "invisible w args (quiet_run w P h) (fun_next F) (emitted m (fun_next F))" and "fun_blocks F = bb # rest"
    and "list_all (\<lambda>b. list_all (keeps_inst w P) (bb_insts b)) (fun_blocks F)" and "fun_below F" and "quiet_run w P h s"
    and "insert_at_front m bb (fun_next F) = (bb', n')"
  shows "run_function n w (F\<lparr>fun_blocks := bb' # rest, fun_next := n'\<rparr>) args s = run_function n w F args s"
  using assms(4,5)
  by (intro front_same [OF assms(1-3) _ assms(5-7)]) (auto simp: list_all_iff fun_below_def intro: block_sim_refl)

lemma builder_insertTimerInterruptHook [simp]: "builder (insertTimerInterruptHook L v)"
  by (simp add: insertTimerInterruptHook_def)

lemma builder_insertExceptionInterruptHook [simp]: "builder (insertExceptionInterruptHook L F v)"
  by (simp add: insertExceptionInterruptHook_def)

lemma invisible_timer:
  assumes "N \<le> n"
  shows "invisible w args (quiet_run w P (kspecem_hooks L)) N (emitted (insertTimerInterruptHook L v) n)"
proof (cases "kspecem_hooks L")
  case True
  then have t: "timerInterruptHook L = Fun ''kspecem_hook_interrupt_timer'' (FunTy VoidTy [i8ptr, i8ptr])"
    by (simp add: kspecem_hooks_def)
  show ?thesis
    unfolding invisible_def
  proof (intro allI impI)
    fix e s
    assume s: "quiet_run w P (kspecem_hooks L) s"
    then have q: "quiet s" "kernel_ok (kern w)" "frame_address w \<noteq> 0" by (auto dest: quiet_runD)
    let ?e = "e(n := unat (frame_address w))" and ?c = "CreateBitCast v i8ptr"
    obtain e' where e': "exec_insts w args (emitted ?c (n + 1)) ?e s = Ret e' s" "env_eq (n + 1) ?e e'"
      using invisible_casts(1) [of "n + 1" "n + 1" w args] s unfolding invisible_def by blast
    then have "e' n = unat (frame_address w)" by (auto simp: env_eq_def)
    moreover have "e' m = e m" if "m < n" for m using spec [OF e'(2) [unfolded env_eq_def], of m] that by simp
    moreover have "N \<le> next_id ?c (n + 1)" using assms builder_next [of ?c "n + 1"] by simp
    ultimately show "\<exists>e'. exec_insts w args (emitted (insertTimerInterruptHook L v) n) e s = Ret e' s \<and> env_eq N e e'"
      using e' assms q
      by (auto simp: insertTimerInterruptHook_def t exec_insts_append bindM_apply exec_inst_def quiet_exec(6,7) env_eq_def)
  qed
qed (rule invisible_absurd)

section \<open>The page fault checker\<close>

text \<open>The program leaves the variables of the runtime alone.\<close>

definition runtime_global :: "ir_value \<Rightarrow> bool" where
  "runtime_global v = (case v of Global g t \<Rightarrow> startswith g ''kspecem_'' | _ \<Rightarrow> False)"

definition program_inst :: "ir_inst \<Rightarrow> bool" where
  "program_inst i \<longleftrightarrow> no_hook_call i \<and> (case inst_op i of
       LoadInst p \<Rightarrow> \<not> runtime_global p
     | StoreInst v p \<Rightarrow> \<not> runtime_global p
     | _ \<Rightarrow> True)"

text \<open>The checked accesses do.\<close>

definition checked_ok :: "ir_inst \<Rightarrow> bool" where
  "checked_ok i \<longleftrightarrow> (is_asan_instr i \<longrightarrow> (case inst_op i of
       LoadInst p \<Rightarrow> \<not> runtime_global p
     | StoreInst v p \<Rightarrow> \<not> runtime_global p
     | _ \<Rightarrow> True))"

lemma cast_run:
  assumes "value_below n v"
  obtains e' where "exec_insts w args (emitted (CreateBitCast v t) n) e s = Ret e' s" and "env_eq n e e'"
    and "eval w args e' (built (CreateBitCast v t) n) = eval w args e v"
    and "value_below (next_id (CreateBitCast v t) n) (built (CreateBitCast v t) n)"
proof (cases "type_of v = t \<or> is_constant v")
  case True
  with assms show thesis by (intro that [of e]) (auto simp: CreateBitCast_def)
next
  case False
  then show thesis
    by (intro that [of "e(n := eval w args e v)"])
      (simp_all add: CreateBitCast_def exec_inst_def exec_op_def bindM_apply Let_def)
qed

lemma value_below_mono: "value_below n v \<Longrightarrow> n \<le> m \<Longrightarrow> value_below m v"
  by (induction v) auto

lemma access_call_run:
  assumes "quiet s" and "callee_name f = Some ''kspecem_hook_access''"
  shows "exec_op w args e \<lparr>inst_id = n, inst_ty = t, inst_op = CallInst cc f [v, sz], is_asan_instr = False\<rparr> s =
    Ret (unat (of_nat (eval w args e v) :: u64)) s"
  using assms by (simp add: exec_op_def call_value_def call_function_hooks bindM_apply quiet_hooks argn_def Let_def)

definition access_hook :: "pf_checker_pass \<Rightarrow> bool" where
  "access_hook K \<longleftrightarrow> callee_name (AccessHookFn K) = Some ''kspecem_hook_access''"

lemma PfChecker_init_hook: "access_hook (fst (PfChecker_init DL M))"
  by (auto simp: access_hook_def PfChecker_init_def getOrInsertFunction_def split: option.split)

text \<open>The checked pointer is the pointer.\<close>

definition checked_pointer :: "pf_checker_pass \<Rightarrow> ir_value \<Rightarrow> nat \<Rightarrow> ir_value irb" where
  "checked_pointer K ptr sz = do {
     Ptr \<leftarrow> CreateBitCast ptr i8ptr;
     Call \<leftarrow> CreateCall (AccessHookFn K) [Ptr, ConstInt (pointer_size_in_bits (pf_layout K)) sz];
     CreateBitCast Call (type_of ptr)
   }"

lemma builder_checked_pointer [simp]: "builder (checked_pointer K ptr sz)"
  by (simp add: checked_pointer_def)

lemma checked_pointer_run:
  assumes "quiet s" and "access_hook K" and "value_below N ptr" and "N \<le> n"
  obtains e' where "exec_insts w args (emitted (checked_pointer K ptr sz) n) e s = Ret e' s" and "env_eq N e e'"
    and "eval w args e' (built (checked_pointer K ptr sz) n) = unat (of_nat (eval w args e ptr) :: u64)"
    and "\<not> runtime_global (built (checked_pointer K ptr sz) n)"
proof -
  let ?c = "CreateBitCast ptr i8ptr" and ?k = "ConstInt (pointer_size_in_bits (pf_layout K)) sz"
  let ?n = "next_id ?c n" and ?t = "ret_type (type_of (AccessHookFn K))"
  obtain e1 where 1: "exec_insts w args (emitted ?c n) e s = Ret e1 s" "env_eq n e e1" "eval w args e1 (built ?c n) = eval w args e ptr"
    by (rule cast_run [OF value_below_mono [OF assms(3,4)], where w = w and args = args and t = i8ptr and e = e and s = s])
  define e2 where "e2 = e1(?n := unat (of_nat (eval w args e ptr) :: u64))"
  have "value_below (?n + 1) (Inst ?n ?t)" by simp
  then obtain e3 where 3: "exec_insts w args (emitted (CreateBitCast (Inst ?n ?t) (type_of ptr)) (?n + 1)) e2 s = Ret e3 s"
    "env_eq (?n + 1) e2 e3" "eval w args e3 (built (CreateBitCast (Inst ?n ?t) (type_of ptr)) (?n + 1)) = eval w args e2 (Inst ?n ?t)"
    by (rule cast_run [where w = w and args = args and t = "type_of ptr" and e = e2 and s = s])
  have "n \<le> ?n" by (simp add: builder_next)
  have "e m = e3 m" if "m < N" for m
    using spec [OF 1(2) [unfolded env_eq_def], of m] spec [OF 3(2) [unfolded env_eq_def e2_def], of m] that assms(4) \<open>n \<le> ?n\<close> by simp
  then have "env_eq N e e3" by (simp add: env_eq_def)
  moreover have "exec_insts w args (emitted (checked_pointer K ptr sz) n) e s = Ret e3 s"
    using 1 3(1) assms(1,2)
    by (simp add: checked_pointer_def exec_insts_append bindM_apply exec_inst_def access_call_run access_hook_def e2_def)
  moreover have "\<not> runtime_global (built (checked_pointer K ptr sz) n)"
    by (simp add: checked_pointer_def runtime_global_def CreateBitCast_def)
  ultimately show thesis using 3(3) by (intro that) (simp_all add: checked_pointer_def e2_def)
qed

text \<open>An instruction that is replaced by one with the same effect, after code that changes nothing.\<close>

lemma replaced_inst_sim:
  assumes "inst_below N i" and "inst_id i' = inst_id i" and "env_eq N e e'"
    and "\<And>e. keeps P (\<lambda>_. True) (exec_op w args e i)"
    and "\<And>s. P s \<Longrightarrow> \<exists>e1. exec_insts w args js e' s = Ret e1 s \<and> env_eq N e' e1 \<and> exec_op w args e1 i' = exec_op w args e' i"
  shows "sim P (env_eq N) (exec_inst w args i e) (exec_insts w args (js @ [i']) e')"
  unfolding sim_def
proof (intro allI impI)
  fix s assume "P s"
  with assms(5) obtain e1 where 1: "exec_insts w args js e' s = Ret e1 s" "env_eq N e' e1"
    "exec_op w args e1 i' = exec_op w args e' i" by blast
  have "env_eq N e e1" using assms(3) 1(2) by (simp add: env_eq_def)
  moreover have "exec_op w args e' i = exec_op w args e i" by (rule exec_op_env_eq [OF assms(3,1), symmetric])
  ultimately show "same_outcome P (env_eq N) (exec_inst w args i e s) (exec_insts w args (js @ [i']) e' s)"
    using 1(1,3) assms(2,4) \<open>P s\<close>
    by (cases "exec_op w args e i s")
      (auto simp: exec_inst_def exec_insts_append bindM_apply keeps_def env_eq_update dest: hoareD_Ret)
qed

lemma builder_PfChecker [simp]:
  "builder (visit_inst (PfCheckerPassVisitor K) i)" "builder (visit_term (PfCheckerPassVisitor K) b)"
  by (auto simp: PfCheckerPassVisitor_def PfChecker_visitLoadInst_def PfChecker_visitStoreInst_def
      PfChecker_visitMemIntrinsic_def split: ir_op.split)

lemma PfChecker_visits_eq:
  "is_asan_instr i \<Longrightarrow> PfChecker_visitLoadInst K i p =
     do { q \<leftarrow> checked_pointer K p (type_store_size (pf_layout K) (inst_ty i)); State_Monad.return (i\<lparr>inst_op := LoadInst q\<rparr>) }"
  "is_asan_instr i \<Longrightarrow> PfChecker_visitStoreInst K i v p =
     do { q \<leftarrow> checked_pointer K p (type_store_size (pf_layout K) (type_of v)); State_Monad.return (i\<lparr>inst_op := StoreInst v q\<rparr>) }"
  by (simp_all add: PfChecker_visitLoadInst_def PfChecker_visitStoreInst_def checked_pointer_def)

lemma access_program_memory:
  assumes "\<not> runtime_global p"
  shows "load_value w t p a = getM (\<lambda>s. nat_of_bytes (bytes_at (mem s) (of_nat a) (store_size w t)))"
    and "store_value w t v p a = modifyM (\<lambda>s. s\<lparr>mem := write_bytes (mem s) (of_nat a) (bytes_of_nat (store_size w t) v)\<rparr>)"
proof -
  have "g \<noteq> ''kspecem_swap_branch_condition'' \<and> g \<noteq> ''kspecem_registers_ptr''" if "p = Global g u" for g u
    using assms that by (auto simp: runtime_global_def)
  then show "load_value w t p a = getM (\<lambda>s. nat_of_bytes (bytes_at (mem s) (of_nat a) (store_size w t)))"
    "store_value w t v p a = modifyM (\<lambda>s. s\<lparr>mem := write_bytes (mem s) (of_nat a) (bytes_of_nat (store_size w t) v)\<rparr>)"
    by (cases p; simp add: load_value_def store_value_def)+
qed

lemma checked_load_sim:
  assumes "inst_op i = LoadInst p" and "keeps_inst w P i \<and> checked_ok i" and "inst_below N i" and "N \<le> n" and "env_eq N e e'"
    and "is_asan_instr i"
  shows "sim (quiet_run w P (access_hook K)) (env_eq N) (exec_inst w args i e) (exec_insts w args
    (emitted (checked_pointer K p sz) n @ [i\<lparr>inst_op := LoadInst (built (checked_pointer K p sz) n)\<rparr>]) e')"
proof (rule replaced_inst_sim [OF assms(3) _ assms(5)])
  fix s assume s: "quiet_run w P (access_hook K) s"
  have p: "value_below N p" "\<not> runtime_global p" using assms(1-3,6) by (simp_all add: inst_below_def checked_ok_def)
  obtain e1 where "exec_insts w args (emitted (checked_pointer K p sz) n) e' s = Ret e1 s" "env_eq N e' e1"
    "eval w args e1 (built (checked_pointer K p sz) n) = unat (of_nat (eval w args e' p) :: u64)"
    "\<not> runtime_global (built (checked_pointer K p sz) n)"
    using s p assms(4) by (auto simp: quiet_run_def quiet_context_def elim: checked_pointer_run)
  with assms(1) p show "\<exists>e1. exec_insts w args (emitted (checked_pointer K p sz) n) e' s = Ret e1 s \<and> env_eq N e' e1
      \<and> exec_op w args e1 (i\<lparr>inst_op := LoadInst (built (checked_pointer K p sz) n)\<rparr>) = exec_op w args e' i"
    by (intro exI [of _ e1]) (simp add: exec_op_def Let_def access_program_memory)
qed (use assms(2) in \<open>simp_all add: keeps_quiet_run\<close>)

lemma checked_store_sim:
  assumes "inst_op i = StoreInst v p" and "keeps_inst w P i \<and> checked_ok i" and "inst_below N i" and "N \<le> n" and "env_eq N e e'"
    and "is_asan_instr i"
  shows "sim (quiet_run w P (access_hook K)) (env_eq N) (exec_inst w args i e) (exec_insts w args
    (emitted (checked_pointer K p sz) n @ [i\<lparr>inst_op := StoreInst v (built (checked_pointer K p sz) n)\<rparr>]) e')"
proof (rule replaced_inst_sim [OF assms(3) _ assms(5)])
  fix s assume s: "quiet_run w P (access_hook K) s"
  have p: "value_below N p" "value_below N v" "\<not> runtime_global p" using assms(1-3,6) by (simp_all add: inst_below_def checked_ok_def)
  obtain e1 where "exec_insts w args (emitted (checked_pointer K p sz) n) e' s = Ret e1 s" "env_eq N e' e1"
    "eval w args e1 (built (checked_pointer K p sz) n) = unat (of_nat (eval w args e' p) :: u64)"
    "\<not> runtime_global (built (checked_pointer K p sz) n)"
    using s p assms(4) by (auto simp: quiet_run_def quiet_context_def elim: checked_pointer_run)
  with assms(1) p show "\<exists>e1. exec_insts w args (emitted (checked_pointer K p sz) n) e' s = Ret e1 s \<and> env_eq N e' e1
      \<and> exec_op w args e1 (i\<lparr>inst_op := StoreInst v (built (checked_pointer K p sz) n)\<rparr>) = exec_op w args e' i"
    by (intro exI [of _ e1]) (auto simp: exec_op_def Let_def access_program_memory dest: eval_env_eq [OF _ p(2), of e' e1 w args])
qed (use assms(2) in \<open>simp_all add: keeps_quiet_run\<close>)

text \<open>A copy has its destination checked.\<close>

lemma int_cast_run:
  assumes "int_cast v b m"
  obtains e' where "exec_insts w args (emitted m n) e s = Ret e' s" and "env_eq n e e'"
proof -
  consider "emitted m n = []" | op x where "emitted m n = [\<lparr>inst_id = n, inst_ty = IntTy b, inst_op = op, is_asan_instr = False\<rparr>]"
    "exec_op w args e \<lparr>inst_id = n, inst_ty = IntTy b, inst_op = op, is_asan_instr = False\<rparr> = returnM x"
    using assms unfolding int_cast_def by (fastforce simp: exec_op_def Let_def)
  then show thesis
  proof cases
    case 1
    then show ?thesis by (intro that [of e]) simp_all
  next
    case (2 op x)
    then show ?thesis by (intro that [of "e(n := x)"]) (simp_all add: exec_inst_def bindM_apply)
  qed
qed

lemma checked_copy_sim:
  assumes "inst_op i = MemIntrinsic mk d src len" and "keeps_inst w P i \<and> checked_ok i" and "inst_below N i" and "N \<le> n" and "env_eq N e e'"
    and "is_asan_instr i"
  shows "sim (quiet_run w P (access_hook K)) (env_eq N) (exec_inst w args i e) (exec_insts w args
    (emitted (PfChecker_visitMemIntrinsic K i mk d src len) n @ [built (PfChecker_visitMemIntrinsic K i mk d src len) n]) e')"
proof -
  let ?c = "CreateBitCast d i8ptr" and ?z = "CreateZExtOrTrunc len (pointer_size_in_bits (pf_layout K))"
  let ?n = "next_id ?c n"
  let ?m = "next_id ?z ?n" and ?t = "ret_type (type_of (AccessHookFn K))"
  let ?call = "\<lparr>inst_id = ?m, inst_ty = ?t, inst_op = CallInst CC_C (AccessHookFn K) [built ?c n, built ?z ?n], is_asan_instr = False\<rparr>"
  let ?i = "i\<lparr>inst_op := MemIntrinsic mk (Inst ?m ?t) src len\<rparr>"
  have v: "value_below N d" "value_below N src" "value_below N len" using assms(1,3) by (simp_all add: inst_below_def)
  have le: "n \<le> ?n" "?n \<le> ?m" by (simp_all add: builder_next)
  have "\<exists>e1. exec_insts w args (emitted ?c n @ emitted ?z ?n @ [?call]) e' s = Ret e1 s \<and> env_eq N e' e1
      \<and> exec_op w args e1 ?i = exec_op w args e' i" if s: "quiet_run w P (access_hook K) s" for s
  proof -
    obtain e1 where 1: "exec_insts w args (emitted ?c n) e' s = Ret e1 s" "env_eq n e' e1" "eval w args e1 (built ?c n) = eval w args e' d"
      "value_below ?n (built ?c n)"
      by (rule cast_run [OF value_below_mono [OF v(1) assms(4)], where w = w and args = args and t = i8ptr and e = e' and s = s])
    obtain e2 where 2: "exec_insts w args (emitted ?z ?n) e1 s = Ret e2 s" "env_eq ?n e1 e2"
      by (rule int_cast_run [OF int_cast_ZExtOrTrunc, where w = w and args = args and e = e1 and s = s])
    have a: "eval w args e2 (built ?c n) = eval w args e' d" using 1(3,4) 2(2) eval_env_eq by metis
    define e3 where "e3 = e2(?m := unat (of_nat (eval w args e' d) :: u64))"
    have "e' j = e3 j" if "j < N" for j
      using that assms(4) le 1(2) 2(2) by (auto simp: e3_def env_eq_def)
    then have 3: "env_eq N e' e3" by (simp add: env_eq_def)
    have "exec_insts w args (emitted ?c n @ emitted ?z ?n @ [?call]) e' s = Ret e3 s"
      using 1(1) 2(1) s a
      by (simp add: exec_insts_append bindM_apply exec_inst_def quiet_run_def quiet_context_def access_call_run access_hook_def e3_def)
    moreover have "eval w args e3 src = eval w args e' src" "eval w args e3 len = eval w args e' len"
      by (rule eval_env_eq [OF 3 v(2), symmetric] eval_env_eq [OF 3 v(3), symmetric])+
    then have "exec_op w args e3 ?i = exec_op w args e' i"
      using assms(1) by (simp add: exec_op_def Let_def) (simp add: e3_def)
    ultimately show ?thesis using 3 by blast
  qed
  then have "sim (quiet_run w P (access_hook K)) (env_eq N) (exec_inst w args i e)
      (exec_insts w args ((emitted ?c n @ emitted ?z ?n @ [?call]) @ [?i]) e')"
    using assms(2) by (intro replaced_inst_sim [OF assms(3) _ assms(5)]) (auto simp: keeps_quiet_run)
  with assms(6) show ?thesis by (simp add: PfChecker_visitMemIntrinsic_def)
qed

interpretation pf_checker: transparent_visitor w args "quiet_run w P (access_hook K)" "PfCheckerPassVisitor K"
  "\<lambda>i. keeps_inst w P i \<and> checked_ok i" for w :: "'c world" and args P K
proof
  fix i N n e e'
  assume i: "keeps_inst w P i \<and> checked_ok i" "inst_below N i" "N \<le> n" "env_eq N e e'"
  have plain: "sim (quiet_run w P (access_hook K)) (env_eq N) (exec_inst w args i e) (exec_insts w args ([] @ [i]) e')"
    using i by (intro invisible_then_inst) (simp_all add: keeps_quiet_run)
  show "sim (quiet_run w P (access_hook K)) (env_eq N) (exec_inst w args i e)
     (exec_insts w args (emitted (visit_inst (PfCheckerPassVisitor K) i) n @ [built (visit_inst (PfCheckerPassVisitor K) i) n]) e')"
  proof (cases "is_asan_instr i")
    case True
    with plain show ?thesis
      by (cases "inst_op i") (simp_all add: PfCheckerPassVisitor_def PfChecker_visits_eq checked_load_sim [OF _ i]
          checked_store_sim [OF _ i] checked_copy_sim [OF _ i])
  next
    case False
    with plain show ?thesis
      by (cases "inst_op i") (simp_all add: PfCheckerPassVisitor_def PfChecker_visitLoadInst_def PfChecker_visitStoreInst_def
          PfChecker_visitMemIntrinsic_def)
  qed
qed (rule builder_PfChecker, rule builder_PfChecker, simp_all add: PfCheckerPassVisitor_def)

section \<open>Counting instructions\<close>

definition length_hook :: "ir_value \<Rightarrow> bool" where
  "length_hook h \<longleftrightarrow> (\<exists>t. h = Fun ''kspecem_hook_check_spec_length'' t)"

lemma CheckSpecLength_init_hook: "CheckSpecLength_init M = Some (h, M') \<Longrightarrow> length_hook h"
  by (auto simp: CheckSpecLength_init_def length_hook_def dest: declare_hook_Some)

interpretation spec_length: transparent_visitor w args "quiet_run w P (length_hook h)" "CheckSpecLengthVisitor h" "keeps_inst w P"
  for w :: "'c world" and args P h
proof
  fix N n :: nat and b
  assume "N \<le> n"
  then show "invisible w args (quiet_run w P (length_hook h)) N (emitted (visit_term (CheckSpecLengthVisitor h) b) n)"
    by (cases "length_hook h") (auto simp: CheckSpecLengthVisitor_def length_hook_def invisible_absurd intro!: invisible_call)
next
  fix i N n e e'
  assume i: "keeps_inst w P i" "inst_below N i" "N \<le> n" "env_eq N e e'"
  have "sim (quiet_run w P (length_hook h)) (env_eq N) (exec_inst w args i e) (exec_insts w args ([] @ [i]) e')"
    using i by (intro invisible_then_inst) (simp_all add: keeps_quiet_run)
  then show "sim (quiet_run w P (length_hook h)) (env_eq N) (exec_inst w args i e)
     (exec_insts w args (emitted (visit_inst (CheckSpecLengthVisitor h) i) n @ [built (visit_inst (CheckSpecLengthVisitor h) i) n]) e')"
    by (simp add: CheckSpecLengthVisitor_def)
qed (simp_all add: CheckSpecLengthVisitor_def)

section \<open>Functions\<close>

text \<open>Each of the three passes leaves what a function does as it is, in states with \<open>P\<close>.\<close>

lemma KSpecEm_same:
  assumes "kspecem_hooks L" and "KSpecEm_visitor L M F = Some F'" and "\<not> isIn (kspecem_functions L) M F ''exception''"
    and "fun_below F" and "list_all (\<lambda>b. list_all (keeps_inst w P) (bb_insts b)) (fun_blocks F)" and "quiet_context w P" and "P s"
  shows "run_function n w F' args s = run_function n w F args s"
proof -
  have s: "quiet_run w P (kspecem_hooks L) s" using assms(1,6,7) by (simp add: quiet_run_def)
  note front = front_quiet [OF _ _ _ assms(5,4) s]
  consider "isIn (kspecem_functions L) M F ''blacklist''"
    | "\<not> isIn (kspecem_functions L) M F ''blacklist''" "isIn (kspecem_functions L) M F ''timer''"
    | "F' = visit_function (KSpecEmPassVisitor L M F) F"
    using assms(2,3) by (auto simp: KSpecEm_visitor_def split: if_splits)
  then show ?thesis
  proof cases
    case 1
    with assms(2) show ?thesis
      by (auto simp: KSpecEm_visitor_def split: list.splits prod.splits intro!: front invisible_restart)
  next
    case 2
    with assms(2) show ?thesis
      by (auto simp: KSpecEm_visitor_def split: list.splits prod.splits intro!: front invisible_timer)
  next
    case 3
    then show ?thesis using kspecem.function_visited [OF assms(5,4) s] by simp
  qed
qed

lemma PfChecker_same:
  assumes "access_hook K" and "fun_below F"
    and "list_all (\<lambda>b. list_all (\<lambda>i. keeps_inst w P i \<and> checked_ok i) (bb_insts b)) (fun_blocks F)" and "quiet_context w P" and "P s"
  shows "run_function n w (PfChecker_visitor K F) args s = run_function n w F args s"
proof -
  have "quiet_run w P (access_hook K) s" using assms(1,4,5) by (simp add: quiet_run_def)
  from pf_checker.function_visited [OF assms(3,2) this] show ?thesis by (simp add: PfChecker_visitor_def)
qed

lemma CheckSpecLength_same:
  assumes "length_hook h" and "fun_below F"
    and "list_all (\<lambda>b. list_all (keeps_inst w P) (bb_insts b)) (fun_blocks F)" and "quiet_context w P" and "P s"
  shows "run_function n w (CheckSpecLength_visitor h F) args s = run_function n w F args s"
proof -
  have "quiet_run w P (length_hook h) s" using assms(1,4,5) by (simp add: quiet_run_def)
  from spec_length.function_visited [OF assms(3,2) this] show ?thesis by (simp add: CheckSpecLength_visitor_def)
qed

section \<open>An example\<close>

text \<open>A function that stores 5 through its argument, loads it again, and calls what its argument points to.\<close>

definition demo_function :: ir_function where
  "demo_function = \<lparr>fun_name = ''set'', fun_ret = IntTy 64, fun_args = [PtrTy (IntTy 64)], fun_cc = CC_C, fun_blocks =
     [\<lparr>bb_label = ''entry'', bb_phis = [], bb_insts =
        [\<lparr>inst_id = 0, inst_ty = VoidTy, inst_op = StoreInst (ConstInt 64 5) (Arg 0 (PtrTy (IntTy 64))), is_asan_instr = True\<rparr>,
         \<lparr>inst_id = 1, inst_ty = IntTy 64, inst_op = LoadInst (Arg 0 (PtrTy (IntTy 64))), is_asan_instr = True\<rparr>,
         \<lparr>inst_id = 2, inst_ty = VoidTy, inst_op = CallInst CC_C (Arg 0 (PtrTy (FunTy VoidTy []))) [], is_asan_instr = False\<rparr>],
        bb_term = ReturnInst (Some (Inst 1 (IntTy 64)))\<rparr>], fun_next = 3\<rparr>"

definition demo_module :: ir_module where
  "demo_module = \<lparr>mod_name = ''vmlinux.o'', mod_funs = [demo_function]\<rparr>"

definition demo_layout :: data_layout where
  "demo_layout = \<lparr>pointer_size_in_bits = 64, type_store_size = (\<lambda>_. 8)\<rparr>"

definition demo_list :: abi_list where
  "demo_list = set_abi_list (\<lambda>sec pre n cat. False) ''dfs$''"

definition demo_world :: "machine world" where
  "demo_world = \<lparr>kern = plain_kernel, site_at = (\<lambda>_. demo_site), assert_site_at = (\<lambda>_. demo_site), hook_fp = (\<lambda>_. 0x8000),
     flags_at = (\<lambda>_. 0x46), frame_address = 0x8100, return_address = 0xffffffff81000040, fun_addr = (\<lambda>_. 0xffffffff81000000),
     global_addr = (\<lambda>_. 0), store_size = (\<lambda>_. 8), other_value = (\<lambda>_ _. 0), fcmp_value = (\<lambda>_ _ _. False),
     known_call = (\<lambda>_ _. returnM 0), unknown_call = (\<lambda>_ _. returnM 0), asm_call = (\<lambda>_ _. returnM 0)\<rparr>"

lemma demo_world_quiet: "calls_quiet demo_world"
  by (simp add: calls_quiet_def calls_keep_def demo_world_def plain_kernel_ok keeps_return)

lemma demo_function_below:
  "fun_below demo_function" "list_all (\<lambda>b. list_all program_inst (bb_insts b)) (fun_blocks demo_function)"
  "list_all (\<lambda>b. list_all no_hook_call (bb_insts b)) (fun_blocks demo_function)"
  by (simp_all add: fun_below_def demo_function_def block_below_def inst_below_def program_inst_def no_hook_call_def
      runtime_global_def)

lemma demo_idle_quiet: "quiet demo_idle"
  by (simp add: quiet_def demo_idle_def demo_spec_def boot_state_def)

lemma demo_not_listed: "\<not> isIn demo_list m F c"
  by (simp add: isIn_def isIn_module_def demo_list_def set_abi_list_def Let_def)

lemma demo_init: "\<exists>L M'. KSpecEm_init demo_list demo_layout demo_module = Some (L, M')"
  by (simp add: KSpecEm_init_def declare_hook_def getOrInsertFunction_def lookup_fun_def setCallingConv_def
      demo_module_def demo_function_def)

lemma demo_function_instrumented:
  assumes "kspecem_functions L = demo_list"
  shows "length (bb_insts (hd (fun_blocks (visit_function (KSpecEmPassVisitor L m demo_function) demo_function)))) = 9"
  unfolding visit_function_def
  by (simp add: demo_function_def visit_block_eq Let_def)
    (simp add: KSpecEmPassVisitor_def visitStoreInst_def visitCallInst_def visitReturnInst_def insertRestartHook_def
      getCalledFunction_def bitcast_operand_def defining_inst_def CreatePointerCast_def CreateBitCast_def assms demo_not_listed)

text \<open>It returns the 5 it stored, instrumented or not.\<close>

lemma demo_function_run:
  "\<exists>t. run_function 1 demo_world demo_function (\<lambda>_. 0x3000) demo_idle = Ret (Some 5) t"
  by (simp add: run_function_def demo_function_def bindM_apply exec_inst_def exec_op_def store_value_def load_value_def
      call_value_def demo_world_def exec_term_def void_def Let_def write_bytes_def bytes_of_nat_def bytes_at_def
      nat_of_bytes_def upt_rec)

end
