(* ===== verification/KSpecEmSpecPass.thy ===== *)
theory KSpecEmSpecPass
  imports KSpecEmABIList
begin

text \<open>
  The pass that inserts the checkpoints (\<open>passes/kspecem-spec/KSpecEmSpec.cpp\<close>): before every conditional
  branch the calls that take one and the code that inverts the condition, at the start of every
  function the call depth hook. What the inserted code does is in \<open>KSpeculation\<close>.
\<close>

section \<open>The pass\<close>

record kspecem_spec_pass =
  spec_functions :: abi_list
  newCheckpointHook :: ir_value
  saveStackHook :: ir_value
  saveRegistersHook :: ir_value
  reenableIrqsHook :: ir_value
  checkCallDepthHook :: ir_value

definition KSpecEmSpec_init :: "abi_list \<Rightarrow> ir_module \<Rightarrow> (kspecem_spec_pass \<times> ir_module) option" where
  "KSpecEmSpec_init l M = do {
     (newCheckpoint, M) \<leftarrow> declare_hook ''kspecem_hook_new_checkpoint'' (IntTy 64) [] M;
     (saveRegisters, M) \<leftarrow> declare_hook ''kspecem_asm_save_registers'' VoidTy [i8ptr, IntTy 64] M;
     (saveStack, M) \<leftarrow> declare_hook ''kspecem_hook_save_stack'' VoidTy [IntTy 64, i8ptr] M;
     (reenableIrqs, M) \<leftarrow> declare_hook ''kspecem_hook_leave_rt'' VoidTy [IntTy 64] M;
     (checkCallDepth, M) \<leftarrow> declare_hook ''kspecem_hook_check_call_depth'' VoidTy [i8ptr, i8ptr] M;
     Some (\<lparr>spec_functions = l, newCheckpointHook = newCheckpoint, saveStackHook = saveStack,
       saveRegistersHook = saveRegisters, reenableIrqsHook = reenableIrqs, checkCallDepthHook = checkCallDepth\<rparr>, M)
   }"

section \<open>Branches\<close>

abbreviation kspecem_registers_ptr_var :: ir_value where
  "kspecem_registers_ptr_var \<equiv> Global ''kspecem_registers_ptr'' (IntTy 64)"

abbreviation kspecem_swap_branch_condition_var :: ir_value where
  "kspecem_swap_branch_condition_var \<equiv> Global ''kspecem_swap_branch_condition'' (IntTy 32)"

definition emitNewCheckpointHook :: "kspecem_spec_pass \<Rightarrow> unit irb" where
  "emitNewCheckpointHook LS = do {
     CI \<leftarrow> CreateCall (newCheckpointHook LS) [];
     frameAddress \<leftarrow> CreateCall frameaddress [ConstInt 32 0];
     CreateCall (saveStackHook LS) [CI, frameAddress];
     kspecemRegistersVal \<leftarrow> insert_inst i8ptr (LoadInst kspecem_registers_ptr_var);
     CreateCall (saveRegistersHook LS) [kspecemRegistersVal, CI];
     CreateCall (reenableIrqsHook LS) [CI];
     State_Monad.return ()
   }"

fun inverse_icmp :: "icmp_pred \<Rightarrow> icmp_pred" where
  "inverse_icmp ICMP_EQ = ICMP_NE"
| "inverse_icmp ICMP_NE = ICMP_EQ"
| "inverse_icmp ICMP_UGT = ICMP_ULE"
| "inverse_icmp ICMP_UGE = ICMP_ULT"
| "inverse_icmp ICMP_ULT = ICMP_UGE"
| "inverse_icmp ICMP_ULE = ICMP_UGT"
| "inverse_icmp ICMP_SGT = ICMP_SLE"
| "inverse_icmp ICMP_SGE = ICMP_SLT"
| "inverse_icmp ICMP_SLT = ICMP_SGE"
| "inverse_icmp ICMP_SLE = ICMP_SGT"

fun inverse_fcmp :: "fcmp_pred \<Rightarrow> fcmp_pred" where
  "inverse_fcmp FCMP_FALSE = FCMP_TRUE"
| "inverse_fcmp FCMP_OEQ = FCMP_UNE"
| "inverse_fcmp FCMP_OGT = FCMP_ULE"
| "inverse_fcmp FCMP_OGE = FCMP_ULT"
| "inverse_fcmp FCMP_OLT = FCMP_UGE"
| "inverse_fcmp FCMP_OLE = FCMP_UGT"
| "inverse_fcmp FCMP_ONE = FCMP_UEQ"
| "inverse_fcmp FCMP_ORD = FCMP_UNO"
| "inverse_fcmp FCMP_UNO = FCMP_ORD"
| "inverse_fcmp FCMP_UEQ = FCMP_ONE"
| "inverse_fcmp FCMP_UGT = FCMP_OLE"
| "inverse_fcmp FCMP_UGE = FCMP_OLT"
| "inverse_fcmp FCMP_ULT = FCMP_OGE"
| "inverse_fcmp FCMP_ULE = FCMP_OGT"
| "inverse_fcmp FCMP_UNE = FCMP_OEQ"
| "inverse_fcmp FCMP_TRUE = FCMP_FALSE"

definition invertedCondition :: "ir_function \<Rightarrow> ir_value \<Rightarrow> ir_value irb" where
  "invertedCondition F condition =
     (case map_option inst_op (defining_inst F condition) of
        Some (ICmpInst p a b) \<Rightarrow> insert_inst (IntTy 1) (ICmpInst (inverse_icmp p) a b)
      | Some (FCmpInst p a b) \<Rightarrow> insert_inst (IntTy 1) (FCmpInst (inverse_fcmp p) a b)
      | _ \<Rightarrow> insert_inst (IntTy 1) (XorInst condition (ConstInt 1 1)))"

definition emitBranch :: "kspecem_spec_pass \<Rightarrow> ir_function \<Rightarrow> ir_value \<Rightarrow> ir_value irb" where
  "emitBranch LS F condition = do {
     emitNewCheckpointHook LS;
     inverted \<leftarrow> invertedCondition F condition;
     swapBranchCondition \<leftarrow> insert_inst (IntTy 32) (LoadInst kspecem_swap_branch_condition_var);
     cond \<leftarrow> insert_inst (IntTy 1) (ICmpInst ICMP_EQ swapBranchCondition (ConstInt 32 1));
     newCondition \<leftarrow> insert_inst (IntTy 1) (SelectInst cond inverted condition);
     insert_inst VoidTy (StoreInst (ConstInt 32 0) kspecem_swap_branch_condition_var);
     State_Monad.return newCondition
   }"

definition KSpecEmSpecPassVisitor :: "kspecem_spec_pass \<Rightarrow> ir_function \<Rightarrow> visitor" where
  "KSpecEmSpecPassVisitor LS F = \<lparr>
     visit_inst = State_Monad.return,
     visit_term = (\<lambda>b. case bb_term b of
        CondBr condition t f \<Rightarrow> do { newCondition \<leftarrow> emitBranch LS F condition; State_Monad.return (CondBr newCondition t f) }
      | t \<Rightarrow> State_Monad.return t)\<rparr>"

section \<open>Functions\<close>

definition emitCallDepthHook :: "kspecem_spec_pass \<Rightarrow> ir_function \<Rightarrow> unit irb" where
  "emitCallDepthHook LS F = do {
     callInst \<leftarrow> CreatePointerCast (Fun (fun_name F) (fun_type F)) i8ptr;
     returnAddress \<leftarrow> CreateCall returnaddress [ConstInt 32 0];
     CreateCall (checkCallDepthHook LS) [callInst, returnAddress];
     State_Monad.return ()
   }"

definition insert_call_depth :: "kspecem_spec_pass \<Rightarrow> ir_function \<Rightarrow> ir_function" where
  "insert_call_depth LS F = (case fun_blocks F of
       [] \<Rightarrow> F
     | bb # rest \<Rightarrow> (case insert_at_front (emitCallDepthHook LS F) bb (fun_next F) of
         (bb', n) \<Rightarrow> F\<lparr>fun_blocks := bb' # rest, fun_next := n\<rparr>))"

definition KSpecEmSpec_visitor :: "kspecem_spec_pass \<Rightarrow> string \<Rightarrow> ir_function \<Rightarrow> ir_function" where
  "KSpecEmSpec_visitor LS M F =
     (if isIn (spec_functions LS) M F ''blacklist'' \<or> isIn (spec_functions LS) M F ''exception''
         \<or> isIn (spec_functions LS) M F ''timer'' \<or> isIn (spec_functions LS) M F ''nospec''
      then F
      else let F' = insert_call_depth LS F in visit_function (KSpecEmSpecPassVisitor LS F') F')"

definition KSpecEmSpec_runImpl :: "abi_list \<Rightarrow> ir_module \<Rightarrow> (bool \<times> ir_module) option" where
  "KSpecEmSpec_runImpl l M =
     (if contains (mod_name M) ''libkspecem.a'' then Some (False, M)
      else do {
        (LS, M) \<leftarrow> KSpecEmSpec_init l M;
        Some (True, M\<lparr>mod_funs := map (KSpecEmSpec_visitor LS (mod_name M)) (mod_funs M)\<rparr>)
      })"

end
