(* ===== verification/KInsertedCode.thy ===== *)
theory KInsertedCode
  imports KTransparent KSpecEmSpecPass
begin

text \<open>
  What the code inserted by the passes does when it runs. The calls and the arithmetic that
  \<open>KSpecEmSpec.cpp\<close> emits before a branch are the branch of \<open>KSpeculation\<close>.
\<close>

section \<open>The hooks of the branch pass\<close>

definition spec_hooks :: "kspecem_spec_pass \<Rightarrow> bool" where
  "spec_hooks LS \<longleftrightarrow> newCheckpointHook LS = Fun ''kspecem_hook_new_checkpoint'' (FunTy (IntTy 64) [])
     \<and> saveRegistersHook LS = Fun ''kspecem_asm_save_registers'' (FunTy VoidTy [i8ptr, IntTy 64])
     \<and> saveStackHook LS = Fun ''kspecem_hook_save_stack'' (FunTy VoidTy [IntTy 64, i8ptr])
     \<and> reenableIrqsHook LS = Fun ''kspecem_hook_leave_rt'' (FunTy VoidTy [IntTy 64])
     \<and> checkCallDepthHook LS = Fun ''kspecem_hook_check_call_depth'' (FunTy VoidTy [i8ptr, i8ptr])"

lemma KSpecEmSpec_init_hooks: "KSpecEmSpec_init l M = Some (LS, M') \<Longrightarrow> spec_hooks LS \<and> spec_functions LS = l"
  by (auto simp: KSpecEmSpec_init_def spec_hooks_def dest!: declare_hook_Some split: bind_splits)

lemma call_function_spec:
  "call_function w i ''kspecem_hook_new_checkpoint'' xs =
     bindM (kspecem_hook_new_checkpoint (kern w) (site_at w i) (assert_site_at w i)) (\<lambda>r. returnM (unat r))"
  "call_function w i ''kspecem_hook_save_stack'' xs =
     void (kspecem_hook_save_stack (kern w) (assert_site_at w i) (hook_fp w i) (of_nat (argn xs 0)) (of_nat (argn xs 1)))"
  "call_function w i ''kspecem_asm_save_registers'' xs = void (save_registers (flags_at w i) (of_nat (argn xs 1)))"
  "call_function w i ''kspecem_hook_leave_rt'' xs = void (kspecem_hook_leave_rt (kern w) (assert_site_at w i) (of_nat (argn xs 0)))"
  by (simp_all add: call_function_def)

section \<open>The checkpoint\<close>

lemma builder_emitNewCheckpointHook [simp]: "builder (emitNewCheckpointHook LS)"
  by (simp add: emitNewCheckpointHook_def)

lemma next_emitNewCheckpointHook [simp]: "next_id (emitNewCheckpointHook LS) n = n + 6"
  by (simp add: emitNewCheckpointHook_def)

text \<open>The six inserted instructions are \<open>insertNewCheckpointHook\<close>.\<close>

lemma checkpoint_code:
  assumes "spec_hooks LS" and "\<And>i. assert_site_at w i = sta"
  shows "sim (\<lambda>_. True) (\<lambda>_. env_eq n e)
    (insertNewCheckpointHook (kern w) (site_at w n) sta (hook_fp w (n + 2)) (frame_address w) (flags_at w (n + 4)))
    (exec_insts w args (emitted (emitNewCheckpointHook LS) n) e)"
  unfolding sim_def
proof (intro allI impI)
  fix s
  have numbers: "n + 2 = Suc (Suc n)" "n + 4 = Suc (Suc (Suc (Suc n)))" by simp_all
  show "same_outcome (\<lambda>_. True) (\<lambda>_. env_eq n e)
    (insertNewCheckpointHook (kern w) (site_at w n) sta (hook_fp w (n + 2)) (frame_address w) (flags_at w (n + 4)) s)
    (exec_insts w args (emitted (emitNewCheckpointHook LS) n) e s)"
    using assms unfolding numbers
    by (auto simp: spec_hooks_def emitNewCheckpointHook_def insertNewCheckpointHook_def bindM_apply thenM_apply exec_inst_def
        exec_op_def call_value_def call_function_spec call_function_hooks void_def argn_def load_value_def Let_def
        split: outcome.split)
qed

section \<open>The condition\<close>

lemma inverse_icmp: "icmp_value b (inverse_icmp p) x y = (\<not> icmp_value b p x y)"
  by (cases p) auto

text \<open>
  The condition is a bit, the comparison it comes from (if any) has been computed before, and
  the predicates of floating point comparisons come in opposite pairs.
\<close>

definition condition_ok :: "'c world \<Rightarrow> (nat \<Rightarrow> nat) \<Rightarrow> env \<Rightarrow> ir_function \<Rightarrow> nat \<Rightarrow> ir_value \<Rightarrow> bool" where
  "condition_ok w args e F n c \<longleftrightarrow> value_below n c \<and> eval w args e c \<in> {0, 1} \<and>
     (case map_option inst_op (defining_inst F c) of
        Some (ICmpInst p a b) \<Rightarrow> value_below n a \<and> value_below n b
          \<and> eval w args e c = of_bool (icmp_value (compare_width (type_of a)) p (eval w args e a) (eval w args e b))
      | Some (FCmpInst p a b) \<Rightarrow> value_below n a \<and> value_below n b
          \<and> eval w args e c = of_bool (fcmp_value w p (eval w args e a) (eval w args e b))
          \<and> (\<forall>x y. fcmp_value w (inverse_fcmp p) x y = (\<not> fcmp_value w p x y))
      | _ \<Rightarrow> True)"

lemma builder_invertedCondition [simp]: "builder (invertedCondition F c)"
  by (auto simp: invertedCondition_def split: option.split ir_op.split)

lemma invertedCondition_result [simp]:
  "built (invertedCondition F c) n = Inst n (IntTy 1)" "next_id (invertedCondition F c) n = n + 1"
  by (auto simp: invertedCondition_def split: option.splits ir_op.splits)

lemma xor_bit: "x \<in> {0, 1} \<Longrightarrow> xor x (1 :: nat) = 1 - x"
  by auto

lemma inverted_code:
  assumes "condition_ok w args e F N c" and "env_eq N e e'" and "N \<le> n"
  shows "exec_insts w args (emitted (invertedCondition F c) n) e' = returnM (e'(n := 1 - eval w args e c))"
proof -
  have ev: "eval w args e' v = eval w args e v" if "value_below N v" for v
    by (rule eval_env_eq [OF assms(2) that, symmetric])
  show "exec_insts w args (emitted (invertedCondition F c) n) e' = returnM (e'(n := 1 - eval w args e c))"
    using assms(1) ev
    by (auto simp: invertedCondition_def condition_ok_def exec_inst_def exec_op_def Let_def inverse_icmp xor_bit
        fun_eq_iff bindM_apply split: option.splits ir_op.splits)
qed

section \<open>The branch\<close>

text \<open>What follows the checkpoint: the condition or its opposite, and the request for the opposite is over.\<close>

definition emitCondition :: "ir_function \<Rightarrow> ir_value \<Rightarrow> ir_value irb" where
  "emitCondition F condition = do {
     inverted \<leftarrow> invertedCondition F condition;
     swapBranchCondition \<leftarrow> insert_inst (IntTy 32) (LoadInst kspecem_swap_branch_condition_var);
     cond \<leftarrow> insert_inst (IntTy 1) (ICmpInst ICMP_EQ swapBranchCondition (ConstInt 32 1));
     newCondition \<leftarrow> insert_inst (IntTy 1) (SelectInst cond inverted condition);
     insert_inst VoidTy (StoreInst (ConstInt 32 0) kspecem_swap_branch_condition_var);
     State_Monad.return newCondition
   }"

lemma emitBranch_split:
  "emitted (emitBranch LS F c) n = emitted (emitNewCheckpointHook LS) n @ emitted (emitCondition F c) (n + 6)"
  "eval w args e (built (emitBranch LS F c) n) = e (n + 9)"
proof -
  have "emitBranch LS F c = do { emitNewCheckpointHook LS; emitCondition F c }"
    by (simp add: emitBranch_def emitCondition_def)
  moreover have "builder (emitCondition F c)" by (simp add: emitCondition_def)
  ultimately show "emitted (emitBranch LS F c) n = emitted (emitNewCheckpointHook LS) n @ emitted (emitCondition F c) (n + 6)"
    by simp
  show "eval w args e (built (emitBranch LS F c) n) = e (n + 9)"
    by (simp add: emitBranch_def add.commute)
qed

lemma condition_code:
  assumes "condition_ok w args e F n c" and "env_eq n e e'"
  shows "sim (\<lambda>_. True) (\<lambda>b e'. env_eq n e e' \<and> (e' (n + 9) \<noteq> 0) = b) (swapCondition (eval w args e c \<noteq> 0))
    (exec_insts w args (emitted (emitCondition F c) (n + 6)) e')"
proof -
  have "eval w args (e'(n + 6 := x, 7 + n := y, 8 + n := z)) c = eval w args e c" for x y z
    using assms by (intro eval_env_eq [where N = n, symmetric]) (auto simp: condition_ok_def env_eq_def)
  with assms inverted_code [OF assms, of "n + 6"] show ?thesis unfolding emitCondition_def
    by (auto simp: sim_def swapCondition_def exec_insts_append exec_inst_def exec_op_def load_value_def store_value_def
        void_def Let_def bindM_apply thenM_apply env_eq_def condition_ok_def)
qed

lemma branch_code:
  assumes "spec_hooks LS" and "\<And>i. assert_site_at w i = sta" and "condition_ok w args e F n c"
  shows "sim (\<lambda>_. True) (\<lambda>b e'. env_eq n e e' \<and> (eval w args e' (built (emitBranch LS F c) n) \<noteq> 0) = b)
    (visitBranchInst (kern w) (site_at w n) sta (hook_fp w (n + 2)) (frame_address w) (flags_at w (n + 4)) (eval w args e c \<noteq> 0))
    (exec_insts w args (emitted (emitBranch LS F c) n) e)"
  unfolding visitBranchInst_def thenM_def emitBranch_split exec_insts_append
  by (intro sim_bind [OF checkpoint_code [OF assms(1,2)] condition_code [OF assms(3)]])


section \<open>Coming back to the checkpoint\<close>

text \<open>
  A restart continues after the call that saved the registers, the fifth of the inserted instructions. The values of the program are
  then those of that call.
\<close>

definition after_save :: "kspecem_spec_pass \<Rightarrow> ir_function \<Rightarrow> ir_value \<Rightarrow> nat \<Rightarrow> ir_inst list" where
  "after_save LS F c n = drop 5 (emitted (emitBranch LS F c) n)"

lemma rest_code:
  assumes "spec_hooks LS" and "\<And>i. assert_site_at w i = sta" and "condition_ok w args e F n c" and "env_eq n e e'"
  shows "sim (\<lambda>_. True) (\<lambda>b e'. env_eq n e e' \<and> (eval w args e' (built (emitBranch LS F c) n) \<noteq> 0) = b)
    (branch_rest (kern w) sta (of_nat (e' n)) (eval w args e c \<noteq> 0)) (exec_insts w args (after_save LS F c n) e')"
proof -
  obtain i where i: "drop 5 (emitted (emitNewCheckpointHook LS) n) = [i]" "inst_id i = n + 5"
    "inst_op i = CallInst CC_C (reenableIrqsHook LS) [Inst n (IntTy 64)]"
    using assms(1) by (simp add: emitNewCheckpointHook_def spec_hooks_def)
  have l: "length (emitted (emitNewCheckpointHook LS) n) = 6" by (simp add: emitNewCheckpointHook_def)
  have a: "after_save LS F c n = [i] @ emitted (emitCondition F c) (n + 6)"
    by (simp add: after_save_def emitBranch_split l i)
  have leave: "sim (\<lambda>_. True) (\<lambda>_. env_eq n e) (kspecem_hook_leave_rt (kern w) sta (of_nat (e' n))) (exec_insts w args [i] e')"
    using assms(1,2,4)
    by (auto simp: sim_def i exec_inst_def exec_op_def call_value_def call_function_spec spec_hooks_def void_def argn_def bindM_apply Let_def
        split: outcome.split)
  show ?thesis
    unfolding branch_rest_def thenM_def a emitBranch_split(2) exec_insts_append
    by (intro sim_bind [OF leave condition_code [OF assms(3)]])
qed

lemma exec_insts_other: "exec_insts w args is e s = Ret e' t \<Longrightarrow> m \<notin> inst_id ` set is \<Longrightarrow> e' m = e m"
  by (induction "is" arbitrary: e s) (auto simp: exec_inst_def bindM_apply split: outcome.splits)

lemma emitCondition_ids: "i \<in> set (emitted (emitCondition F c) m) \<Longrightarrow> m \<le> inst_id i"
  by (auto simp: emitCondition_def invertedCondition_def split: option.splits ir_op.splits)

text \<open>The first inserted instruction keeps the flags that the checkpoint returned.\<close>

lemma checkpoint_flags:
  assumes "spec_hooks LS" and "exec_insts w args (emitted (emitBranch LS F c) n) e s = Ret e' t"
    and "kspecem_hook_new_checkpoint (kern w) (site_at w n) (assert_site_at w n) s = Ret f s1"
  shows "e' n = unat f"
proof -
  obtain i "is" where i: "emitted (emitNewCheckpointHook LS) n = i # is" "n \<notin> inst_id ` set is"
    "inst_id i = n" "exec_op w args e i s = Ret (unat f) s1"
    using assms(1,3) by (simp add: emitNewCheckpointHook_def spec_hooks_def exec_op_def call_value_def call_function_spec bindM_apply Let_def)
  have "n \<notin> inst_id ` set (is @ emitted (emitCondition F c) (n + 6))"
    using i(2) emitCondition_ids [of _ F c "n + 6"] by force
  with assms(2) i show ?thesis
    by (simp add: emitBranch_split exec_inst_def bindM_apply exec_insts_other)
qed

section \<open>An example\<close>

definition demo_branch :: ir_function where
  "demo_branch = \<lparr>fun_name = ''test'', fun_ret = VoidTy, fun_args = [IntTy 64], fun_cc = CC_C, fun_blocks =
     [\<lparr>bb_label = ''entry'', bb_phis = [], bb_insts =
        [\<lparr>inst_id = 0, inst_ty = IntTy 1, inst_op = ICmpInst ICMP_ULT (Arg 0 (IntTy 64)) (ConstInt 64 10), is_asan_instr = False\<rparr>],
        bb_term = CondBr (Inst 0 (IntTy 1)) ''a'' ''b''\<rparr>,
      \<lparr>bb_label = ''a'', bb_phis = [], bb_insts = [], bb_term = ReturnInst None\<rparr>,
      \<lparr>bb_label = ''b'', bb_phis = [], bb_insts = [], bb_term = ReturnInst None\<rparr>], fun_next = 1\<rparr>"

text \<open>With the argument 3 the condition holds, and the speculation starts on the other side.\<close>

lemma demo_condition_ok:
  "condition_ok demo_world (\<lambda>_. 3) ((\<lambda>_. 0)(0 := 1)) demo_branch 1 (Inst 0 (IntTy 1))"
  "condition_ok demo_world (\<lambda>_. 0x3000) (\<lambda>_. 0) demo_branch 1 (Inst 0 (IntTy 1))"
  by (simp_all add: condition_ok_def demo_branch_def defining_inst_def compare_width_def)

lemma demo_branch_swaps:
  "visitBranchInst plain_kernel demo_site demo_site 0x8000 0x8100 0x46 b demo_idle =
    Ret (\<not> b) ((after_checkpoint plain_kernel demo_site 0x8000 0x8100 0x46 demo_idle)\<lparr>kspecem_swap_branch_condition := False\<rparr>)"
proof -
  have "kspecem_swap_branch_enabled demo_idle" by (simp add: demo_idle_def demo_spec_def boot_state_def)
  then show ?thesis
    using checkpoint_runs [OF plain_kernel_ok demo_idle_ready(1) demo_idle_ok(5) demo_idle_ready(2), of demo_site demo_site "0x46"]
      after_checkpoint_fields(8) [OF demo_idle_ready(2), of demo_site "0x46"]
    by (simp add: visitBranchInst_def thenM_apply swapCondition_def bindM_apply)
qed

lemma demo_spec_init: obtains LS M' where "KSpecEmSpec_init demo_list demo_module = Some (LS, M')"
  by (simp add: KSpecEmSpec_init_def declare_hook_def getOrInsertFunction_def lookup_fun_def setCallingConv_def
      demo_module_def demo_function_def)

lemma demo_world_sites:
  "kern demo_world = plain_kernel" "assert_site_at demo_world n = demo_site" "site_at demo_world n = demo_site"
  "hook_fp demo_world n = 0x8000" "flags_at demo_world n = 0x46" "frame_address demo_world = 0x8100"
  by (simp_all add: demo_world_def)

lemma demo_emitted_run:
  obtains LS M' e' where "KSpecEmSpec_init demo_list demo_module = Some (LS, M')"
    "exec_insts demo_world (\<lambda>_. 3) (emitted (emitBranch LS demo_branch (Inst 0 (IntTy 1))) 1) ((\<lambda>_. 0)(0 := 1)) demo_idle =
      Ret e' ((after_checkpoint plain_kernel demo_site 0x8000 0x8100 0x46 demo_idle)\<lparr>kspecem_swap_branch_condition := False\<rparr>)"
proof -
  obtain LS M' where i: "KSpecEmSpec_init demo_list demo_module = Some (LS, M')" by (rule demo_spec_init)
  then have "spec_hooks LS" using KSpecEmSpec_init_hooks by blast
  from sim_RetD [OF branch_code [OF this demo_world_sites(2) demo_condition_ok(1)], unfolded demo_world_sites] demo_branch_swaps i that
  show thesis by fastforce
qed


end
