(* ===== verification/KNumbering.thy ===== *)
theory KNumbering
  imports KInsertedCode "HOL-Library.Multiset"
begin

text \<open>
  Every number of an instrumented function still belongs to one instruction or PHI node: the passes take fresh numbers
  for what they insert and leave those of the program alone. The locale \<open>numbering_visitor\<close> has the
  argument for a visitor, and the four visitors are instances.
\<close>

section \<open>Visitors\<close>

definition block_ids :: "basic_block \<Rightarrow> nat list" where
  "block_ids b = map phi_id (bb_phis b) @ map inst_id (bb_insts b)"

lemma function_ids_eq: "function_ids F = concat (map block_ids (fun_blocks F))"
  by (simp add: function_ids_def block_ids_def [abs_def])

lemma builder_ids:
  assumes "builder m"
  shows "distinct (map inst_id (emitted m n))" and "inst_id ` set (emitted m n) \<subseteq> {n..<next_id m n}"
  using assms by (auto simp: builder_def)

locale numbering_visitor =
  fixes V :: visitor
  assumes builder_inst: "builder (visit_inst V i)"
    and builder_term: "builder (visit_term V b)"
    and same_id: "inst_id (built (visit_inst V i) n) = inst_id i"
begin

lemma visited_ids:
  "distinct (map inst_id is) \<Longrightarrow> \<forall>i \<in> set is. inst_id i < N \<Longrightarrow> N \<le> n \<Longrightarrow>
   distinct (map inst_id (visited (visit_inst V) is n))
   \<and> inst_id ` set (visited (visit_inst V) is n) \<subseteq> inst_id ` set is \<union> {n..<visited_next (visit_inst V) is n}"
proof (induction "is" arbitrary: n)
  case (Cons i "is")
  let ?m = "visit_inst V i"
  have n: "n \<le> next_id ?m n" "next_id ?m n \<le> visited_next (visit_inst V) is (next_id ?m n)"
    by (simp_all add: builder_next builder_inst visited_next_le)
  from Cons.prems n(1) have IH: "distinct (map inst_id (visited (visit_inst V) is (next_id ?m n)))"
    "inst_id ` set (visited (visit_inst V) is (next_id ?m n)) \<subseteq> inst_id ` set is \<union> {next_id ?m n..<visited_next (visit_inst V) is (next_id ?m n)}"
    using Cons.IH [of "next_id ?m n"] by auto
  note b = builder_ids [OF builder_inst [of i], of n]
  have i: "inst_id i < N" "inst_id i \<notin> inst_id ` set is" using Cons.prems by auto
  let ?A = "inst_id ` set (emitted ?m n)" and ?C = "inst_id ` set (visited (visit_inst V) is (next_id ?m n))"
  have lt: "x < N" if "x \<in> inst_id ` set is" for x using that Cons.prems(2) by auto
  have A: "n \<le> x \<and> x < next_id ?m n" if "x \<in> ?A" for x using subsetD [OF b(2) that] by simp
  have C: "x \<in> inst_id ` set is \<or> next_id ?m n \<le> x \<and> x < visited_next (visit_inst V) is (next_id ?m n)" if "x \<in> ?C" for x
    using subsetD [OF IH(2) that] by simp
  have "?A \<inter> ?C = {}" using A C lt Cons.prems(3) by fastforce
  moreover have "inst_id i \<notin> ?A" using A i(1) Cons.prems(3) by fastforce
  moreover have "inst_id i \<notin> ?C" using C i n(1) Cons.prems(3) by fastforce
  ultimately have "distinct (map inst_id (visited (visit_inst V) (i # is) n))"
    using b(1) IH(1) by (simp add: same_id)
  moreover have "?A \<union> {inst_id i} \<union> ?C \<subseteq> inst_id ` set (i # is) \<union> {n..<visited_next (visit_inst V) (i # is) n}"
    using A C n by fastforce
  ultimately show ?case by (simp add: image_Un same_id Un_assoc)
qed simp

lemma block_visited_ids:
  assumes "distinct (block_ids b)" and "\<forall>x \<in> set (block_ids b). x < N" and "N \<le> n"
  shows "distinct (block_ids (fst (visit_block V b n)))"
    and "set (block_ids (fst (visit_block V b n))) \<subseteq> set (block_ids b) \<union> {n..<snd (visit_block V b n)}" and "n \<le> snd (visit_block V b n)"
proof -
  let ?k = "visited_next (visit_inst V) (bb_insts b) n"
  let ?A = "inst_id ` set (visited (visit_inst V) (bb_insts b) n)" and ?B = "inst_id ` set (emitted (visit_term V b) ?k)"
  have v: "distinct (map inst_id (visited (visit_inst V) (bb_insts b) n))" "?A \<subseteq> inst_id ` set (bb_insts b) \<union> {n..<?k}"
    using visited_ids [of "bb_insts b" N n] assms by (auto simp: block_ids_def)
  note t = builder_ids [OF builder_term [of b], of ?k]
  have k: "n \<le> ?k" "?k \<le> next_id (visit_term V b) ?k" by (simp_all add: visited_next_le builder_inst builder_next builder_term)
  have A: "x \<in> inst_id ` set (bb_insts b) \<or> n \<le> x \<and> x < ?k" if "x \<in> ?A" for x using subsetD [OF v(2) that] by simp
  have B: "?k \<le> x \<and> x < next_id (visit_term V b) ?k" if "x \<in> ?B" for x using subsetD [OF t(2) that] by simp
  have lt: "x < N" if "x \<in> inst_id ` set (bb_insts b) \<union> phi_id ` set (bb_phis b)" for x using that assms(2) by (auto simp: block_ids_def)
  have "?A \<inter> ?B = {}" using A B lt k(1) assms(3) by fastforce
  moreover have "x \<notin> ?A \<union> ?B" if "x \<in> phi_id ` set (bb_phis b)" for x
  proof -
    have "x \<notin> inst_id ` set (bb_insts b)" "x < n" using that assms(1,3) lt [of x] by (auto simp: block_ids_def)
    with A [of x] B [of x] k(1) show ?thesis by auto
  qed
  then have "phi_id ` set (bb_phis b) \<inter> (?A \<union> ?B) = {}" by blast
  moreover have eq: "block_ids (fst (visit_block V b n)) = map phi_id (bb_phis b) @ map inst_id (visited (visit_inst V) (bb_insts b) n)
      @ map inst_id (emitted (visit_term V b) ?k)" "snd (visit_block V b n) = next_id (visit_term V b) ?k"
    by (simp_all add: visit_block_eq builder_inst builder_term Let_def block_ids_def)
  ultimately show "distinct (block_ids (fst (visit_block V b n)))"
    using v(1) t(1) assms(1) unfolding eq by (auto simp: block_ids_def)
  show "set (block_ids (fst (visit_block V b n))) \<subseteq> set (block_ids b) \<union> {n..<snd (visit_block V b n)}"
    using A B k unfolding eq by (fastforce simp: block_ids_def)
  show "n \<le> snd (visit_block V b n)" using k by (simp add: eq)
qed

lemma blocks_visited_ids:
  "distinct (concat (map block_ids bs)) \<Longrightarrow> \<forall>x \<in> set (concat (map block_ids bs)). x < N \<Longrightarrow> N \<le> n \<Longrightarrow>
   distinct (concat (map block_ids (fst (visit_blocks V bs n))))
   \<and> set (concat (map block_ids (fst (visit_blocks V bs n)))) \<subseteq> set (concat (map block_ids bs)) \<union> {n..<snd (visit_blocks V bs n)}
   \<and> n \<le> snd (visit_blocks V bs n)"
proof (induction bs arbitrary: n)
  case (Cons b bs)
  let ?b = "fst (visit_block V b n)" and ?k = "snd (visit_block V b n)"
  let ?bs = "fst (visit_blocks V bs ?k)" and ?m = "snd (visit_blocks V bs ?k)" and ?D = "set (concat (map block_ids bs))"
  have b: "distinct (block_ids ?b)" "set (block_ids ?b) \<subseteq> set (block_ids b) \<union> {n..<?k}" "n \<le> ?k"
    using block_visited_ids [of b N n] Cons.prems by auto
  with Cons have IH: "distinct (concat (map block_ids ?bs))" "set (concat (map block_ids ?bs)) \<subseteq> ?D \<union> {?k..<?m}" "?k \<le> ?m"
    using Cons.IH [of ?k] by auto
  have A: "x \<in> set (block_ids b) \<or> n \<le> x \<and> x < ?k" if "x \<in> set (block_ids ?b)" for x using subsetD [OF b(2) that] by simp
  have C: "x \<in> ?D \<or> ?k \<le> x \<and> x < ?m" if "x \<in> set (concat (map block_ids ?bs))" for x using subsetD [OF IH(2) that] by simp
  have lt: "x < N" if "x \<in> set (block_ids b) \<union> ?D" for x using that Cons.prems(2) by auto
  have "set (block_ids b) \<inter> ?D = {}" using Cons.prems(1) by simp
  then have "set (block_ids ?b) \<inter> set (concat (map block_ids ?bs)) = {}"
    using A C lt b(3) Cons.prems(3) by fastforce
  moreover have "set (block_ids ?b) \<union> set (concat (map block_ids ?bs)) \<subseteq> set (block_ids b) \<union> ?D \<union> {n..<?m}"
    using A C b(3) IH(3) by fastforce
  ultimately show ?case using b IH by (simp add: split_beta Un_assoc)
qed simp

lemma function_visited_ids: "ids_ok F \<Longrightarrow> ids_ok (visit_function V F)"
  using blocks_visited_ids [of "fun_blocks F" "fun_next F" "fun_next F"]
  by (fastforce simp: ids_ok_def function_ids_eq visit_function_def split_beta)

end

section \<open>The passes\<close>

lemma builder_KSpecEmSpecPassVisitor [simp]:
  "builder (visit_inst (KSpecEmSpecPassVisitor LS F) i)" "builder (visit_term (KSpecEmSpecPassVisitor LS F) b)"
  by (auto simp: KSpecEmSpecPassVisitor_def emitBranch_def split: terminator.split)

interpretation kspecem_numbers: numbering_visitor "KSpecEmPassVisitor L M F" for L M F
  by unfold_locales (simp_all, simp add: KSpecEmPassVisitor_def split: ir_op.split)

interpretation spec_numbers: numbering_visitor "KSpecEmSpecPassVisitor LS F" for LS F
  by unfold_locales (simp_all, simp add: KSpecEmSpecPassVisitor_def)

interpretation pf_numbers: numbering_visitor "PfCheckerPassVisitor K" for K
  by unfold_locales (rule builder_PfChecker, rule builder_PfChecker,
    simp add: PfCheckerPassVisitor_def PfChecker_visitLoadInst_def PfChecker_visitStoreInst_def PfChecker_visitMemIntrinsic_def
      split: ir_op.split)

interpretation length_numbers: numbering_visitor "CheckSpecLengthVisitor h" for h
  by unfold_locales (simp_all add: CheckSpecLengthVisitor_def)

text \<open>Inserting instructions with fresh numbers somewhere.\<close>

lemma inserted_ids:
  assumes "ids_ok F" and "mset (function_ids F') = mset (new @ function_ids F)" and "distinct new"
    and "set new \<subseteq> {fun_next F..<fun_next F'}" and "fun_next F \<le> fun_next F'"
  shows "ids_ok F'"
proof -
  have old: "x < fun_next F" if "x \<in> set (function_ids F)" for x using assms(1) that by (simp add: ids_ok_def)
  have "x \<notin> set (function_ids F)" if "x \<in> set new" for x using old [of x] subsetD [OF assms(4) that] by auto
  then have "distinct (new @ function_ids F)" using assms(1,3) by (auto simp: ids_ok_def)
  then have "distinct (function_ids F')" using mset_eq_imp_distinct_iff [OF assms(2)] by simp
  moreover have "set (function_ids F') = set new \<union> set (function_ids F)" using mset_eq_setD [OF assms(2)] by simp
  moreover have "x < fun_next F'" if "x \<in> set new \<union> set (function_ids F)" for x
    using that old [of x] subsetD [OF assms(4), of x] assms(5) by auto
  ultimately show ?thesis by (simp add: ids_ok_def)
qed

lemma front_ids:
  assumes "ids_ok F" and "fun_blocks F = bb # rest" and "builder m" and "insert_at_front m bb (fun_next F) = (bb', n)"
  shows "ids_ok (F\<lparr>fun_blocks := bb' # rest, fun_next := n\<rparr>)"
proof (rule inserted_ids [OF assms(1)])
  let ?new = "map inst_id (emitted m (fun_next F))"
  have n: "n = next_id m (fun_next F)" "bb' = bb\<lparr>bb_insts := emitted m (fun_next F) @ bb_insts bb\<rparr>"
    using assms(3,4) by (auto simp: insert_at_front_def builder_run)
  show "mset (function_ids (F\<lparr>fun_blocks := bb' # rest, fun_next := n\<rparr>)) = mset (?new @ function_ids F)"
    by (simp add: function_ids_def n assms(2))
  show "distinct ?new" "set ?new \<subseteq> {fun_next F..<fun_next (F\<lparr>fun_blocks := bb' # rest, fun_next := n\<rparr>)}"
    using builder_ids [OF assms(3), of "fun_next F"] by (simp_all add: n(1))
  show "fun_next F \<le> fun_next (F\<lparr>fun_blocks := bb' # rest, fun_next := n\<rparr>)" by (simp add: n(1) builder_next assms(3))
qed

lemma rename_pred_ids [simp]: "map phi_id (bb_phis (rename_pred old new b)) = map phi_id (bb_phis b)" "bb_insts (rename_pred old new b) = bb_insts b"
  by (simp_all add: rename_pred_def)

lemma exception_ids:
  assumes "ids_ok F" and "fun_blocks F = bb # rest"
  shows "ids_ok (exception_entry L F bb rest arg)"
proof -
  let ?m = "do { inSpec \<leftarrow> insertExceptionInterruptHook L F arg;
    insert_inst (IntTy 1) (ICmpInst ICMP_EQ inSpec (ConstInt 32 0)) }"
  have b: "builder ?m" by simp
  then have r: "run_state ?m (fun_next F, []) = (built ?m (fun_next F), (next_id ?m (fun_next F), emitted ?m (fun_next F)))"
    by (simp only: builder_run append_Nil)
  have m: "fun_next (exception_entry L F bb rest arg) = next_id ?m (fun_next F)"
    "mset (function_ids (exception_entry L F bb rest arg)) = mset (map inst_id (emitted ?m (fun_next F)) @ function_ids F)"
    by (simp_all only: exception_entry_def r Let_def prod.case function_ids_def) (simp_all add: assms(2) comp_def)
  show ?thesis
    using builder_ids [OF b, of "fun_next F"] builder_next [OF b, of "fun_next F"]
    by (intro inserted_ids [OF assms(1) m(2)]) (simp_all only: m(1) list.set_map)
qed

lemma builder_emitCallDepthHook [simp]: "builder (emitCallDepthHook LS F)"
  by (simp add: emitCallDepthHook_def)

lemma call_depth_ids: "ids_ok F \<Longrightarrow> ids_ok (insert_call_depth LS F)"
  by (auto simp: insert_call_depth_def split: list.split prod.split intro: front_ids [OF _ _ builder_emitCallDepthHook])

text \<open>All passes keep the single assignment form.\<close>

lemma passes_keep_ids:
  assumes "ids_ok F"
  shows "(\<forall>F'. KSpecEm_visitor L M F = Some F' \<longrightarrow> ids_ok F') \<and> ids_ok (KSpecEmSpec_visitor LS M F)
    \<and> ids_ok (PfChecker_visitor K F) \<and> ids_ok (CheckSpecLength_visitor h F)"
proof (intro conjI allI impI)
  show "ids_ok F'" if "KSpecEm_visitor L M F = Some F'" for F'
    using that assms
    by (auto simp: KSpecEm_visitor_def kspecem_numbers.function_visited_ids split: if_splits list.splits prod.splits
        intro: front_ids [OF _ _ builder_insertRestartHook] front_ids [OF _ _ builder_insertTimerInterruptHook] exception_ids)
  show "ids_ok (KSpecEmSpec_visitor LS M F)"
    using assms by (simp add: KSpecEmSpec_visitor_def Let_def spec_numbers.function_visited_ids call_depth_ids)
  show "ids_ok (PfChecker_visitor K F)" "ids_ok (CheckSpecLength_visitor h F)"
    using assms by (simp_all add: PfChecker_visitor_def pf_numbers.function_visited_ids CheckSpecLength_visitor_def
        length_numbers.function_visited_ids)
qed

end
