(* ===== verification/KScoping.thy ===== *)
theory KScoping
  imports KNumbering
begin

text \<open>
  What the passes insert uses only values that exist: every operand of an instrumented function has a number
  below the next free one. With \<open>KNumbering\<close> this is what makes the output of a pass fit to be the
  input of the next.
\<close>

section \<open>Builders\<close>

lemma inst_below_mono: "inst_below n i \<Longrightarrow> n \<le> m \<Longrightarrow> inst_below m i"
  by (auto simp: inst_below_def list_all_iff intro: value_below_mono)

lemma block_below_mono: "block_below n b \<Longrightarrow> n \<le> m \<Longrightarrow> block_below m b"
  by (fastforce simp: block_below_def list_all_iff intro: value_below_mono inst_below_mono)

text \<open>A builder that starts at \<open>n\<close> and emits no operand it has not got.\<close>

definition scoped :: "nat \<Rightarrow> 'a irb \<Rightarrow> bool" where
  "scoped n m \<longleftrightarrow> builder m \<and> list_all (inst_below (next_id m n)) (emitted m n)"

definition scoped_value :: "nat \<Rightarrow> ir_value irb \<Rightarrow> bool" where
  "scoped_value n m \<longleftrightarrow> scoped n m \<and> value_below (next_id m n) (built m n)"

named_theorems scoping \<open>builders that are scoped\<close>

lemma scoped_return [scoping]: "scoped n (State_Monad.return x)"
  by (simp add: scoped_def)

lemma scoped_bind [scoping]:
  assumes "scoped n m" and "\<And>x. builder (f x)" and "scoped (next_id m n) (f (built m n))"
  shows "scoped n (State_Monad.bind m f)"
proof -
  have m: "builder m" and le: "next_id m n \<le> next_id (f (built m n)) (next_id m n)"
    using assms by (simp_all add: scoped_def builder_next)
  show ?thesis
    using assms(1,3) le by (auto simp: scoped_def m assms(2) list_all_iff intro: inst_below_mono)
qed

lemma scoped_insert [scoping]: "list_all (value_below n) (operands op) \<Longrightarrow> scoped_value n (insert_inst t op)"
  by (auto simp: scoped_value_def scoped_def inst_below_def list_all_iff intro: value_below_mono)

lemma scoped_CreateCall [scoping]: "list_all (value_below n) (f # xs) \<Longrightarrow> scoped_value n (CreateCall f xs)"
  unfolding CreateCall_def by (rule scoped_insert) simp

lemma scoped_casts [scoping]:
  assumes "value_below n v"
  shows "scoped_value n (CreateBitCast v t)" and "scoped_value n (CreatePointerCast v t)" and "scoped_value n (CreateTrunc v b)"
    and "scoped_value n (CreateZExt v b)" and "scoped_value n (CreateZExtOrTrunc v b)" and "scoped_value n (State_Monad.return v)"
proof -
  have r: "scoped_value n (State_Monad.return v)" if "value_below n v" for v using that by (simp add: scoped_value_def scoped_def)
  then show "scoped_value n (State_Monad.return v)" using assms by blast
  have i: "scoped_value n (insert_inst u (op v))" if "operands (op v) = [v]" for u op
    using assms that by (intro scoped_insert) simp
  show "scoped_value n (CreateBitCast v t)" "scoped_value n (CreatePointerCast v t)"
    using assms by (auto simp: CreatePointerCast_def CreateBitCast_def intro!: r i)
  show tz: "scoped_value n (CreateTrunc v b)" "scoped_value n (CreateZExt v b)"
    by (cases v; auto simp: CreateTrunc_def CreateZExt_def intro!: r i)+
  show "scoped_value n (CreateZExtOrTrunc v b)"
    using assms tz r by (simp add: CreateZExtOrTrunc_def)
qed

lemma scoped_valueD: "scoped_value n m \<Longrightarrow> scoped n m" "scoped_value n m \<Longrightarrow> value_below (next_id m n) (built m n)"
  by (simp_all add: scoped_value_def)

lemma scoped_next: "scoped n m \<Longrightarrow> n \<le> next_id m n"
  by (simp add: scoped_def builder_next)

text \<open>After a builder the values from before are still there, and its result is.\<close>

lemma scoped_then:
  assumes "scoped_value n m" and "\<And>x. builder (f x)"
    and "\<And>v k. value_below k v \<Longrightarrow> n \<le> k \<Longrightarrow> v = built m n \<Longrightarrow> scoped k (f v)"
  shows "scoped n (State_Monad.bind m f)"
  using assms scoped_valueD [of n m] scoped_next [of n m] by (intro scoped_bind) auto

section \<open>Visitors\<close>

text \<open>The promise may rest on something known of the function (\<open>good\<close>), whose numbers are below \<open>start\<close>.\<close>

locale scoping_visitor = numbering_visitor +
  fixes good :: bool
    and start :: nat
  assumes inst_scoped: "good \<Longrightarrow> start \<le> N \<Longrightarrow> inst_below N i \<Longrightarrow> N \<le> n \<Longrightarrow>
      scoped n (visit_inst V i) \<and> inst_below (next_id (visit_inst V i) n) (built (visit_inst V i) n)"
    and term_scoped: "good \<Longrightarrow> start \<le> N \<Longrightarrow> list_all (value_below N) (term_operands (bb_term b)) \<Longrightarrow> N \<le> n \<Longrightarrow>
      scoped n (visit_term V b) \<and> list_all (value_below (next_id (visit_term V b) n)) (term_operands (built (visit_term V b) n))"
begin

lemma insts_below:
  assumes "good" and "start \<le> N"
  shows "list_all (inst_below N) is \<Longrightarrow> N \<le> n \<Longrightarrow>
    list_all (inst_below (visited_next (visit_inst V) is n)) (visited (visit_inst V) is n)"
proof (induction "is" arbitrary: n)
  case (Cons i "is")
  let ?k = "next_id (visit_inst V i) n"
  have k: "n \<le> ?k" "?k \<le> visited_next (visit_inst V) is ?k" by (simp_all add: builder_next builder_inst visited_next_le)
  have i: "list_all (inst_below ?k) (emitted (visit_inst V i) n)" "inst_below ?k (built (visit_inst V i) n)"
    using inst_scoped [OF assms, of i n] Cons.prems by (auto simp: scoped_def)
  with k(2) have "list_all (inst_below (visited_next (visit_inst V) is ?k)) (emitted (visit_inst V i) n @ [built (visit_inst V i) n])"
    by (auto simp: list_all_iff intro: inst_below_mono)
  with Cons.IH [of ?k] Cons.prems k(1) show ?case by simp
qed simp

lemma block_visited_below:
  assumes "good" and "start \<le> N" and "block_below N b" and "N \<le> n"
  shows "block_below (snd (visit_block V b n)) (fst (visit_block V b n))"
proof -
  let ?k = "visited_next (visit_inst V) (bb_insts b) n"
  have k: "N \<le> ?k" "?k \<le> next_id (visit_term V b) ?k"
    using assms(4) visited_next_le [of "visit_inst V" n "bb_insts b", OF builder_inst] by (simp_all add: builder_next builder_term)
  have "list_all (inst_below ?k) (visited (visit_inst V) (bb_insts b) n)"
    using insts_below [OF assms(1,2) _ assms(4)] assms(3) by (simp add: block_below_def)
  moreover have "list_all (inst_below (next_id (visit_term V b) ?k)) (emitted (visit_term V b) ?k)"
    "list_all (value_below (next_id (visit_term V b) ?k)) (term_operands (built (visit_term V b) ?k))"
    using term_scoped [OF assms(1,2) _ k(1), of b] assms(3) by (simp_all add: block_below_def scoped_def)
  moreover have "block_below (next_id (visit_term V b) ?k) b" by (rule block_below_mono [OF assms(3)]) (use k in linarith)
  ultimately show ?thesis
    using k(2) by (auto simp: visit_block_eq builder_inst builder_term Let_def block_below_def list_all_iff intro: inst_below_mono)
qed

lemma blocks_visited_below:
  assumes "good" and "start \<le> N"
  shows "list_all (block_below N) bs \<Longrightarrow> N \<le> n \<Longrightarrow>
    n \<le> snd (visit_blocks V bs n) \<and> list_all (block_below (snd (visit_blocks V bs n))) (fst (visit_blocks V bs n))"
proof (induction bs arbitrary: n)
  case (Cons b bs)
  have k: "n \<le> snd (visit_block V b n)"
    using visited_next_le [of "visit_inst V" n "bb_insts b", OF builder_inst]
      builder_next [OF builder_term, of "visited_next (visit_inst V) (bb_insts b) n" b]
    unfolding visit_block_eq [OF builder_inst builder_term] Let_def snd_conv by linarith
  let ?m = "snd (visit_blocks V bs (snd (visit_block V b n)))"
  have bs: "snd (visit_block V b n) \<le> ?m" "list_all (block_below ?m) (fst (visit_blocks V bs (snd (visit_block V b n))))"
    using Cons.IH [of "snd (visit_block V b n)"] Cons.prems k by simp_all
  have "block_below ?m (fst (visit_block V b n))"
    using block_visited_below [OF assms, of b n] Cons.prems by (intro block_below_mono [OF _ bs(1)]) simp
  with bs k show ?case by (simp add: split_beta)
qed simp

lemma function_visited_below: "good \<Longrightarrow> start \<le> fun_next F \<Longrightarrow> fun_below F \<Longrightarrow> fun_below (visit_function V F)"
  using blocks_visited_below [of "fun_next F" "fun_blocks F" "fun_next F"]
  by (simp add: fun_below_def visit_function_def split_beta)

end

section \<open>The passes\<close>

lemma callee_name_below: "callee_name f = Some g \<Longrightarrow> value_below N f"
  by (induction f) auto

lemmas scoped_emit = scoped_insert [THEN scoped_valueD(1)] scoped_CreateCall [THEN scoped_valueD(1)] scoped_casts [THEN scoped_valueD(1)]

lemma scoped_last [scoping]: "scoped n m \<Longrightarrow> scoped n (do { m; State_Monad.return () })"
  by (auto simp: scoped_def)

lemma scoped_insertRestartHook:
  assumes "kspecem_hooks L" and "case v of None \<Rightarrow> True | Some x \<Rightarrow> value_below n x"
  shows "scoped n (insertRestartHook L ty v)"
proof -
  have r: "restartHook L = Fun ''kspecem_hook_restart'' (FunTy (IntTy 32) [i8ptr, IntTy 32, i8ptr])"
    using assms(1) by (simp add: kspecem_hooks_def)
  have "scoped_value n (case v of Some v \<Rightarrow> CreatePointerCast v i8ptr | None \<Rightarrow> State_Monad.return (ConstNull i8ptr))"
    using assms(2) by (auto intro!: scoping split: option.split)
  then show ?thesis
    unfolding insertRestartHook_def r by (rule scoped_then) (auto intro!: scoping scoped_emit)
qed

lemma scoped_insertTimerInterruptHook:
  assumes "kspecem_hooks L" and "value_below n v"
  shows "scoped n (insertTimerInterruptHook L v)"
proof -
  have "timerInterruptHook L = Fun ''kspecem_hook_interrupt_timer'' (FunTy VoidTy [i8ptr, i8ptr])"
    using assms(1) by (simp add: kspecem_hooks_def)
  with assms(2) show ?thesis
    unfolding insertTimerInterruptHook_def
    by (intro scoped_then [OF scoped_CreateCall] scoped_then [OF scoped_casts(1)] scoped_last scoped_emit)
      (auto intro: value_below_mono)
qed

lemma scoped_KSpecEm_visits:
  assumes "kspecem_hooks L" and "value_below n v" and "value_below n x"
  shows "scoped n (visitCallInst L M F v)" and "scoped n (visitReturnInst L M F)" and "scoped n (visitStoreInst L F v)"
    and "scoped n (visitMemIntrinsic L F v x)"
proof -
  have h: "storeInstHook L = Fun ''kspecem_hook_store'' (FunTy VoidTy [i8ptr])"
    "memcpyHook L = Fun ''kspecem_hook_memcpy'' (FunTy VoidTy [i8ptr, IntTy 64])"
    using assms(1) by (simp_all add: kspecem_hooks_def)
  have "snd (snd (getCalledFunction F v)) \<in> {None, Some v}"
    by (auto simp: getCalledFunction_def split: ir_value.split option.split)
  then have "case snd (snd (getCalledFunction F v)) of None \<Rightarrow> True | Some y \<Rightarrow> value_below n y"
    using assms(2) by auto
  then show "scoped n (visitCallInst L M F v)"
    using assms(1) by (simp add: visitCallInst_def split_beta scoped_insertRestartHook scoped_return)
  show "scoped n (visitReturnInst L M F)"
    using assms(1) unfolding visitReturnInst_def
    by (auto intro!: scoped_return scoped_then [OF scoped_CreateCall] scoped_insertRestartHook)
  show "scoped n (visitStoreInst L F v)"
    using assms(2) unfolding visitStoreInst_def h
    by (auto intro!: scoped_return scoped_then [OF scoped_insert] scoped_last scoped_emit)
  let ?m = "if pointer_size_in_bits (layout L) = 32
       then (if int_width (type_of x) \<noteq> 32 then CreateTrunc x 32 else State_Monad.return x)
       else if 64 < int_width (type_of x) then CreateTrunc x 64
       else if int_width (type_of x) < 64 then CreateZExt x 64 else State_Monad.return x"
  have m: "scoped_value k ?m" if "value_below k x" for k using that by (auto intro: scoped_casts)
  have "scoped n (do { a \<leftarrow> insert_inst i8ptr (BitCastInst v); sz \<leftarrow> ?m;
      insert_inst VoidTy (CallInst CC_Fast (memcpyHook L) [a, sz]); State_Monad.return () })"
    unfolding h
  proof (rule scoped_then [OF scoped_insert])
    fix a k assume a: "value_below k a" "n \<le> k"
    show "scoped k (do { sz \<leftarrow> ?m; insert_inst VoidTy (CallInst CC_Fast
        (Fun ''kspecem_hook_memcpy'' (FunTy VoidTy [i8ptr, IntTy 64])) [a, sz]); State_Monad.return () })"
      by (rule scoped_then [OF m [OF value_below_mono [OF assms(3) a(2)]]])
        (use a in \<open>auto intro!: scoped_last scoped_emit intro: value_below_mono\<close>)
  qed (use assms(2) in simp_all)
  then show "scoped n (visitMemIntrinsic L F v x)" unfolding visitMemIntrinsic_def by (simp add: scoped_return)
qed

interpretation kspecem_scoping: scoping_visitor "KSpecEmPassVisitor L M F" "kspecem_hooks L" 0 for L M F
proof
  fix N n :: nat and i :: ir_inst
  assume h: "kspecem_hooks L" and i: "inst_below N i" "N \<le> n"
  have ops: "value_below n v" if "v \<in> set (operands (inst_op i))" for v
    using i that by (auto simp: inst_below_def list_all_iff intro: value_below_mono)
  let ?m = "case inst_op i of CallInst cc callee args \<Rightarrow> visitCallInst L M F callee
        | StoreInst v p \<Rightarrow> visitStoreInst L F p
        | MemIntrinsic mk d src len \<Rightarrow> visitMemIntrinsic L F d len
        | _ \<Rightarrow> State_Monad.return ()"
  have m: "scoped n ?m"
    using ops by (cases "inst_op i") (auto intro!: scoped_KSpecEm_visits [OF h] scoped_return)
  have e: "visit_inst (KSpecEmPassVisitor L M F) i = do { ?m; State_Monad.return i }" by (simp add: KSpecEmPassVisitor_def)
  show "scoped n (visit_inst (KSpecEmPassVisitor L M F) i)
      \<and> inst_below (next_id (visit_inst (KSpecEmPassVisitor L M F) i) n) (built (visit_inst (KSpecEmPassVisitor L M F) i) n)"
    using m scoped_next [OF m] i unfolding e by (auto simp: scoped_def intro: inst_below_mono)
next
  fix N n :: nat and b :: basic_block
  assume h: "kspecem_hooks L" and b: "list_all (value_below N) (term_operands (bb_term b))" "N \<le> n"
  let ?m = "case bb_term b of ReturnInst v \<Rightarrow> visitReturnInst L M F | _ \<Rightarrow> State_Monad.return ()"
  have m: "scoped n ?m" using scoped_KSpecEm_visits(2) [OF h, of n "ConstInt 1 0" "ConstInt 1 0"] by (cases "bb_term b") (auto intro: scoped_return)
  have e: "visit_term (KSpecEmPassVisitor L M F) b = do { ?m; State_Monad.return (bb_term b) }" by (simp add: KSpecEmPassVisitor_def)
  show "scoped n (visit_term (KSpecEmPassVisitor L M F) b)
      \<and> list_all (value_below (next_id (visit_term (KSpecEmPassVisitor L M F) b) n)) (term_operands (built (visit_term (KSpecEmPassVisitor L M F) b) n))"
    using m scoped_next [OF m] b unfolding e by (auto simp: scoped_def list_all_iff intro: value_below_mono)
qed

interpretation length_scoping: scoping_visitor "CheckSpecLengthVisitor h" "length_hook h" 0 for h
proof
  fix N n :: nat and i :: ir_inst
  assume "inst_below N i" "N \<le> n"
  then show "scoped n (visit_inst (CheckSpecLengthVisitor h) i)
      \<and> inst_below (next_id (visit_inst (CheckSpecLengthVisitor h) i) n) (built (visit_inst (CheckSpecLengthVisitor h) i) n)"
    by (auto simp: CheckSpecLengthVisitor_def scoped_return intro: inst_below_mono)
next
  fix N n :: nat and b :: basic_block
  assume h: "length_hook h" and b: "list_all (value_below N) (term_operands (bb_term b))" "N \<le> n"
  have "scoped n (do { CreateCall h [ConstInt 32 (inst_count b mod 2 ^ 32)]; State_Monad.return (bb_term b) })"
    using h by (auto simp: length_hook_def intro!: scoped_bind scoped_return scoped_emit)
  moreover have "list_all (value_below (Suc n)) (term_operands (bb_term b))"
    using b by (auto simp: list_all_iff intro: value_below_mono)
  ultimately show "scoped n (visit_term (CheckSpecLengthVisitor h) b)
      \<and> list_all (value_below (next_id (visit_term (CheckSpecLengthVisitor h) b) n)) (term_operands (built (visit_term (CheckSpecLengthVisitor h) b) n))"
    by (simp add: CheckSpecLengthVisitor_def)
qed

lemma scoped_value_after:
  assumes "scoped n m" and "\<And>x. builder (f x)" and "scoped_value (next_id m n) (f (built m n))"
  shows "scoped_value n (State_Monad.bind m f)"
proof -
  have "builder m" using assms(1) by (simp add: scoped_def)
  moreover have "scoped n (State_Monad.bind m f)" 
    using assms(1,2) scoped_valueD(1) [OF assms(3)] by (rule scoped_bind)
  ultimately show ?thesis using assms(2,3) by (simp add: scoped_value_def)
qed

lemma scoped_value_then:
  assumes "scoped_value n m" and "\<And>x. builder (f x)"
    and "\<And>v k. value_below k v \<Longrightarrow> n \<le> k \<Longrightarrow> v = built m n \<Longrightarrow> scoped_value k (f v)"
  shows "scoped_value n (State_Monad.bind m f)"
proof (rule scoped_value_after)
  show "scoped n m" by (rule scoped_valueD(1) [OF assms(1)])
  then show "scoped_value (next_id m n) (f (built m n))" using assms(3) scoped_valueD(2) [OF assms(1)] scoped_next by blast
qed (rule assms(2))

lemma scoped_checked_pointer:
  assumes "access_hook K" and "value_below n p"
  shows "scoped_value n (checked_pointer K p sz)"
proof -
  have "value_below k (AccessHookFn K)" for k using assms(1) callee_name_below by (auto simp: access_hook_def)
  with assms(2) show ?thesis
    unfolding checked_pointer_def
    by (intro scoped_value_then [OF scoped_casts(1)] scoped_value_then [OF scoped_CreateCall] scoped_casts) (auto intro: value_below_mono)
qed

lemma scoped_PfChecker_copy:
  assumes "access_hook K" and "inst_op i = MemIntrinsic mk d src len" and "inst_below n i" and "is_asan_instr i"
  shows "scoped n (PfChecker_visitMemIntrinsic K i mk d src len)
    \<and> inst_below (next_id (PfChecker_visitMemIntrinsic K i mk d src len) n) (built (PfChecker_visitMemIntrinsic K i mk d src len) n)"
proof -
  let ?m = "do { Ptr \<leftarrow> CreateBitCast d i8ptr; Size \<leftarrow> CreateZExtOrTrunc len (pointer_size_in_bits (pf_layout K));
    CreateCall (AccessHookFn K) [Ptr, Size] }"
  have e: "PfChecker_visitMemIntrinsic K i mk d src len = do { Call \<leftarrow> ?m; State_Monad.return (i\<lparr>inst_op := MemIntrinsic mk Call src len\<rparr>) }"
    using assms(4) by (simp add: PfChecker_visitMemIntrinsic_def)
  have v: "value_below n d" "value_below n src" "value_below n len" "inst_id i < n" using assms(2,3) by (simp_all add: inst_below_def)
  have "value_below k (AccessHookFn K)" for k using assms(1) callee_name_below by (auto simp: access_hook_def)
  with v have m: "scoped_value n ?m"
    by (intro scoped_value_then [OF scoped_casts(1)] scoped_value_then [OF scoped_casts(5)] scoped_CreateCall) (auto intro: value_below_mono)
  note le = scoped_next [OF scoped_valueD(1) [OF m]]
  have "inst_below (next_id ?m n) (i\<lparr>inst_op := MemIntrinsic mk (built ?m n) src len\<rparr>)"
    using scoped_valueD(2) [OF m] v le by (auto simp: inst_below_def simp del: builder_bind_eqs intro: value_below_mono)
  with m show ?thesis unfolding e by (auto simp: scoped_value_def scoped_def simp del: builder_bind_eqs simp add: builder_bind_run)
qed

interpretation pf_scoping: scoping_visitor "PfCheckerPassVisitor K" "access_hook K" 0 for K
proof
  fix N n :: nat and i :: ir_inst
  assume h: "access_hook K" and i: "inst_below N i" "N \<le> n"
  then have n: "inst_below n i" by (auto intro: inst_below_mono)
  have same: "scoped n (State_Monad.return i) \<and> inst_below n i" using n by (simp add: scoped_return)
  have ptr: "scoped n (do { q \<leftarrow> checked_pointer K p sz; State_Monad.return (i\<lparr>inst_op := f q\<rparr>) })
      \<and> inst_below (next_id (checked_pointer K p sz) n) (i\<lparr>inst_op := f (built (checked_pointer K p sz) n)\<rparr>)"
    if "value_below n p" "\<And>k q. value_below k q \<Longrightarrow> n \<le> k \<Longrightarrow> list_all (value_below k) (operands (f q))" for p sz f
  proof -
    note c = scoped_checked_pointer [OF h that(1), of sz]
    note le = scoped_next [OF scoped_valueD(1) [OF c]]
    show ?thesis using c le that(2) [OF scoped_valueD(2) [OF c] le] n by (auto simp: scoped_value_def scoped_def inst_below_def)
  qed
  show "scoped n (visit_inst (PfCheckerPassVisitor K) i)
      \<and> inst_below (next_id (visit_inst (PfCheckerPassVisitor K) i) n) (built (visit_inst (PfCheckerPassVisitor K) i) n)"
  proof (cases "is_asan_instr i")
    case True
    show ?thesis
    proof (cases "inst_op i")
      case (LoadInst p)
      with n ptr [of p LoadInst] True show ?thesis by (simp add: PfCheckerPassVisitor_def PfChecker_visits_eq inst_below_def)
    next
      case (StoreInst v p)
      with n ptr [of p "StoreInst v"] True show ?thesis
        by (auto simp: PfCheckerPassVisitor_def PfChecker_visits_eq inst_below_def intro: value_below_mono)
    next
      case (MemIntrinsic mk d src len)
      with scoped_PfChecker_copy [OF h MemIntrinsic n True] show ?thesis by (simp add: PfCheckerPassVisitor_def)
    qed (use same in \<open>simp_all add: PfCheckerPassVisitor_def\<close>)
  next
    case False
    with same show ?thesis
      by (cases "inst_op i") (simp_all add: PfCheckerPassVisitor_def PfChecker_visitLoadInst_def PfChecker_visitStoreInst_def
          PfChecker_visitMemIntrinsic_def)
  qed
next
  fix N n :: nat and b :: basic_block
  assume "list_all (value_below N) (term_operands (bb_term b))" "N \<le> n"
  then show "scoped n (visit_term (PfCheckerPassVisitor K) b)
      \<and> list_all (value_below (next_id (visit_term (PfCheckerPassVisitor K) b) n)) (term_operands (built (visit_term (PfCheckerPassVisitor K) b) n))"
    by (auto simp: PfCheckerPassVisitor_def scoped_return list_all_iff intro: value_below_mono)
qed

lemma defining_inst_below: "fun_below F \<Longrightarrow> defining_inst F c = Some i \<Longrightarrow> inst_below (fun_next F) i"
  by (cases c) (auto simp: defining_inst_def find_Some_iff fun_below_def block_below_def list_all_iff dest!: nth_mem)

lemma scoped_emitNewCheckpointHook:
  assumes "spec_hooks LS"
  shows "scoped n (emitNewCheckpointHook LS)"
  using assms by (simp add: spec_hooks_def scoped_def) (simp add: emitNewCheckpointHook_def inst_below_def)

lemma scoped_invertedCondition:
  assumes "fun_below F" and "fun_next F \<le> n" and "value_below n c"
  shows "scoped_value n (invertedCondition F c)"
proof -
  have "list_all (value_below n) (operands (inst_op i))" if "defining_inst F c = Some i" for i
    using inst_below_mono [OF defining_inst_below [OF assms(1) that] assms(2)] by (simp add: inst_below_def)
  with assms(3) show ?thesis
    by (auto simp: invertedCondition_def intro!: scoped_insert split: option.split ir_op.split)
qed

lemma scoped_emitBranch:
  assumes "spec_hooks LS" and "fun_below F" and "fun_next F \<le> n" and "value_below n c"
  shows "scoped_value n (emitBranch LS F c)"
proof -
  let ?rest = "do {
        inverted \<leftarrow> invertedCondition F c;
        swapBranchCondition \<leftarrow> insert_inst (IntTy 32) (LoadInst kspecem_swap_branch_condition_var);
        cond \<leftarrow> insert_inst (IntTy 1) (ICmpInst ICMP_EQ swapBranchCondition (ConstInt 32 1));
        newCondition \<leftarrow> insert_inst (IntTy 1) (SelectInst cond inverted c);
        insert_inst VoidTy (StoreInst (ConstInt 32 0) kspecem_swap_branch_condition_var);
        State_Monad.return newCondition }"
  have "scoped_value m ?rest" if m: "n \<le> m" for m
  proof -
    note c = value_below_mono [OF assms(4)]
    have "scoped_value m (invertedCondition F c)" using assms m by (intro scoped_invertedCondition c) auto
    then show ?thesis
      using m
      by (intro scoped_value_then [of _ "invertedCondition F c"] scoped_value_then [OF scoped_insert] scoped_casts(6))
        (auto intro: value_below_mono c)
  qed
  then have "scoped_value (next_id (emitNewCheckpointHook LS) n) ?rest" by (simp only: next_emitNewCheckpointHook le_add1)
  then show ?thesis
    unfolding emitBranch_def by (rule scoped_value_after [OF scoped_emitNewCheckpointHook [OF assms(1)], rotated]) simp
qed

interpretation spec_scoping: scoping_visitor "KSpecEmSpecPassVisitor LS F" "spec_hooks LS \<and> fun_below F" "fun_next F" for LS F
proof
  fix N n :: nat and i :: ir_inst
  assume "inst_below N i" "N \<le> n"
  then show "scoped n (visit_inst (KSpecEmSpecPassVisitor LS F) i)
      \<and> inst_below (next_id (visit_inst (KSpecEmSpecPassVisitor LS F) i) n) (built (visit_inst (KSpecEmSpecPassVisitor LS F) i) n)"
    by (auto simp: KSpecEmSpecPassVisitor_def scoped_return intro: inst_below_mono)
next
  fix N n :: nat and b :: basic_block
  assume h: "spec_hooks LS \<and> fun_below F" and le: "fun_next F \<le> N" "N \<le> n" and b: "list_all (value_below N) (term_operands (bb_term b))"
  have n: "list_all (value_below n) (term_operands (bb_term b))" using b le(2) by (auto simp: list_all_iff intro: value_below_mono)
  show "scoped n (visit_term (KSpecEmSpecPassVisitor LS F) b)
      \<and> list_all (value_below (next_id (visit_term (KSpecEmSpecPassVisitor LS F) b) n)) (term_operands (built (visit_term (KSpecEmSpecPassVisitor LS F) b) n))"
  proof (cases "bb_term b")
    case (CondBr c t f)
    have e: "scoped_value n (emitBranch LS F c)" using h le n CondBr by (intro scoped_emitBranch) auto
    then have "builder (emitBranch LS F c)" by (simp add: scoped_value_def scoped_def)
    with e CondBr show ?thesis by (auto simp: KSpecEmSpecPassVisitor_def scoped_value_def intro!: scoped_bind scoped_return)
  qed (use n in \<open>simp_all add: KSpecEmSpecPassVisitor_def scoped_return\<close>)
qed

section \<open>Functions\<close>

lemma front_below:
  assumes "fun_below F" and "fun_blocks F = bb # rest" and "scoped (fun_next F) m" and "insert_at_front m bb (fun_next F) = (bb', n)"
  shows "fun_below (F\<lparr>fun_blocks := bb' # rest, fun_next := n\<rparr>)"
proof -
  have n: "n = next_id m (fun_next F)" "bb' = bb\<lparr>bb_insts := emitted m (fun_next F) @ bb_insts bb\<rparr>"
    using assms(3,4) by (auto simp: insert_at_front_def scoped_def builder_run)
  have "list_all (block_below n) (bb # rest)"
    using assms(1) block_below_mono [OF _ scoped_next [OF assms(3)]] by (auto simp: fun_below_def assms(2) list_all_iff n)
  with assms(3) show ?thesis by (simp add: fun_below_def n block_below_def scoped_def)
qed

lemma call_depth_below: "spec_hooks LS \<Longrightarrow> fun_below F \<Longrightarrow> fun_below (insert_call_depth LS F)"
proof -
  assume h: "spec_hooks LS" and F: "fun_below F"
  have "scoped n (emitCallDepthHook LS F)" for n
    using h unfolding emitCallDepthHook_def
    by (intro scoped_then [OF scoped_casts(2)] scoped_then [OF scoped_CreateCall] scoped_last scoped_emit)
      (auto simp: spec_hooks_def intro: value_below_mono)
  with F show ?thesis
    by (auto simp: insert_call_depth_def split: list.split prod.split intro: front_below)
qed

lemma rename_pred_below: "block_below n b \<Longrightarrow> block_below n (rename_pred old new b)"
  by (fastforce simp: block_below_def rename_pred_def list_all_iff)

lemma exception_below:
  assumes "kspecem_hooks L" and "fun_below F" and "fun_blocks F = bb # rest" and "value_below 0 arg"
  shows "fun_below (exception_entry L F bb rest arg)"
proof -
  let ?m = "do { inSpec \<leftarrow> insertExceptionInterruptHook L F arg;
    insert_inst (IntTy 1) (ICmpInst ICMP_EQ inSpec (ConstInt 32 0)) }" and ?n = "fun_next F"
  have x: "exceptionInterruptHook L = Fun ''kspecem_hook_interrupt_exception'' (FunTy (IntTy 32) [i8ptr, i8ptr, IntTy 32])"
    using assms(1) by (simp add: kspecem_hooks_def)
  have "scoped_value ?n (insertExceptionInterruptHook L F arg)"
    unfolding insertExceptionInterruptHook_def x
    by (intro scoped_value_then [OF scoped_CreateCall] scoped_value_then [OF scoped_casts(1)] scoped_CreateCall)
      (auto intro: value_below_mono value_below_mono [OF assms(4)])
  then have m: "scoped_value ?n ?m" by (rule scoped_value_then) (auto intro!: scoped_insert)
  then have b: "builder ?m" by (simp only: scoped_value_def scoped_def)
  have r: "run_state ?m (?n, []) = (built ?m ?n, (next_id ?m ?n, emitted ?m ?n))" by (simp only: builder_run [OF b] append_Nil)
  let ?k = "next_id ?m ?n"
  have bb: "block_below ?k b" if "b \<in> set (bb # rest)" for b
    using assms(2) that block_below_mono [OF _ scoped_next [OF scoped_valueD(1) [OF m]]] unfolding fun_below_def assms(3) list_all_iff by blast
  have first: "block_below ?k (bb\<lparr>bb_insts := emitted ?m ?n, bb_term := CondBr (built ?m ?n) x y\<rparr>)" for x y
    using bb [of bb] m unfolding block_below_def scoped_value_def scoped_def by simp
  have second: "block_below ?k (bb\<lparr>bb_label := x, bb_phis := []\<rparr>)" for x
    using bb [of bb] by (simp add: block_below_def)
  have "block_below ?k \<lparr>bb_label = x, bb_phis = [], bb_insts = [], bb_term = ReturnInst None\<rparr>" for x
    by (simp add: block_below_def)
  with bb first second show ?thesis
    unfolding exception_entry_def fun_below_def r Let_def prod.case list_all_iff
    by (auto simp del: builder_bind_eqs intro!: rename_pred_below)
qed

text \<open>All passes keep the values in scope.\<close>

lemma KSpecEm_visitor_below:
  assumes "kspecem_hooks L" and "fun_below F" and "KSpecEm_visitor L M F = Some F'"
  shows "fun_below F'"
proof -
  have r: "scoped n (insertRestartHook L 4 (Some (Fun f t)))" for n f t using assms(1) by (intro scoped_insertRestartHook) simp_all
  have t: "scoped n (insertTimerInterruptHook L (Arg 0 ty))" for n ty using assms(1) by (intro scoped_insertTimerInterruptHook) simp_all
  have v: "fun_below (visit_function (KSpecEmPassVisitor L M F) F)"
    using assms by (intro kspecem_scoping.function_visited_below) simp_all
  show ?thesis
    using assms v
    by (auto simp: KSpecEm_visitor_def split: if_splits list.splits prod.splits
        intro: front_below [OF _ _ r] front_below [OF _ _ t] exception_below)
qed

lemma KSpecEmSpec_visitor_below: "spec_hooks LS \<Longrightarrow> fun_below F \<Longrightarrow> fun_below (KSpecEmSpec_visitor LS M F)"
  by (simp add: KSpecEmSpec_visitor_def Let_def call_depth_below spec_scoping.function_visited_below)

lemma small_visitors_below:
  "access_hook K \<Longrightarrow> fun_below F \<Longrightarrow> fun_below (PfChecker_visitor K F)"
  "length_hook h \<Longrightarrow> fun_below F \<Longrightarrow> fun_below (CheckSpecLength_visitor h F)"
  by (simp_all add: PfChecker_visitor_def pf_scoping.function_visited_below CheckSpecLength_visitor_def
      length_scoping.function_visited_below)

end
