(* ===== verification/KPassErrors.thy ===== *)
theory KPassErrors
  imports KSpecEmPass KSpecEmSpecPass KSpecEmSmallPasses
begin

text \<open>
  When a pass is undefined, and what it finds in the function lists.
\<close>

section \<open>Declaring hooks\<close>

text \<open>A hook that the module has with another type: \<open>cast<Function>\<close> fails.\<close>

definition hook_clash :: "ir_module \<Rightarrow> string \<times> ir_type \<Rightarrow> bool" where
  "hook_clash M = (\<lambda>(f, t). case lookup_fun M f of Some F \<Rightarrow> fun_type F \<noteq> t | None \<Rightarrow> False)"

lemma lookup_setCallingConv: "lookup_fun (setCallingConv cc g M) f = map_option (\<lambda>F. if f = g then F\<lparr>fun_cc := cc\<rparr> else F) (lookup_fun M f)"
proof -
  have "find (\<lambda>F. fun_name F = f) (map (\<lambda>F. if fun_name F = g then F\<lparr>fun_cc := cc\<rparr> else F) Fs) =
      map_option (\<lambda>F. if f = g then F\<lparr>fun_cc := cc\<rparr> else F) (find (\<lambda>F. fun_name F = f) Fs)" for Fs
    by (induction Fs) auto
  then show ?thesis by (simp add: lookup_fun_def setCallingConv_def)
qed

lemma lookup_append: "find P (xs @ ys) = (case find P xs of Some x \<Rightarrow> Some x | None \<Rightarrow> find P ys)"
  by (induction xs) auto

lemma declare_hook_None: "declare_hook f r ts M = None \<longleftrightarrow> hook_clash M (f, FunTy r ts)"
  by (auto simp: declare_hook_def getOrInsertFunction_def hook_clash_def split: option.splits if_splits)

lemma declare_hook_facts:
  assumes "declare_hook f r ts M = Some (v, M')"
  shows "\<not> hook_clash M (f, FunTy r ts) \<and> (\<forall>g t. g \<noteq> f \<longrightarrow> hook_clash M' (g, t) = hook_clash M (g, t))"
proof -
  have "lookup_fun (M\<lparr>mod_funs := mod_funs M @ [F]\<rparr>) g = lookup_fun M g" if "fun_name F \<noteq> g" for F g
    using that by (simp add: lookup_fun_def lookup_append split: option.split)
  then have "lookup_fun M' g = lookup_fun M g" if "g \<noteq> f" for g
    using assms that
    by (auto simp: declare_hook_def getOrInsertFunction_def lookup_setCallingConv option.map_ident split: option.splits if_splits)
  then show ?thesis using assms declare_hook_None [of f r ts M] by (auto simp: hook_clash_def)
qed

lemma declare_hook_name: "declare_hook f r ts M = Some (v, M') \<Longrightarrow> mod_name M' = mod_name M"
  by (auto simp: declare_hook_def getOrInsertFunction_def setCallingConv_def split: option.splits if_splits)

definition kspecem_hook_types :: "(string \<times> ir_type) list" where
  "kspecem_hook_types = [(''kspecem_hook_store'', FunTy VoidTy [i8ptr]), (''kspecem_hook_memcpy'', FunTy VoidTy [i8ptr, IntTy 64]),
     (''kspecem_hook_restart'', FunTy (IntTy 32) [i8ptr, IntTy 32, i8ptr]),
     (''kspecem_hook_interrupt_timer'', FunTy VoidTy [i8ptr, i8ptr]),
     (''kspecem_hook_interrupt_exception'', FunTy (IntTy 32) [i8ptr, i8ptr, IntTy 32])]"

lemma KSpecEm_init_None: "KSpecEm_init l DL M = None \<longleftrightarrow> list_ex (hook_clash M) kspecem_hook_types"
  by (auto simp: KSpecEm_init_def kspecem_hook_types_def declare_hook_None dest!: declare_hook_facts split: bind_split)

section \<open>Timers and exceptions\<close>

text \<open>A function on the timer or exception list without a body or an argument.\<close>

definition no_entry :: "abi_list \<Rightarrow> string \<Rightarrow> ir_function \<Rightarrow> bool" where
  "no_entry l M F \<longleftrightarrow> \<not> isIn l M F ''blacklist'' \<and> (isIn l M F ''timer'' \<or> isIn l M F ''exception'')
     \<and> (fun_blocks F = [] \<or> fun_args F = [])"

lemma KSpecEm_visitor_None: "KSpecEm_visitor L M F = None \<longleftrightarrow> no_entry (kspecem_functions L) M F"
  by (auto simp: KSpecEm_visitor_def no_entry_def split: list.split prod.split)

lemma visit_functions_None: "visit_functions f Fs = None \<longleftrightarrow> list_ex (\<lambda>F. f F = None) Fs"
  by (induction Fs) (auto split: bind_split)

lemma KSpecEm_init_list: "KSpecEm_init l DL M = Some (L, M') \<Longrightarrow> kspecem_functions L = l \<and> mod_name M' = mod_name M"
  by (auto simp: KSpecEm_init_def dest!: declare_hook_name split: bind_splits)

text \<open>
  C20. When the restart and store pass is undefined, exactly: the module is not the runtime's, and
  it has one of the five hooks with another type, or some function of the module, hooks included,
  is on the timer or exception list (and not on the blacklist) and has no body or no argument to take the registers from.
  In all other cases the pass returns.
\<close>

theorem KSpecEm_runImpl_undefined:
  "KSpecEm_runImpl l DL M = None \<longleftrightarrow> \<not> contains (mod_name M) ''libkspecem.a'' \<and>
    (list_ex (hook_clash M) kspecem_hook_types
     \<or> (\<exists>L M'. KSpecEm_init l DL M = Some (L, M') \<and> list_ex (no_entry l (mod_name M)) (mod_funs M')))"
proof (cases "KSpecEm_init l DL M")
  case None
  with KSpecEm_init_None [of l DL M] show ?thesis by (auto simp: KSpecEm_runImpl_def)
next
  case (Some p)
  then obtain L M' where p: "p = (L, M')" "kspecem_functions L = l" "mod_name M' = mod_name M"
    using KSpecEm_init_list by (metis prod.exhaust)
  have "\<not> list_ex (hook_clash M) kspecem_hook_types" using Some KSpecEm_init_None [of l DL M] by simp
  with Some p visit_functions_None [of "KSpecEm_visitor L (mod_name M)" "mod_funs M'"] show ?thesis
    by (auto simp: KSpecEm_runImpl_def KSpecEm_visitor_None split: bind_splits)
qed

section \<open>Names in the lists\<close>

text \<open>
  Link time optimisation does not take a function off a list: under the name it gets when it is promoted, its own name
  followed by \<open>.llvm.\<close> and a hash, a function is in the same categories as before, whatever
  the prefix of instrumented functions is.
\<close>

lemma isIn_promoted_name:
  assumes "CHR ''.'' \<notin> set f"
  shows "isIn l M (F\<lparr>fun_name := f @ ''.llvm.'' @ h\<rparr>) c = isIn l M (F\<lparr>fun_name := f\<rparr>) c"
  using find_sub_no_dot(1) [OF assms, of h] find_sub_no_dot(2) [OF assms] by (simp add: isIn_def Let_def)

section \<open>Assembly\<close>

text \<open>
  The list of harmless assembly takes in everything that begins with the label \<open>1:\<close> and has no memory operand:
  what follows the NUL in the string of the source is not compared.
\<close>

theorem asm_label_no_restart:
  assumes "\<not> hasMemoryGlobber iV"
  shows "getCalledFunction F (InlineAsm (''1:'' @ asm) iV t) = (None, -1, None)"
  using assms by (simp add: getCalledFunction_def asm_no_restart_def)

end
