(* ===== verification/KPassManager.thy ===== *)
theory KPassManager
  imports KPassErrors
begin

text \<open>
  How the passes get into a compilation: their entry points for the two pass managers of LLVM, the plugin information
  with its callbacks, and the registration with the legacy pass manager, which every pass file of
  \<open>passes\<close> has at its end. A pass manager is the list of its passes, which it runs in order. What LLVM does with the
  callbacks is not code of this repository: \<open>llvm_passes\<close> has the operations as parameters, and \<open>llvm_passes_ok\<close>
  says what their documentation promises. The versions in the plugin information are left out.
\<close>

section \<open>Options and results\<close>

text \<open>\<open>createOrDie\<close> is \<open>SpecialCaseList::createOrDie\<close>, which reads the files of a list. The data layout is
  the one of the modules.\<close>

record pass_options =
  kspecemABIList :: "string list"
  kspecemFunctionPrefix :: string
  kspecemSpecABIList :: "string list"
  kspecemSpecFunctionPrefix :: string
  createOrDie :: "string list \<Rightarrow> string \<Rightarrow> string \<Rightarrow> string \<Rightarrow> string \<Rightarrow> bool"
  module_layout :: data_layout

abbreviation kspecem_list :: "pass_options \<Rightarrow> abi_list" where
  "kspecem_list opts \<equiv> set_abi_list (createOrDie opts (kspecemABIList opts)) (kspecemFunctionPrefix opts)"

abbreviation kspecem_spec_list :: "pass_options \<Rightarrow> abi_list" where
  "kspecem_spec_list opts \<equiv> set_abi_list (createOrDie opts (kspecemSpecABIList opts)) (kspecemSpecFunctionPrefix opts)"

datatype preserved_analyses = PA_none | PA_all

text \<open>What a pass prints are the lines of \<open>CountInstrs\<close>.\<close>

type_synonym errs = "(string \<times> nat) list"

type_synonym pass_result = "(preserved_analyses \<times> ir_module \<times> errs) option"

type_synonym legacy_result = "(bool \<times> ir_module \<times> errs) option"

datatype module_pass = CountInstrsPass | KSpecEmPfCheckerPass | KSpecEmPass | KSpecEmCheckSpecLengthPass | KSpecEmSpecPass

section \<open>Entry points\<close>

definition LegacyCountInstrsPass_runOnModule :: "pass_options \<Rightarrow> ir_module \<Rightarrow> legacy_result" where
  "LegacyCountInstrsPass_runOnModule opts M =
     Some (case CountInstrs_runImpl M of (Changed, out) \<Rightarrow> (Changed, M, out))"

definition CountInstrsPass_run :: "pass_options \<Rightarrow> ir_module \<Rightarrow> pass_result" where
  "CountInstrsPass_run opts M = do {
     (Changed, M', out) \<leftarrow> Some (case CountInstrs_runImpl M of (Changed, out) \<Rightarrow> (Changed, M, out));
     Some (if Changed then PA_none else PA_all, M', out)
   }"

definition LegacyKSpecEmPfCheckerPass_runOnModule :: "pass_options \<Rightarrow> ir_module \<Rightarrow> legacy_result" where
  "LegacyKSpecEmPfCheckerPass_runOnModule opts M =
     Some (case PfChecker_runImpl (module_layout opts) M of (Changed, M') \<Rightarrow> (Changed, M', []))"

definition KSpecEmPfCheckerPass_run :: "pass_options \<Rightarrow> ir_module \<Rightarrow> pass_result" where
  "KSpecEmPfCheckerPass_run opts M = do {
     (Changed, M', out) \<leftarrow> Some (case PfChecker_runImpl (module_layout opts) M of (Changed, M') \<Rightarrow> (Changed, M', []));
     Some (if Changed then PA_none else PA_all, M', out)
   }"

definition LegacyKSpecEmPass_runOnModule :: "pass_options \<Rightarrow> ir_module \<Rightarrow> legacy_result" where
  "LegacyKSpecEmPass_runOnModule opts M =
     map_option (\<lambda>(Changed, M'). (Changed, M', [])) (KSpecEm_runImpl (kspecem_list opts) (module_layout opts) M)"

definition KSpecEmPass_run :: "pass_options \<Rightarrow> ir_module \<Rightarrow> pass_result" where
  "KSpecEmPass_run opts M = do {
     (Changed, M', out) \<leftarrow> map_option (\<lambda>(Changed, M'). (Changed, M', [])) (KSpecEm_runImpl (kspecem_list opts) (module_layout opts) M);
     Some (if Changed then PA_none else PA_all, M', out)
   }"

definition LegacyKSpecEmCheckSpecLengthPass_runOnModule :: "pass_options \<Rightarrow> ir_module \<Rightarrow> legacy_result" where
  "LegacyKSpecEmCheckSpecLengthPass_runOnModule opts M =
     map_option (\<lambda>(Changed, M'). (Changed, M', [])) (CheckSpecLength_runImpl M)"

definition KSpecEmCheckSpecLengthPass_run :: "pass_options \<Rightarrow> ir_module \<Rightarrow> pass_result" where
  "KSpecEmCheckSpecLengthPass_run opts M = do {
     (Changed, M', out) \<leftarrow> map_option (\<lambda>(Changed, M'). (Changed, M', [])) (CheckSpecLength_runImpl M);
     Some (if Changed then PA_none else PA_all, M', out)
   }"

definition LegacyKSpecEmSpecPass_runOnModule :: "pass_options \<Rightarrow> ir_module \<Rightarrow> legacy_result" where
  "LegacyKSpecEmSpecPass_runOnModule opts M =
     map_option (\<lambda>(Changed, M'). (Changed, M', [])) (KSpecEmSpec_runImpl (kspecem_spec_list opts) M)"

definition KSpecEmSpecPass_run :: "pass_options \<Rightarrow> ir_module \<Rightarrow> pass_result" where
  "KSpecEmSpecPass_run opts M = do {
     (Changed, M', out) \<leftarrow> map_option (\<lambda>(Changed, M'). (Changed, M', [])) (KSpecEmSpec_runImpl (kspecem_spec_list opts) M);
     Some (if Changed then PA_none else PA_all, M', out)
   }"

fun run_pass :: "pass_options \<Rightarrow> module_pass \<Rightarrow> ir_module \<Rightarrow> pass_result" where
  "run_pass opts CountInstrsPass M = CountInstrsPass_run opts M"
| "run_pass opts KSpecEmPfCheckerPass M = KSpecEmPfCheckerPass_run opts M"
| "run_pass opts KSpecEmPass M = KSpecEmPass_run opts M"
| "run_pass opts KSpecEmCheckSpecLengthPass M = KSpecEmCheckSpecLengthPass_run opts M"
| "run_pass opts KSpecEmSpecPass M = KSpecEmSpecPass_run opts M"

text \<open>A module pass manager: the passes in order, and the analyses all of them preserve.\<close>

primrec run_passes :: "pass_options \<Rightarrow> module_pass list \<Rightarrow> ir_module \<Rightarrow> pass_result" where
  "run_passes opts [] M = Some (PA_all, M, [])"
| "run_passes opts (p # ps) M = do {
     (pa, M', out) \<leftarrow> run_pass opts p M;
     (pa', M'', out') \<leftarrow> run_passes opts ps M';
     Some (if pa = PA_all then pa' else PA_none, M'', out @ out')
   }"

section \<open>Plugins\<close>

definition addPass :: "module_pass \<Rightarrow> module_pass list \<Rightarrow> module_pass list" where
  "addPass p PM = PM @ [p]"

datatype extension_point = EP_OptimizerLast | EP_FullLinkTimeOptimizationLast

type_synonym pass_callback = "module_pass list \<Rightarrow> module_pass list"

type_synonym parsing_callback = "string \<Rightarrow> module_pass list \<Rightarrow> bool \<times> module_pass list"

type_synonym extension = "extension_point \<times> pass_callback"

text \<open>The \<open>PassBuilder\<close> of LLVM and its legacy \<open>PassManagerBuilder\<close>. A builder parses one name of a pipeline at a time, into
  the pass manager it is given.\<close>

record 'pb llvm_passes =
  newPassBuilder :: 'pb
  registerOptimizerLastEPCallback :: "pass_callback \<Rightarrow> 'pb \<Rightarrow> 'pb"
  registerPipelineParsingCallback :: "parsing_callback \<Rightarrow> 'pb \<Rightarrow> 'pb"
  buildDefaultPipeline :: "'pb \<Rightarrow> module_pass list"
  parseModulePass :: "'pb \<Rightarrow> string \<Rightarrow> module_pass list \<Rightarrow> module_pass list option"
  addExtensionsToPM :: "extension_point \<Rightarrow> extension list \<Rightarrow> pass_callback"

record 'pb plugin_info =
  PluginName :: string
  RegisterPassBuilderCallbacks :: "'pb \<Rightarrow> 'pb"

definition getCountInstrsPassPluginInfo :: "'pb llvm_passes \<Rightarrow> 'pb plugin_info" where
  "getCountInstrsPassPluginInfo LP = \<lparr>PluginName = ''CountInstrs'', RegisterPassBuilderCallbacks = (\<lambda>PB.
     let PB = registerOptimizerLastEPCallback LP (addPass CountInstrsPass) PB;
         PB = registerPipelineParsingCallback LP (\<lambda>Name MPM.
           if Name = ''count-instrs'' then (True, addPass CountInstrsPass MPM) else (False, MPM)) PB
     in PB)\<rparr>"

definition getKSpecEmPfCheckerPassPluginInfo :: "'pb llvm_passes \<Rightarrow> 'pb plugin_info" where
  "getKSpecEmPfCheckerPassPluginInfo LP = \<lparr>PluginName = ''KSpecEmPfChecker'', RegisterPassBuilderCallbacks = (\<lambda>PB.
     let PB = registerOptimizerLastEPCallback LP (addPass KSpecEmPfCheckerPass) PB;
         PB = registerPipelineParsingCallback LP (\<lambda>Name MPM.
           if Name = ''kspecem-pf-checker'' then (True, addPass KSpecEmPfCheckerPass MPM) else (False, MPM)) PB
     in PB)\<rparr>"

definition getKSpecEmPassPluginInfo :: "'pb llvm_passes \<Rightarrow> 'pb plugin_info" where
  "getKSpecEmPassPluginInfo LP = \<lparr>PluginName = ''KSpecEm'', RegisterPassBuilderCallbacks = (\<lambda>PB.
     let PB = registerOptimizerLastEPCallback LP (addPass KSpecEmPass) PB;
         PB = registerPipelineParsingCallback LP (\<lambda>Name MPM.
           if Name = ''kspecem'' then (True, addPass KSpecEmPass MPM) else (False, MPM)) PB
     in PB)\<rparr>"

definition getKSpecEmCheckSpecLengthPassPluginInfo :: "'pb llvm_passes \<Rightarrow> 'pb plugin_info" where
  "getKSpecEmCheckSpecLengthPassPluginInfo LP = \<lparr>PluginName = ''KSpecEmCheckSpecLength'', RegisterPassBuilderCallbacks = (\<lambda>PB.
     let PB = registerOptimizerLastEPCallback LP (addPass KSpecEmCheckSpecLengthPass) PB;
         PB = registerPipelineParsingCallback LP (\<lambda>Name MPM.
           if Name = ''kspecem-check-spec-length'' then (True, addPass KSpecEmCheckSpecLengthPass MPM) else (False, MPM)) PB
     in PB)\<rparr>"

definition getKSpecEmSpecPassPluginInfo :: "'pb llvm_passes \<Rightarrow> 'pb plugin_info" where
  "getKSpecEmSpecPassPluginInfo LP = \<lparr>PluginName = ''KSpecEmSpec'', RegisterPassBuilderCallbacks = (\<lambda>PB.
     let PB = registerOptimizerLastEPCallback LP (addPass KSpecEmSpecPass) PB;
         PB = registerPipelineParsingCallback LP (\<lambda>Name MPM.
           if Name = ''kspecem-spec'' then (True, addPass KSpecEmSpecPass MPM) else (False, MPM)) PB
     in PB)\<rparr>"

section \<open>The legacy pass manager\<close>

text \<open>What \<open>RegisterPass\<close> puts into the registry, and what \<open>RegisterStandardPasses\<close> adds at the
  extension points.\<close>

record pass_info =
  PassArg :: string
  PassName :: string
  CFGOnly :: bool
  is_analysis :: bool
  LegacyPass :: module_pass

definition LegacyCountInstrsPass_X :: pass_info where
  "LegacyCountInstrsPass_X = \<lparr>PassArg = ''legacy-count-instrs'', PassName = ''CountInstrs Pass'', CFGOnly = False, is_analysis = False,
     LegacyPass = CountInstrsPass\<rparr>"

definition RegisterCountInstrsPasses :: "extension list" where
  "RegisterCountInstrsPasses = [(EP_OptimizerLast, addPass CountInstrsPass),
     (EP_FullLinkTimeOptimizationLast, addPass CountInstrsPass)]"

definition LegacyKSpecEmPfCheckerPass_X :: pass_info where
  "LegacyKSpecEmPfCheckerPass_X = \<lparr>PassArg = ''legacy-kspecem-pf-checker'', PassName = ''KSpecEm Pf Checker Pass'', CFGOnly = False, is_analysis = False,
     LegacyPass = KSpecEmPfCheckerPass\<rparr>"

definition RegisterKSpecEmPfCheckerPasses :: "extension list" where
  "RegisterKSpecEmPfCheckerPasses = [(EP_OptimizerLast, addPass KSpecEmPfCheckerPass),
     (EP_FullLinkTimeOptimizationLast, addPass KSpecEmPfCheckerPass)]"

definition LegacyKSpecEmPass_X :: pass_info where
  "LegacyKSpecEmPass_X = \<lparr>PassArg = ''legacy-kspecem'', PassName = ''KSpecEm Pass'', CFGOnly = False, is_analysis = False,
     LegacyPass = KSpecEmPass\<rparr>"

definition RegisterKSpecEmPasses :: "extension list" where
  "RegisterKSpecEmPasses = [(EP_OptimizerLast, addPass KSpecEmPass),
     (EP_FullLinkTimeOptimizationLast, addPass KSpecEmPass)]"

definition LegacyKSpecEmCheckSpecLengthPass_X :: pass_info where
  "LegacyKSpecEmCheckSpecLengthPass_X = \<lparr>PassArg = ''legacy-kspecem-check-spec-length'', PassName = ''KSpecEm Check Spec Length Pass'', CFGOnly = False, is_analysis = False,
     LegacyPass = KSpecEmCheckSpecLengthPass\<rparr>"

definition RegisterKSpecEmCheckSpecLengthPasses :: "extension list" where
  "RegisterKSpecEmCheckSpecLengthPasses = [(EP_OptimizerLast, addPass KSpecEmCheckSpecLengthPass),
     (EP_FullLinkTimeOptimizationLast, addPass KSpecEmCheckSpecLengthPass)]"

definition LegacyKSpecEmSpecPass_X :: pass_info where
  "LegacyKSpecEmSpecPass_X = \<lparr>PassArg = ''legacy-kspecem-spec'', PassName = ''KSpecEm Spec Pass'', CFGOnly = False, is_analysis = False,
     LegacyPass = KSpecEmSpecPass\<rparr>"

definition RegisterKSpecEmSpecPasses :: "extension list" where
  "RegisterKSpecEmSpecPasses = [(EP_OptimizerLast, addPass KSpecEmSpecPass),
     (EP_FullLinkTimeOptimizationLast, addPass KSpecEmSpecPass)]"

fun runOnModule :: "pass_options \<Rightarrow> module_pass \<Rightarrow> ir_module \<Rightarrow> legacy_result" where
  "runOnModule opts CountInstrsPass M = LegacyCountInstrsPass_runOnModule opts M"
| "runOnModule opts KSpecEmPfCheckerPass M = LegacyKSpecEmPfCheckerPass_runOnModule opts M"
| "runOnModule opts KSpecEmPass M = LegacyKSpecEmPass_runOnModule opts M"
| "runOnModule opts KSpecEmCheckSpecLengthPass M = LegacyKSpecEmCheckSpecLengthPass_runOnModule opts M"
| "runOnModule opts KSpecEmSpecPass M = LegacyKSpecEmSpecPass_runOnModule opts M"

section \<open>What the plugins register\<close>

text \<open>The five plugins and their names in pipelines.\<close>

fun plugin :: "'pb llvm_passes \<Rightarrow> module_pass \<Rightarrow> 'pb plugin_info" where
  "plugin LP CountInstrsPass = getCountInstrsPassPluginInfo LP"
| "plugin LP KSpecEmPfCheckerPass = getKSpecEmPfCheckerPassPluginInfo LP"
| "plugin LP KSpecEmPass = getKSpecEmPassPluginInfo LP"
| "plugin LP KSpecEmCheckSpecLengthPass = getKSpecEmCheckSpecLengthPassPluginInfo LP"
| "plugin LP KSpecEmSpecPass = getKSpecEmSpecPassPluginInfo LP"

fun legacy_extensions :: "module_pass \<Rightarrow> extension list" where
  "legacy_extensions CountInstrsPass = RegisterCountInstrsPasses"
| "legacy_extensions KSpecEmPfCheckerPass = RegisterKSpecEmPfCheckerPasses"
| "legacy_extensions KSpecEmPass = RegisterKSpecEmPasses"
| "legacy_extensions KSpecEmCheckSpecLengthPass = RegisterKSpecEmCheckSpecLengthPasses"
| "legacy_extensions KSpecEmSpecPass = RegisterKSpecEmSpecPasses"

fun pipeline_name :: "module_pass \<Rightarrow> string" where
  "pipeline_name CountInstrsPass = ''count-instrs''"
| "pipeline_name KSpecEmPfCheckerPass = ''kspecem-pf-checker''"
| "pipeline_name KSpecEmPass = ''kspecem''"
| "pipeline_name KSpecEmCheckSpecLengthPass = ''kspecem-check-spec-length''"
| "pipeline_name KSpecEmSpecPass = ''kspecem-spec''"

lemmas plugin_infos = getCountInstrsPassPluginInfo_def getKSpecEmPfCheckerPassPluginInfo_def getKSpecEmPassPluginInfo_def
  getKSpecEmCheckSpecLengthPassPluginInfo_def getKSpecEmSpecPassPluginInfo_def

lemmas legacy_registrations = RegisterCountInstrsPasses_def RegisterKSpecEmPfCheckerPasses_def RegisterKSpecEmPasses_def
  RegisterKSpecEmCheckSpecLengthPasses_def RegisterKSpecEmSpecPasses_def

lemma pipeline_name_inj [simp]: "pipeline_name p = pipeline_name q \<longleftrightarrow> p = q"
  by (cases p; cases q) simp_all

text \<open>Loading plugins one after the other, and parsing the names of a pipeline from left to right.\<close>

definition load_plugins :: "'pb llvm_passes \<Rightarrow> module_pass list \<Rightarrow> 'pb" where
  "load_plugins LP Qs = fold (\<lambda>q. RegisterPassBuilderCallbacks (plugin LP q)) Qs (newPassBuilder LP)"

primrec parsePassPipeline :: "'pb llvm_passes \<Rightarrow> 'pb \<Rightarrow> string list \<Rightarrow> module_pass list \<Rightarrow> module_pass list option" where
  "parsePassPipeline LP PB [] MPM = Some MPM"
| "parsePassPipeline LP PB (n # ns) MPM = do { MPM \<leftarrow> parseModulePass LP PB n MPM; parsePassPipeline LP PB ns MPM }"

text \<open>
  The callbacks at the end of the optimiser run in the order they were registered. The callbacks for a name are tried in that order
  until one takes it; a name no callback takes is an error. An extension
  of the legacy pass manager is called at its extension point.
\<close>

definition llvm_passes_ok :: "'pb llvm_passes \<Rightarrow> bool" where
  "llvm_passes_ok LP \<longleftrightarrow>
     buildDefaultPipeline LP (newPassBuilder LP) = []
   \<and> (\<forall>C PB. buildDefaultPipeline LP (registerOptimizerLastEPCallback LP C PB) = C (buildDefaultPipeline LP PB))
   \<and> (\<forall>C PB. buildDefaultPipeline LP (registerPipelineParsingCallback LP C PB) = buildDefaultPipeline LP PB)
   \<and> (\<forall>n MPM. parseModulePass LP (newPassBuilder LP) n MPM = None)
   \<and> (\<forall>C PB. parseModulePass LP (registerOptimizerLastEPCallback LP C PB) = parseModulePass LP PB)
   \<and> (\<forall>C PB n MPM. parseModulePass LP (registerPipelineParsingCallback LP C PB) n MPM =
        (case parseModulePass LP PB n MPM of Some MPM' \<Rightarrow> Some MPM' | None \<Rightarrow> if fst (C n MPM) then Some (snd (C n MPM)) else None))
   \<and> (\<forall>ep PM. addExtensionsToPM LP ep [] PM = PM)
   \<and> (\<forall>ep e C xs PM. addExtensionsToPM LP ep ((e, C) # xs) PM = addExtensionsToPM LP ep xs (if e = ep then C PM else PM))"

lemma plugin_registers:
  "RegisterPassBuilderCallbacks (plugin LP p) PB =
     registerPipelineParsingCallback LP (\<lambda>Name MPM. if Name = pipeline_name p then (True, addPass p MPM) else (False, MPM))
       (registerOptimizerLastEPCallback LP (addPass p) PB)"
  by (cases p) (simp_all add: plugin_infos Let_def cong: if_cong)

lemma load_plugins_default:
  assumes "llvm_passes_ok LP"
  shows "buildDefaultPipeline LP (load_plugins LP Qs) = Qs"
proof -
  have "buildDefaultPipeline LP (fold (\<lambda>q. RegisterPassBuilderCallbacks (plugin LP q)) Qs PB) = buildDefaultPipeline LP PB @ Qs" for PB
    using assms by (induction Qs arbitrary: PB) (simp_all add: plugin_registers llvm_passes_ok_def addPass_def)
  with assms show ?thesis by (simp add: load_plugins_def llvm_passes_ok_def)
qed

lemma load_plugins_parse:
  assumes "llvm_passes_ok LP"
  shows "parseModulePass LP (load_plugins LP Qs) n MPM = Some MPM' \<longleftrightarrow> (\<exists>p \<in> set Qs. n = pipeline_name p \<and> MPM' = MPM @ [p])"
proof (induction Qs arbitrary: MPM' rule: rev_induct)
  case Nil
  show ?case using assms by (simp add: load_plugins_def llvm_passes_ok_def)
next
  case (snoc q Qs)
  have "parseModulePass LP (load_plugins LP (Qs @ [q])) n MPM =
      (case parseModulePass LP (load_plugins LP Qs) n MPM of Some MPM' \<Rightarrow> Some MPM' | None \<Rightarrow> if n = pipeline_name q then Some (MPM @ [q]) else None)" for n
    using assms by (simp add: load_plugins_def plugin_registers llvm_passes_ok_def addPass_def split: option.split)
  note this [simp]
  show ?case
  proof (cases "parseModulePass LP (load_plugins LP Qs) n MPM")
    case None
    with snoc.IH show ?thesis by auto
  next
    case (Some a)
    with snoc.IH [of a] obtain p where "p \<in> set Qs" "n = pipeline_name p" "a = MPM @ [p]" by auto
    with Some show ?thesis by auto
  qed
qed

lemma parsePassPipeline_eq:
  assumes "llvm_passes_ok LP"
  shows "parsePassPipeline LP (load_plugins LP Qs) ns MPM = Some MPM' \<longleftrightarrow>
    (\<exists>ps. MPM' = MPM @ ps \<and> ns = map pipeline_name ps \<and> set ps \<subseteq> set Qs)"
proof (induction ns arbitrary: MPM)
  case (Cons n ns)
  have "parsePassPipeline LP (load_plugins LP Qs) (n # ns) MPM = Some MPM' \<longleftrightarrow>
      (\<exists>p \<in> set Qs. n = pipeline_name p \<and> (\<exists>ps. MPM' = (MPM @ [p]) @ ps \<and> ns = map pipeline_name ps \<and> set ps \<subseteq> set Qs))"
    by (auto simp: bind_eq_Some_conv load_plugins_parse [OF assms] Cons.IH)
  also have "\<dots> \<longleftrightarrow> (\<exists>ps. MPM' = MPM @ ps \<and> n # ns = map pipeline_name ps \<and> set ps \<subseteq> set Qs)"
    by (auto simp: Cons_eq_map_conv)
  finally show ?case .
qed auto

lemma legacy_extensions_add:
  assumes "llvm_passes_ok LP"
  shows "addExtensionsToPM LP ep (concat (map legacy_extensions Qs)) PM = PM @ Qs"
proof (induction Qs arbitrary: PM)
  case (Cons q Qs)
  have "addExtensionsToPM LP ep (legacy_extensions q @ xs) PM = addExtensionsToPM LP ep xs (PM @ [q])" for xs
    using assms by (cases q; cases ep) (simp_all add: llvm_passes_ok_def legacy_registrations addPass_def)
  with Cons show ?case by simp
qed (use assms in \<open>simp add: llvm_passes_ok_def\<close>)


text \<open>A builder that keeps the callbacks in two lists.\<close>

definition list_passes :: "(pass_callback list \<times> parsing_callback list) llvm_passes" where
  "list_passes = \<lparr>newPassBuilder = ([], []), registerOptimizerLastEPCallback = (\<lambda>C (xs, ys). (xs @ [C], ys)),
     registerPipelineParsingCallback = (\<lambda>C (xs, ys). (xs, ys @ [C])),
     buildDefaultPipeline = (\<lambda>(xs, ys). fold (\<lambda>C PM. C PM) xs []),
     parseModulePass = (\<lambda>(xs, ys) n MPM. map_option (\<lambda>C. snd (C n MPM)) (List.find (\<lambda>C. fst (C n MPM)) ys)),
     addExtensionsToPM = (\<lambda>ep xs PM. fold (\<lambda>(e, C) PM. if e = ep then C PM else PM) xs PM)\<rparr>"

lemma list_passes_ok: "llvm_passes_ok list_passes"
proof -
  have find: "List.find Q (ys @ [C]) = (case List.find Q ys of None \<Rightarrow> if Q C then Some C else None | Some D \<Rightarrow> Some D)" for Q ys and C :: parsing_callback
    by (induction ys) simp_all
  show ?thesis
    by (simp add: llvm_passes_ok_def list_passes_def find fun_eq_iff split: option.split)
qed


section \<open>What the entry points report\<close>

lemma run_pass_legacy: "run_pass opts p M = map_option (\<lambda>(Changed, M', out). (if Changed then PA_none else PA_all, M', out)) (runOnModule opts p M)"
  by (cases p) (simp_all add: CountInstrsPass_run_def LegacyCountInstrsPass_runOnModule_def KSpecEmPfCheckerPass_run_def
      LegacyKSpecEmPfCheckerPass_runOnModule_def KSpecEmPass_run_def LegacyKSpecEmPass_runOnModule_def KSpecEmCheckSpecLengthPass_run_def
      LegacyKSpecEmCheckSpecLengthPass_runOnModule_def KSpecEmSpecPass_run_def LegacyKSpecEmSpecPass_runOnModule_def
      Option.bind_map_option comp_def split_beta map_conv_bind_option)

lemma runOnModule_unchanged: "runOnModule opts p M = Some (False, M', out) \<Longrightarrow> M' = M \<and> out = []"
  by (cases p) (auto simp: LegacyCountInstrsPass_runOnModule_def CountInstrs_runImpl_def LegacyKSpecEmPfCheckerPass_runOnModule_def
      PfChecker_runImpl_def LegacyKSpecEmPass_runOnModule_def KSpecEm_runImpl_def LegacyKSpecEmCheckSpecLengthPass_runOnModule_def
      CheckSpecLength_runImpl_def LegacyKSpecEmSpecPass_runOnModule_def KSpecEmSpec_runImpl_def
      split: if_splits prod.splits bind_splits)



end
