(* ===== verification/KPipeline.thy ===== *)
theory KPipeline
  imports KScoping KPassManager
begin

text \<open>
  Several passes, one after the other. What a pass inserts is accepted by the next one, so that the results on single passes
  carry over to whole pipelines on whole modules, whatever the order of the passes:
  the single assignment form is kept, outside a speculation the functions run as before, and before
  the runtime is initialised they do so even with the checkpoints inserted.
\<close>

section \<open>What builders emit\<close>

definition emits :: "(ir_inst \<Rightarrow> bool) \<Rightarrow> 'a irb \<Rightarrow> bool" where
  "emits Q m \<longleftrightarrow> builder m \<and> (\<forall>n. list_all Q (emitted m n))"

named_theorems emitting \<open>what builders emit\<close>

lemma emits_return [emitting]: "emits Q (State_Monad.return x)"
  by (simp add: emits_def)

lemma emits_bind [emitting]: "emits Q m \<Longrightarrow> (\<And>x. emits Q (f x)) \<Longrightarrow> emits Q (State_Monad.bind m f)"
  by (simp add: emits_def)

lemma emits_insert [emitting]:
  "(\<And>n. Q \<lparr>inst_id = n, inst_ty = t, inst_op = op, is_asan_instr = False\<rparr>) \<Longrightarrow> emits Q (insert_inst t op)"
  by (simp add: emits_def)

lemma emits_CreateCall:
  "(\<And>n t. Q \<lparr>inst_id = n, inst_ty = t, inst_op = CallInst CC_C f xs, is_asan_instr = False\<rparr>) \<Longrightarrow> emits Q (CreateCall f xs)"
  by (simp add: emits_def)

lemma emits_casts:
  assumes "\<And>n t v. \<not> is_constant v \<Longrightarrow> Q \<lparr>inst_id = n, inst_ty = t, inst_op = BitCastInst v, is_asan_instr = False\<rparr>"
    and "\<And>n t v. Q \<lparr>inst_id = n, inst_ty = t, inst_op = TruncInst v, is_asan_instr = False\<rparr>"
    and "\<And>n t v. Q \<lparr>inst_id = n, inst_ty = t, inst_op = ZExtInst v, is_asan_instr = False\<rparr>"
  shows "emits Q (CreateBitCast v t)" and "emits Q (CreatePointerCast v t)" and "emits Q (CreateTrunc v b)"
    and "emits Q (CreateZExt v b)" and "emits Q (CreateZExtOrTrunc v b)"
proof -
  show "emits Q (CreateBitCast v t)" "emits Q (CreatePointerCast v t)"
    using assms(1) by (auto simp: CreatePointerCast_def CreateBitCast_def intro!: emitting)
  show tz: "emits Q (CreateTrunc v b)" "emits Q (CreateZExt v b)"
    by (cases v; auto simp: CreateTrunc_def CreateZExt_def intro!: emits_return emits_insert assms(2,3))+
  then show "emits Q (CreateZExtOrTrunc v b)" by (simp add: CreateZExtOrTrunc_def emits_return)
qed

definition all_insts :: "(ir_inst \<Rightarrow> bool) \<Rightarrow> ir_function \<Rightarrow> bool" where
  "all_insts Q F \<longleftrightarrow> list_all (\<lambda>b. list_all Q (bb_insts b)) (fun_blocks F)"

lemma visited_all:
  assumes "\<And>i. Q i \<Longrightarrow> emits Q (visit_inst V i)" and "\<And>i n. Q i \<Longrightarrow> Q (built (visit_inst V i) n)"
  shows "list_all Q is \<Longrightarrow> list_all Q (visited (visit_inst V) is n)"
  using assms by (induction "is" arbitrary: n) (simp_all add: emits_def)

lemma visit_function_all:
  assumes "\<And>i. builder (visit_inst V i)" and "\<And>i. Q i \<Longrightarrow> emits Q (visit_inst V i)" and "\<And>i n. Q i \<Longrightarrow> Q (built (visit_inst V i) n)"
    and "\<And>b. emits Q (visit_term V b)" and "all_insts Q F"
  shows "all_insts Q (visit_function V F)"
  unfolding all_insts_def list_all_iff [of _ "fun_blocks (visit_function V F)"]
proof
  fix b' assume "b' \<in> set (fun_blocks (visit_function V F))"
  then have "b' \<in> set (fst (visit_blocks V (fun_blocks F) (fun_next F)))" by (simp add: visit_function_def split_beta)
  moreover have t: "builder (visit_term V b)" for b using assms(4) by (simp add: emits_def)
  ultimately obtain b m where b: "b \<in> set (fun_blocks F)" "b' = fst (visit_block V b m)"
    using visit_blocks_in [OF assms(1) t] by blast
  have "list_all Q (bb_insts b)" using assms(5) b(1) by (simp add: all_insts_def list_all_iff)
  from visited_all [OF assms(2,3) this] assms(4) show "list_all Q (bb_insts b')"
    by (simp add: b(2) visit_block_eq [OF assms(1) t] Let_def emits_def)
qed

lemma front_all:
  assumes "all_insts Q F" and "fun_blocks F = bb # rest" and "emits Q m" and "insert_at_front m bb n = (bb', n')"
  shows "all_insts Q (F\<lparr>fun_blocks := bb' # rest, fun_next := k\<rparr>)"
  using assms by (auto simp: all_insts_def emits_def insert_at_front_def builder_run)

lemma exception_all:
  assumes "all_insts Q F" and "fun_blocks F = bb # rest"
    and "emits Q (do { inSpec \<leftarrow> insertExceptionInterruptHook L F arg; insert_inst (IntTy 1) (ICmpInst ICMP_EQ inSpec (ConstInt 32 0)) })"
  shows "all_insts Q (exception_entry L F bb rest arg)"
proof -
  let ?m = "do { inSpec \<leftarrow> insertExceptionInterruptHook L F arg; insert_inst (IntTy 1) (ICmpInst ICMP_EQ inSpec (ConstInt 32 0)) }"
  have b: "builder ?m" and e: "list_all Q (emitted ?m n)" for n using assms(3) unfolding emits_def by blast+
  have r: "run_state ?m (fun_next F, []) = (built ?m (fun_next F), (next_id ?m (fun_next F), emitted ?m (fun_next F)))"
    by (simp only: builder_run [OF b] append_Nil)
  show ?thesis
    using assms(1) e [of "fun_next F"] unfolding all_insts_def exception_entry_def r Let_def prod.case assms(2)
    by (auto simp: list_all_iff simp del: builder_bind_eqs)
qed

section \<open>What the passes insert\<close>

definition quiet_hook_names :: "string set" where
  "quiet_hook_names = {''kspecem_hook_store'', ''kspecem_hook_memcpy'', ''kspecem_hook_restart'', ''kspecem_hook_interrupt_timer'',
     ''kspecem_hook_interrupt_exception'', ''kspecem_hook_check_call_depth'', ''kspecem_hook_check_spec_length'', ''kspecem_hook_access''}"

definition checkpoint_hook_names :: "string set" where
  "checkpoint_hook_names = {''kspecem_hook_new_checkpoint'', ''kspecem_hook_save_stack'', ''kspecem_asm_save_registers'', ''kspecem_hook_leave_rt''}"

text \<open>The instructions of instrumented code: of the runtime they call nothing but \<open>fs\<close>, and the only access to a variable of the
  runtime that they have is the one of the inserted branch code, which is not checked.\<close>

definition instrumented_inst :: "string set \<Rightarrow> ir_inst \<Rightarrow> bool" where
  "instrumented_inst fs i = (case inst_op i of
       CallInst cc f xs \<Rightarrow> (case callee_name f of Some n \<Rightarrow> startswith n ''kspecem_'' \<longrightarrow> n \<in> fs | None \<Rightarrow> True)
     | StoreInst v p \<Rightarrow> runtime_global p \<longrightarrow> v = ConstInt 32 0 \<and> \<not> is_asan_instr i
     | LoadInst p \<Rightarrow> runtime_global p \<longrightarrow> \<not> is_asan_instr i
     | _ \<Rightarrow> True)"

lemma program_inst_instrumented: "program_inst i \<Longrightarrow> instrumented_inst fs i"
  by (auto simp: program_inst_def instrumented_inst_def no_hook_call_def split: ir_op.splits option.splits)

lemma instrumented_inst_mono: "instrumented_inst fs i \<Longrightarrow> fs \<subseteq> gs \<Longrightarrow> instrumented_inst gs i"
  by (auto simp: instrumented_inst_def split: ir_op.splits option.splits)

lemma instrumented_checked: "instrumented_inst fs i \<Longrightarrow> checked_ok i"
  by (auto simp: instrumented_inst_def checked_ok_def split: ir_op.splits)

lemma emits_instrumented_casts:
  "emits (instrumented_inst fs) (CreateBitCast v t)" "emits (instrumented_inst fs) (CreatePointerCast v t)"
  "emits (instrumented_inst fs) (CreateTrunc v b)" "emits (instrumented_inst fs) (CreateZExt v b)"
  "emits (instrumented_inst fs) (CreateZExtOrTrunc v b)"
  by (rule emits_casts; simp add: instrumented_inst_def)+

lemma emits_instrumented_call:
  "callee_name f = Some g \<Longrightarrow> (startswith g ''kspecem_'' \<longrightarrow> g \<in> fs) \<Longrightarrow> emits (instrumented_inst fs) (CreateCall f xs)"
  by (rule emits_CreateCall) (simp add: instrumented_inst_def)

lemma kspecem_emits:
  assumes "kspecem_hooks L" and "quiet_hook_names \<subseteq> fs"
  shows "emits (instrumented_inst fs) (insertRestartHook L ty v)" and "emits (instrumented_inst fs) (insertTimerInterruptHook L x)"
    and "emits (instrumented_inst fs) (insertExceptionInterruptHook L F x)" and "emits (instrumented_inst fs) (visitCallInst L M F x)"
    and "emits (instrumented_inst fs) (visitReturnInst L M F)" and "emits (instrumented_inst fs) (visitStoreInst L F x)"
    and "emits (instrumented_inst fs) (visitMemIntrinsic L F x y)"
proof -
  note h = assms(1) [unfolded kspecem_hooks_def] and fs = subsetD [OF assms(2)]
  have q: "f \<in> fs" if "f \<in> {''kspecem_hook_store'', ''kspecem_hook_memcpy'', ''kspecem_hook_restart'', ''kspecem_hook_interrupt_timer'',
     ''kspecem_hook_interrupt_exception''}" for f
    using that by (intro fs) (auto simp: quiet_hook_names_def)
  note e = emitting emits_instrumented_casts emits_instrumented_call
  show r: "emits (instrumented_inst fs) (insertRestartHook L ty v)" for ty v
    unfolding insertRestartHook_def by (cases v) (auto simp: h q intro!: e)
  show "emits (instrumented_inst fs) (insertTimerInterruptHook L x)" "emits (instrumented_inst fs) (insertExceptionInterruptHook L F x)"
    unfolding insertTimerInterruptHook_def insertExceptionInterruptHook_def by (auto simp: h q intro!: e)
  show "emits (instrumented_inst fs) (visitCallInst L M F x)" "emits (instrumented_inst fs) (visitReturnInst L M F)"
    unfolding visitCallInst_def visitReturnInst_def by (auto simp: split_beta intro!: e r)
  show "emits (instrumented_inst fs) (visitStoreInst L F x)" "emits (instrumented_inst fs) (visitMemIntrinsic L F x y)"
    unfolding visitStoreInst_def visitMemIntrinsic_def by (auto simp: h q instrumented_inst_def intro!: e)
qed

lemma KSpecEm_visitor_instrumented:
  assumes "kspecem_hooks L" and "quiet_hook_names \<subseteq> fs" and "all_insts (instrumented_inst fs) F" and "KSpecEm_visitor L M F = Some F'"
  shows "all_insts (instrumented_inst fs) F'"
proof -
  note e = kspecem_emits [OF assms(1,2)]
  have v: "all_insts (instrumented_inst fs) (visit_function (KSpecEmPassVisitor L M F) F)"
  proof (rule visit_function_all [OF builder_KSpecEmPassVisitor(1) _ _ _ assms(3)])
    show "emits (instrumented_inst fs) (visit_inst (KSpecEmPassVisitor L M F) i)" for i
      unfolding KSpecEmPassVisitor_def by (cases "inst_op i") (auto intro!: e emitting)
    show "instrumented_inst fs (built (visit_inst (KSpecEmPassVisitor L M F) i) n)" if "instrumented_inst fs i" for i n
      using that by (cases "inst_op i") (simp_all add: KSpecEmPassVisitor_def)
    show "emits (instrumented_inst fs) (visit_term (KSpecEmPassVisitor L M F) b)" for b
      unfolding KSpecEmPassVisitor_def by (cases "bb_term b") (auto intro!: e emitting)
  qed
  have x: "emits (instrumented_inst fs) (do { inSpec \<leftarrow> insertExceptionInterruptHook L F arg;
      insert_inst (IntTy 1) (ICmpInst ICMP_EQ inSpec (ConstInt 32 0)) })" for arg
    by (intro e emitting) (simp add: instrumented_inst_def)
  show ?thesis
    using assms(3,4) v
    by (auto simp: KSpecEm_visitor_def split: if_splits list.splits prod.splits
        intro: front_all [OF _ _ e(1)] front_all [OF _ _ e(2)] exception_all [OF _ _ x])
qed

lemma PfChecker_visitor_instrumented:
  assumes "access_hook K" and "quiet_hook_names \<subseteq> fs" and "all_insts (instrumented_inst fs) F"
  shows "all_insts (instrumented_inst fs) (PfChecker_visitor K F)"
  unfolding PfChecker_visitor_def
proof (rule visit_function_all [OF builder_PfChecker(1) _ _ _ assms(3)])
  have a: "''kspecem_hook_access'' \<in> fs" using assms(2) by (auto simp: quiet_hook_names_def)
  have call: "emits (instrumented_inst fs) (CreateCall (AccessHookFn K) xs)" for xs
    using assms(1) a by (intro emits_instrumented_call) (auto simp: access_hook_def)
  show "emits (instrumented_inst fs) (visit_inst (PfCheckerPassVisitor K) i)" for i
    unfolding PfCheckerPassVisitor_def PfChecker_visitLoadInst_def PfChecker_visitStoreInst_def PfChecker_visitMemIntrinsic_def
    by (cases "inst_op i") (auto intro!: call emitting emits_instrumented_casts)
  have inst: "\<not> runtime_global (built (checked_pointer K p sz) n)" for p sz n
    by (simp add: checked_pointer_def runtime_global_def CreateBitCast_def)
  show "instrumented_inst fs (built (visit_inst (PfCheckerPassVisitor K) i) n)" if "instrumented_inst fs i" for i n
  proof (cases "is_asan_instr i")
    case True
    with that show ?thesis
      by (cases "inst_op i") (simp_all add: PfCheckerPassVisitor_def PfChecker_visits_eq instrumented_inst_def inst,
        simp add: PfChecker_visitMemIntrinsic_def)
  next
    case False
    with that show ?thesis
      by (cases "inst_op i") (simp_all add: PfCheckerPassVisitor_def PfChecker_visitLoadInst_def PfChecker_visitStoreInst_def
          PfChecker_visitMemIntrinsic_def)
  qed
  show "emits (instrumented_inst fs) (visit_term (PfCheckerPassVisitor K) b)" for b
    by (simp add: PfCheckerPassVisitor_def emits_return)
qed

lemma CheckSpecLength_visitor_instrumented:
  assumes "length_hook h" and "quiet_hook_names \<subseteq> fs" and "all_insts (instrumented_inst fs) F"
  shows "all_insts (instrumented_inst fs) (CheckSpecLength_visitor h F)"
proof -
  have a: "''kspecem_hook_check_spec_length'' \<in> fs" using assms(2) by (auto simp: quiet_hook_names_def)
  have "all_insts (instrumented_inst fs) (visit_function (CheckSpecLengthVisitor h) F)"
    using a assms(1)
    by (intro visit_function_all [OF _ _ _ _ assms(3)])
      (auto simp: CheckSpecLengthVisitor_def length_hook_def intro!: emitting emits_instrumented_call)
  with assms(3) show ?thesis by (simp add: CheckSpecLength_visitor_def)
qed

lemma emitBranch_emits:
  assumes "spec_hooks LS" and "checkpoint_hook_names \<subseteq> fs"
  shows "emits (instrumented_inst fs) (emitBranch LS F c)"
proof -
  have q: "f \<in> fs" if "f \<in> checkpoint_hook_names" for f using assms(2) that by blast
  note h = assms(1) [unfolded spec_hooks_def]
  have "emits (instrumented_inst fs) (emitNewCheckpointHook LS)"
    unfolding emitNewCheckpointHook_def
    by (auto simp: h q checkpoint_hook_names_def instrumented_inst_def intro!: emitting emits_instrumented_call)
  moreover have "emits (instrumented_inst fs) (invertedCondition F c)"
    by (auto simp: invertedCondition_def instrumented_inst_def intro!: emitting split: option.split ir_op.split)
  ultimately show ?thesis
    unfolding emitBranch_def by (intro emitting) (simp_all add: instrumented_inst_def)
qed

lemma KSpecEmSpec_visitor_instrumented:
  assumes "spec_hooks LS" and "quiet_hook_names \<union> checkpoint_hook_names \<subseteq> fs" and "all_insts (instrumented_inst fs) F"
  shows "all_insts (instrumented_inst fs) (KSpecEmSpec_visitor LS M F)"
proof -
  have a: "''kspecem_hook_check_call_depth'' \<in> fs" using assms(2) by (auto simp: quiet_hook_names_def)
  have "emits (instrumented_inst fs) (emitCallDepthHook LS F)"
    using assms(1) a unfolding emitCallDepthHook_def
    by (auto simp: spec_hooks_def intro!: emitting emits_instrumented_casts emits_instrumented_call)
  then have d: "all_insts (instrumented_inst fs) (insert_call_depth LS F)"
    using assms(3) by (auto simp: insert_call_depth_def split: list.split prod.split intro: front_all)
  have "all_insts (instrumented_inst fs) (visit_function (KSpecEmSpecPassVisitor LS G) G)" if "all_insts (instrumented_inst fs) G" for G
  proof (rule visit_function_all [OF builder_KSpecEmSpecPassVisitor(1) _ _ _ that])
    show "emits (instrumented_inst fs) (visit_term (KSpecEmSpecPassVisitor LS G) b)" for b
      using emitBranch_emits [OF assms(1)] assms(2) by (cases "bb_term b") (auto simp: KSpecEmSpecPassVisitor_def intro!: emitting)
  qed (auto simp: KSpecEmSpecPassVisitor_def intro!: emitting)
  with d assms(3) show ?thesis by (simp add: KSpecEmSpec_visitor_def Let_def)
qed

section \<open>What a pass makes of a function of its module\<close>

definition same_code :: "ir_function \<Rightarrow> ir_function \<Rightarrow> bool" where
  "same_code F F' \<longleftrightarrow> (\<exists>cc. F' = F\<lparr>fun_cc := cc\<rparr>)"

text \<open>The types of the hooks. One that is in a module with another type makes the passes undefined.\<close>

definition hook_types :: "(string \<times> ir_type) list" where
  "hook_types = kspecem_hook_types @ [(''kspecem_hook_new_checkpoint'', FunTy (IntTy 64) []),
     (''kspecem_asm_save_registers'', FunTy VoidTy [i8ptr, IntTy 64]), (''kspecem_hook_save_stack'', FunTy VoidTy [IntTy 64, i8ptr]),
     (''kspecem_hook_leave_rt'', FunTy VoidTy [IntTy 64]), (''kspecem_hook_check_call_depth'', FunTy VoidTy [i8ptr, i8ptr]),
     (''kspecem_hook_check_spec_length'', FunTy VoidTy [IntTy 32])]"

definition hook_typed :: "ir_function \<Rightarrow> bool" where
  "hook_typed F \<longleftrightarrow> (\<forall>t. (fun_name F, t) \<in> set hook_types \<longrightarrow> fun_type F = t)"

text \<open>Declaring hooks adds functions without blocks and may change the calling convention of one that is there.\<close>

definition declared_hook :: "ir_function \<Rightarrow> bool" where
  "declared_hook F \<longleftrightarrow> fun_blocks F = [] \<and> hook_typed F \<and> startswith (fun_name F) ''kspecem_''"

definition declares :: "ir_module \<Rightarrow> ir_module \<Rightarrow> bool" where
  "declares M M' \<longleftrightarrow> mod_name M' = mod_name M \<and> (\<exists>Fs ds. mod_funs M' = Fs @ ds \<and> list_all2 same_code (mod_funs M) Fs
     \<and> list_all declared_hook ds)"

lemma same_code_refl [simp]: "same_code F F"
  unfolding same_code_def by (rule exI [of _ "fun_cc F"]) simp

lemma same_code_trans: "same_code F G \<Longrightarrow> same_code G H \<Longrightarrow> same_code F H"
  by (auto simp: same_code_def)

lemma same_code_blocks: "same_code F F' \<Longrightarrow> fun_blocks F' = fun_blocks F \<and> fun_name F' = fun_name F \<and> fun_next F' = fun_next F"
  by (auto simp: same_code_def)

lemma same_code_declared: "same_code F F' \<Longrightarrow> declared_hook F' = declared_hook F"
  by (auto simp: same_code_def declared_hook_def hook_typed_def)

lemma same_code_type: "same_code F F' \<Longrightarrow> fun_ret F' = fun_ret F \<and> fun_args F' = fun_args F"
  by (auto simp: same_code_def)

lemma declaresI:
  "mod_name M' = mod_name M \<Longrightarrow> mod_funs M' = Fs @ ds \<Longrightarrow> list_all2 same_code (mod_funs M) Fs \<Longrightarrow> list_all declared_hook ds \<Longrightarrow> declares M M'"
  by (auto simp: declares_def)

lemma declares_refl: "declares M M"
  by (rule declaresI [where Fs = "mod_funs M" and ds = "[]"]) (simp_all add: list_all2_same)

lemma declares_trans:
  assumes "declares M M1" and "declares M1 M2"
  shows "declares M M2"
proof -
  obtain Fs ds where 1: "mod_funs M1 = Fs @ ds" "list_all2 same_code (mod_funs M) Fs" "list_all declared_hook ds"
    using assms(1) by (auto simp: declares_def)
  obtain Gs es where 2: "mod_funs M2 = Gs @ es" "list_all2 same_code (Fs @ ds) Gs" "list_all declared_hook es"
    using assms(2) by (auto simp: declares_def 1(1))
  obtain Gs1 Gs2 where G: "Gs = Gs1 @ Gs2" "list_all2 same_code Fs Gs1" "list_all2 same_code ds Gs2"
    using 2(2) by (auto simp: list_all2_append1)
  have "list_all2 same_code (mod_funs M) Gs1" by (rule list_all2_trans [OF same_code_trans 1(2) G(2)])
  moreover have "list_all declared_hook Gs2"
    using G(3) 1(3) by (induction rule: list_all2_induct) (auto dest: same_code_declared)
  moreover have "mod_name M2 = mod_name M" using assms by (simp add: declares_def)
  ultimately show ?thesis using 2 G(1) by (intro declaresI [of M2 M Gs1 "Gs2 @ es"]) simp_all
qed

lemma declares_setCallingConv: "declares M (setCallingConv cc f M)"
proof (rule declaresI [where ds = "[]"])
  have "same_code F (if fun_name F = f then F\<lparr>fun_cc := cc\<rparr> else F)" for F by (auto simp: same_code_def [of F "F\<lparr>fun_cc := cc\<rparr>"])
  then show "list_all2 same_code (mod_funs M) (map (\<lambda>F. if fun_name F = f then F\<lparr>fun_cc := cc\<rparr> else F) (mod_funs M))"
    by (simp add: list_all2_map2 list_all2_same)
qed (simp_all add: setCallingConv_def)

text \<open>Declaring a hook with the type of the table.\<close>

definition hook_decl :: "string \<Rightarrow> ir_type \<Rightarrow> bool" where
  "hook_decl f t \<longleftrightarrow> startswith f ''kspecem_'' \<and> list_all (\<lambda>(g, u). g = f \<longrightarrow> u = t) hook_types"

lemma declares_getOrInsertFunction:
  assumes "hook_decl f (FunTy r ts)"
  shows "declares M (snd (getOrInsertFunction f r ts M))"
proof -
  let ?F = "\<lparr>fun_name = f, fun_ret = r, fun_args = ts, fun_cc = CC_C, fun_blocks = [], fun_next = 0\<rparr>"
  have "declared_hook ?F" using assms by (auto simp: declared_hook_def hook_typed_def hook_decl_def list_all_iff)
  then have "declares M (M\<lparr>mod_funs := mod_funs M @ [?F]\<rparr>)"
    by (intro declaresI [where Fs = "mod_funs M" and ds = "[?F]"]) (simp_all add: list_all2_same)
  then show ?thesis by (auto simp: getOrInsertFunction_def declares_refl split: option.split)
qed

lemma declares_declare_hook: "declare_hook f r ts M = Some (v, M') \<Longrightarrow> hook_decl f (FunTy r ts) \<Longrightarrow> declares M M'"
  using declares_getOrInsertFunction [of f r ts M] declares_trans [OF _ declares_setCallingConv]
  by (auto simp: declare_hook_def split: prod.splits ir_value.splits)

lemma hook_decls:
  "hook_decl ''kspecem_hook_store'' (FunTy VoidTy [i8ptr])" "hook_decl ''kspecem_hook_memcpy'' (FunTy VoidTy [i8ptr, IntTy 64])"
  "hook_decl ''kspecem_hook_restart'' (FunTy (IntTy 32) [i8ptr, IntTy 32, i8ptr])"
  "hook_decl ''kspecem_hook_interrupt_timer'' (FunTy VoidTy [i8ptr, i8ptr])"
  "hook_decl ''kspecem_hook_interrupt_exception'' (FunTy (IntTy 32) [i8ptr, i8ptr, IntTy 32])"
  "hook_decl ''kspecem_hook_new_checkpoint'' (FunTy (IntTy 64) [])" "hook_decl ''kspecem_asm_save_registers'' (FunTy VoidTy [i8ptr, IntTy 64])"
  "hook_decl ''kspecem_hook_save_stack'' (FunTy VoidTy [IntTy 64, i8ptr])" "hook_decl ''kspecem_hook_leave_rt'' (FunTy VoidTy [IntTy 64])"
  "hook_decl ''kspecem_hook_check_call_depth'' (FunTy VoidTy [i8ptr, i8ptr])" "hook_decl ''kspecem_hook_check_spec_length'' (FunTy VoidTy [IntTy 32])"
  "hook_decl ''kspecem_hook_access'' t"
  by (simp_all add: hook_decl_def hook_types_def kspecem_hook_types_def)

lemma init_declares:
  "KSpecEm_init l DL M = Some (L, M') \<Longrightarrow> declares M M'" "KSpecEmSpec_init l M = Some (LS, M') \<Longrightarrow> declares M M'"
  "CheckSpecLength_init M = Some (h, M') \<Longrightarrow> declares M M'" "PfChecker_init DL M = (K, M') \<Longrightarrow> declares M M'"
  using declares_getOrInsertFunction [OF hook_decls(12), of M i8ptr "[i8ptr, IntTy (pointer_size_in_bits DL)]"]
  by (auto simp: KSpecEm_init_def KSpecEmSpec_init_def CheckSpecLength_init_def PfChecker_init_def hook_decls
      dest!: declares_declare_hook split: bind_splits prod.splits) (meson declares_trans)+

text \<open>The function a pass makes of one of the functions of a module with name \<open>m\<close>.\<close>

fun makes :: "pass_options \<Rightarrow> string \<Rightarrow> module_pass \<Rightarrow> ir_function \<Rightarrow> ir_function \<Rightarrow> bool" where
  "makes opts m CountInstrsPass F F' \<longleftrightarrow> F' = F"
| "makes opts m KSpecEmPfCheckerPass F F' \<longleftrightarrow>
     (if contains m ''libkspecem.a'' then F' = F
      else \<exists>K G. access_hook K \<and> pf_layout K = module_layout opts \<and> same_code F G \<and> F' = PfChecker_visitor K G)"
| "makes opts m KSpecEmPass F F' \<longleftrightarrow>
     (if contains m ''libkspecem.a'' then F' = F
      else \<exists>L G. kspecem_hooks L \<and> kspecem_functions L = kspecem_list opts \<and> layout L = module_layout opts \<and> same_code F G
        \<and> KSpecEm_visitor L m G = Some F')"
| "makes opts m KSpecEmCheckSpecLengthPass F F' \<longleftrightarrow>
     (if contains m ''libkspecem.a'' \<or> (contains m ''kdfsan'' \<or> contains m ''kdfinit'') \<and> \<not> contains m ''test_kdfsan'' then F' = F
      else \<exists>h G. length_hook h \<and> same_code F G \<and> F' = CheckSpecLength_visitor h G)"
| "makes opts m KSpecEmSpecPass F F' \<longleftrightarrow>
     (if contains m ''libkspecem.a'' then F' = F
      else \<exists>LS G. spec_hooks LS \<and> spec_functions LS = kspecem_spec_list opts \<and> same_code F G \<and> F' = KSpecEmSpec_visitor LS m G)"

text \<open>Modules: every function comes from one, or from the declaration of a hook.\<close>

definition module_makes :: "pass_options \<Rightarrow> module_pass \<Rightarrow> ir_module \<Rightarrow> ir_module \<Rightarrow> bool" where
  "module_makes opts p M M' \<longleftrightarrow> mod_name M' = mod_name M \<and> (\<exists>ds. list_all declared_hook ds
     \<and> list_all2 (makes opts (mod_name M) p) (mod_funs M @ ds) (mod_funs M'))"

lemma visit_functions_all2: "visit_functions f Fs = Some Fs' \<Longrightarrow> list_all2 (\<lambda>F F'. f F = Some F') Fs Fs'"
  by (induction Fs arbitrary: Fs') (auto split: bind_splits)

lemma declared_makes:
  assumes "declares M M1" and "list_all2 (\<lambda>G F'. R G F') (mod_funs M1) Fs'"
    and "\<And>F G F'. same_code F G \<Longrightarrow> R G F' \<Longrightarrow> makes opts (mod_name M) p F F'"
  shows "module_makes opts p M (M1\<lparr>mod_funs := Fs'\<rparr>)"
proof -
  obtain Fs ds where 1: "mod_funs M1 = Fs @ ds" "list_all2 same_code (mod_funs M) Fs" "list_all declared_hook ds"
    using assms(1) by (auto simp: declares_def)
  have "list_all2 same_code (mod_funs M @ ds) (mod_funs M1)"
    unfolding 1(1) by (intro list_all2_appendI 1(2)) (simp add: list_all2_same)
  from list_all2_trans [OF assms(3) this assms(2)] 1(3) assms(1) show ?thesis
    by (auto simp: module_makes_def declares_def)
qed

lemma unchanged_makes: "(\<And>F. makes opts (mod_name M) p F F) \<Longrightarrow> module_makes opts p M M"
  by (auto simp: module_makes_def list_all2_same intro!: exI [of _ "[]"])

lemma PfChecker_run_makes:
  assumes "run_pass opts KSpecEmPfCheckerPass M = Some (pa, M', out)"
  shows "module_makes opts KSpecEmPfCheckerPass M M'"
proof (cases "contains (mod_name M) ''libkspecem.a''")
  case False
  obtain K M1 where i: "PfChecker_init (module_layout opts) M = (K, M1)" by fastforce
  then have K: "access_hook K" "pf_layout K = module_layout opts"
    using PfChecker_init_hook [of "module_layout opts" M] by (auto simp: PfChecker_init_def split: prod.splits)
  have M': "M' = M1\<lparr>mod_funs := map (PfChecker_visitor K) (mod_funs M1)\<rparr>"
    using assms False by (simp add: KSpecEmPfCheckerPass_run_def PfChecker_runImpl_def i)
  show ?thesis
    unfolding M' by (rule declared_makes [OF init_declares(4) [OF i], where R = "\<lambda>G F'. F' = PfChecker_visitor K G"])
      (use K False in \<open>auto simp: list_all2_map2 list_all2_same\<close>)
qed (use assms in \<open>simp add: KSpecEmPfCheckerPass_run_def PfChecker_runImpl_def unchanged_makes\<close>)

lemma KSpecEm_run_makes:
  assumes "run_pass opts KSpecEmPass M = Some (pa, M', out)"
  shows "module_makes opts KSpecEmPass M M'"
proof (cases "contains (mod_name M) ''libkspecem.a''")
  case False
  then obtain L M1 Fs where i: "KSpecEm_init (kspecem_list opts) (module_layout opts) M = Some (L, M1)"
    and v: "visit_functions (KSpecEm_visitor L (mod_name M1)) (mod_funs M1) = Some Fs" and M': "M' = M1\<lparr>mod_funs := Fs\<rparr>"
    using assms by (auto simp: KSpecEmPass_run_def KSpecEm_runImpl_def split: bind_splits)
  have m: "mod_name M1 = mod_name M" using init_declares(1) [OF i] by (simp add: declares_def)
  show ?thesis
    unfolding M' by (rule declared_makes [OF init_declares(1) [OF i] visit_functions_all2 [OF v]])
      (use KSpecEm_init_hooks [OF i] m False in auto)
qed (use assms in \<open>simp add: KSpecEmPass_run_def KSpecEm_runImpl_def unchanged_makes\<close>)

lemma CheckSpecLength_run_makes:
  assumes "run_pass opts KSpecEmCheckSpecLengthPass M = Some (pa, M', out)"
  shows "module_makes opts KSpecEmCheckSpecLengthPass M M'"
proof (cases "contains (mod_name M) ''libkspecem.a'' \<or> (contains (mod_name M) ''kdfsan'' \<or> contains (mod_name M) ''kdfinit'')
    \<and> \<not> contains (mod_name M) ''test_kdfsan''")
  case False
  then obtain h M1 where i: "CheckSpecLength_init M = Some (h, M1)"
    and M': "M' = M1\<lparr>mod_funs := map (CheckSpecLength_visitor h) (mod_funs M1)\<rparr>"
    using assms by (auto simp: KSpecEmCheckSpecLengthPass_run_def CheckSpecLength_runImpl_def split: bind_splits if_splits)
  show ?thesis
    unfolding M' by (rule declared_makes [OF init_declares(3) [OF i], where R = "\<lambda>G F'. F' = CheckSpecLength_visitor h G"])
      (use CheckSpecLength_init_hook [OF i] False in \<open>auto simp: list_all2_map2 list_all2_same\<close>)
next
  case True
  then have "M' = M"
    using assms by (auto simp: KSpecEmCheckSpecLengthPass_run_def CheckSpecLength_runImpl_def split: if_splits)
  then show ?thesis using True by (auto intro!: unchanged_makes)
qed

lemma KSpecEmSpec_run_makes:
  assumes "run_pass opts KSpecEmSpecPass M = Some (pa, M', out)"
  shows "module_makes opts KSpecEmSpecPass M M'"
proof (cases "contains (mod_name M) ''libkspecem.a''")
  case False
  then obtain LS M1 where i: "KSpecEmSpec_init (kspecem_spec_list opts) M = Some (LS, M1)"
    and M': "M' = M1\<lparr>mod_funs := map (KSpecEmSpec_visitor LS (mod_name M1)) (mod_funs M1)\<rparr>"
    using assms by (auto simp: KSpecEmSpecPass_run_def KSpecEmSpec_runImpl_def split: bind_splits)
  have m: "mod_name M1 = mod_name M" using init_declares(2) [OF i] by (simp add: declares_def)
  show ?thesis
    unfolding M' by (rule declared_makes [OF init_declares(2) [OF i], where R = "\<lambda>G F'. F' = KSpecEmSpec_visitor LS (mod_name M1) G"])
      (use KSpecEmSpec_init_hooks [OF i] m False in \<open>auto simp: list_all2_map2 list_all2_same\<close>)
qed (use assms in \<open>simp add: KSpecEmSpecPass_run_def KSpecEmSpec_runImpl_def unchanged_makes\<close>)

lemma run_pass_makes: "run_pass opts p M = Some (pa, M', out) \<Longrightarrow> module_makes opts p M M'"
proof (cases p)
  case CountInstrsPass
  assume "run_pass opts p M = Some (pa, M', out)"
  with CountInstrsPass show ?thesis by (simp add: CountInstrsPass_run_def CountInstrs_runImpl_def unchanged_makes)
qed (blast intro: PfChecker_run_makes KSpecEm_run_makes CheckSpecLength_run_makes KSpecEmSpec_run_makes)+

section \<open>Pipelines\<close>

primrec passes_make :: "pass_options \<Rightarrow> string \<Rightarrow> module_pass list \<Rightarrow> ir_function \<Rightarrow> ir_function \<Rightarrow> bool" where
  "passes_make opts m [] F F' \<longleftrightarrow> F' = F"
| "passes_make opts m (p # ps) F F' \<longleftrightarrow> (\<exists>G. makes opts m p F G \<and> passes_make opts m ps G F')"

lemma run_passes_make:
  "run_passes opts ps M = Some (pa, M', out) \<Longrightarrow> i < length (mod_funs M) \<Longrightarrow>
   i < length (mod_funs M') \<and> passes_make opts (mod_name M) ps (mod_funs M ! i) (mod_funs M' ! i)"
proof (induction ps arbitrary: M pa out)
  case (Cons p ps)
  then obtain M1 pa1 out1 pa2 out2 where 1: "run_pass opts p M = Some (pa1, M1, out1)" "run_passes opts ps M1 = Some (pa2, M', out2)"
    by (auto split: bind_splits)
  from run_pass_makes [OF 1(1)] obtain ds where m: "mod_name M1 = mod_name M"
    and ds: "list_all2 (makes opts (mod_name M) p) (mod_funs M @ ds) (mod_funs M1)" by (auto simp: module_makes_def)
  from Cons.prems(2) list_all2_lengthD [OF ds] list_all2_nthD [OF ds, of i]
  have "i < length (mod_funs M1)" "makes opts (mod_name M) p (mod_funs M ! i) (mod_funs M1 ! i)" by (simp_all add: nth_append)
  with Cons.IH [OF 1(2)] m show ?case by auto
qed simp

lemma makes_name: "makes opts m p F F' \<Longrightarrow> fun_name F' = fun_name F"
  by (cases p) (auto simp: PfChecker_visitor_def CheckSpecLength_visitor_def KSpecEm_visitor_def KSpecEmSpec_visitor_def visit_function_def
      insert_call_depth_def exception_entry_def split_beta Let_def same_code_blocks split: if_splits list.splits prod.splits)

section \<open>When a pipeline is undefined\<close>

lemma visit_blocks_empty: "fst (visit_blocks V bs n) = [] \<longleftrightarrow> bs = []"
  by (cases bs) (simp_all add: split_beta)

lemma makes_shape: "makes opts m p F F' \<Longrightarrow> fun_ret F' = fun_ret F \<and> fun_args F' = fun_args F \<and> (fun_blocks F' = [] \<longleftrightarrow> fun_blocks F = [])"
  by (cases p) (auto simp: PfChecker_visitor_def CheckSpecLength_visitor_def KSpecEm_visitor_def KSpecEmSpec_visitor_def visit_function_def
      insert_call_depth_def exception_entry_def split_beta Let_def same_code_blocks same_code_type visit_blocks_empty
      split: if_splits list.splits prod.splits)

text \<open>A module on which the passes are defined: it has no hook with a wrong type, and no function that is to be entered through an
  interrupt hook without a body or an argument.\<close>

definition pass_input :: "pass_options \<Rightarrow> ir_module \<Rightarrow> bool" where
  "pass_input opts M \<longleftrightarrow> list_all (\<lambda>F. hook_typed F \<and> \<not> no_entry (kspecem_list opts) (mod_name M) F) (mod_funs M)"

definition hooks_not_listed :: "pass_options \<Rightarrow> string \<Rightarrow> bool" where
  "hooks_not_listed opts m \<longleftrightarrow> (\<forall>F. startswith (fun_name F) ''kspecem_'' \<longrightarrow> \<not> no_entry (kspecem_list opts) m F)"

lemma no_clash:
  assumes "list_all hook_typed (mod_funs M)" and "h \<in> set hook_types"
  shows "\<not> hook_clash M h"
  using assms by (cases h) (auto simp: hook_clash_def lookup_fun_def list_all_iff hook_typed_def find_Some_iff split: option.split dest!: nth_mem)

lemma declares_typed: "declares M M' \<Longrightarrow> list_all hook_typed (mod_funs M) \<Longrightarrow> list_all hook_typed (mod_funs M')"
proof -
  assume "declares M M'" and t: "list_all hook_typed (mod_funs M)"
  then obtain Fs ds where 1: "mod_funs M' = Fs @ ds" "list_all2 same_code (mod_funs M) Fs" "list_all declared_hook ds"
    by (auto simp: declares_def)
  from 1(2) t have "list_all hook_typed Fs"
    by (induction rule: list_all2_induct) (auto simp: same_code_def hook_typed_def)
  with 1(1,3) show ?thesis by (auto simp: list_all_iff declared_hook_def)
qed

lemma hooks_declared:
  assumes "list_all hook_typed (mod_funs M)" and "(f, FunTy r ts) \<in> set hook_types" and "hook_decl f (FunTy r ts)"
  obtains v M' where "declare_hook f r ts M = Some (v, M')" and "list_all hook_typed (mod_funs M')"
proof -
  have "declare_hook f r ts M \<noteq> None" using no_clash [OF assms(1,2)] by (simp add: declare_hook_None)
  then obtain v M' where d: "declare_hook f r ts M = Some (v, M')" by auto
  show thesis by (rule that [OF d declares_typed [OF declares_declare_hook [OF d assms(3)] assms(1)]])
qed

lemma spec_init_defined:
  assumes "list_all hook_typed (mod_funs M)"
  shows "\<exists>LS M'. KSpecEmSpec_init l M = Some (LS, M')"
proof -
  have t: "(''kspecem_hook_new_checkpoint'', FunTy (IntTy 64) []) \<in> set hook_types" "(''kspecem_asm_save_registers'', FunTy VoidTy [i8ptr, IntTy 64]) \<in> set hook_types"
    "(''kspecem_hook_save_stack'', FunTy VoidTy [IntTy 64, i8ptr]) \<in> set hook_types" "(''kspecem_hook_leave_rt'', FunTy VoidTy [IntTy 64]) \<in> set hook_types"
    "(''kspecem_hook_check_call_depth'', FunTy VoidTy [i8ptr, i8ptr]) \<in> set hook_types"
    by (simp_all add: hook_types_def)
  obtain a1 M1 where 1: "declare_hook ''kspecem_hook_new_checkpoint'' (IntTy 64) [] M = Some (a1, M1)" "list_all hook_typed (mod_funs M1)"
    by (rule hooks_declared [OF assms t(1) hook_decls(6)])
  obtain a2 M2 where 2: "declare_hook ''kspecem_asm_save_registers'' VoidTy [i8ptr, IntTy 64] M1 = Some (a2, M2)" "list_all hook_typed (mod_funs M2)"
    by (rule hooks_declared [OF 1(2) t(2) hook_decls(7)])
  obtain a3 M3 where 3: "declare_hook ''kspecem_hook_save_stack'' VoidTy [IntTy 64, i8ptr] M2 = Some (a3, M3)" "list_all hook_typed (mod_funs M3)"
    by (rule hooks_declared [OF 2(2) t(3) hook_decls(8)])
  obtain a4 M4 where 4: "declare_hook ''kspecem_hook_leave_rt'' VoidTy [IntTy 64] M3 = Some (a4, M4)" "list_all hook_typed (mod_funs M4)"
    by (rule hooks_declared [OF 3(2) t(4) hook_decls(9)])
  obtain a5 M5 where "declare_hook ''kspecem_hook_check_call_depth'' VoidTy [i8ptr, i8ptr] M4 = Some (a5, M5)"
    by (rule hooks_declared [OF 4(2) t(5) hook_decls(10)])
  with 1 2 3 4 show ?thesis by (simp add: KSpecEmSpec_init_def)
qed

lemma all2_in: "list_all2 R xs ys \<Longrightarrow> y \<in> set ys \<Longrightarrow> \<exists>x \<in> set xs. R x y"
  by (induction rule: list_all2_induct) auto

lemma run_pass_defined:
  assumes "pass_input opts M" and "hooks_not_listed opts (mod_name M)"
  shows "run_pass opts p M \<noteq> None"
proof (cases p)
  case KSpecEmPass
  have t: "list_all hook_typed (mod_funs M)" using assms(1) by (simp add: pass_input_def list_all_iff)
  have "\<not> list_ex (hook_clash M) kspecem_hook_types"
    using no_clash [OF t] by (auto simp: list_ex_iff hook_types_def)
  then obtain L M1 where i: "KSpecEm_init (kspecem_list opts) (module_layout opts) M = Some (L, M1)"
    using KSpecEm_init_None [of "kspecem_list opts" "module_layout opts" M] by fastforce
  obtain Fs ds where 1: "mod_funs M1 = Fs @ ds" "list_all2 same_code (mod_funs M) Fs" "list_all declared_hook ds"
    using init_declares(1) [OF i] by (auto simp: declares_def)
  have L: "kspecem_functions L = kspecem_list opts" "mod_name M1 = mod_name M" using KSpecEm_init_list [OF i] by simp_all
  have "\<not> no_entry (kspecem_list opts) (mod_name M) F" if "F \<in> set ds" for F
    using that 1(3) assms(2) by (auto simp: list_all_iff declared_hook_def hooks_not_listed_def)
  moreover have "\<not> no_entry (kspecem_list opts) (mod_name M) F" if "F \<in> set Fs" for F
  proof -
    from that obtain G where "G \<in> set (mod_funs M)" "same_code G F" using all2_in [OF 1(2)] by blast
    then show ?thesis using assms(1) by (auto simp: pass_input_def list_all_iff no_entry_def same_code_def isIn_def)
  qed
  ultimately have "visit_functions (KSpecEm_visitor L (mod_name M1)) (mod_funs M1) \<noteq> None"
    by (auto simp: visit_functions_None list_ex_iff KSpecEm_visitor_None L 1(1))
  then show ?thesis using KSpecEmPass i by (auto simp: KSpecEmPass_run_def KSpecEm_runImpl_def)
next
  case KSpecEmCheckSpecLengthPass
  have t: "list_all hook_typed (mod_funs M)" using assms(1) by (simp add: pass_input_def list_all_iff)
  obtain v M1 where "declare_hook ''kspecem_hook_check_spec_length'' VoidTy [IntTy 32] M = Some (v, M1)"
    by (rule hooks_declared [OF t _ hook_decls(11)]) (simp add: hook_types_def)
  then show ?thesis
    using KSpecEmCheckSpecLengthPass by (simp add: KSpecEmCheckSpecLengthPass_run_def CheckSpecLength_runImpl_def CheckSpecLength_init_def)
next
  case KSpecEmSpecPass
  have "list_all hook_typed (mod_funs M)" using assms(1) by (simp add: pass_input_def list_all_iff)
  then obtain LS M1 where "KSpecEmSpec_init (kspecem_spec_list opts) M = Some (LS, M1)" using spec_init_defined by blast
  then show ?thesis using KSpecEmSpecPass by (simp add: KSpecEmSpecPass_run_def KSpecEmSpec_runImpl_def)
qed (simp_all add: CountInstrsPass_run_def KSpecEmPfCheckerPass_run_def split_beta)

lemma run_pass_input:
  assumes "pass_input opts M" and "hooks_not_listed opts (mod_name M)" and "module_makes opts p M M'"
  shows "pass_input opts M' \<and> mod_name M' = mod_name M"
proof -
  obtain ds where ds: "mod_name M' = mod_name M" "list_all declared_hook ds" "list_all2 (makes opts (mod_name M) p) (mod_funs M @ ds) (mod_funs M')"
    using assms(3) by (auto simp: module_makes_def)
  let ?ok = "\<lambda>F. hook_typed F \<and> \<not> no_entry (kspecem_list opts) (mod_name M) F"
  have "list_all ?ok (mod_funs M @ ds)"
    using assms(1,2) ds(2) by (auto simp: pass_input_def list_all_iff declared_hook_def hooks_not_listed_def)
  moreover have "?ok F'" if "makes opts (mod_name M) p F F'" "?ok F" for F F'
    using that(2) makes_shape [OF that(1)] makes_name [OF that(1)] by (simp add: hook_typed_def no_entry_def isIn_def)
  ultimately have "list_all ?ok (mod_funs M')"
    using all2_in [OF ds(3)] unfolding list_all_iff by blast
  with ds(1) show ?thesis by (simp add: pass_input_def)
qed

lemma passes_defined:
  assumes "pass_input opts M" and "hooks_not_listed opts (mod_name M)"
  shows "\<exists>pa M' out. run_passes opts ps M = Some (pa, M', out)"
  using assms
proof (induction ps arbitrary: M)
  case (Cons p ps)
  obtain pa M1 out where 1: "run_pass opts p M = Some (pa, M1, out)" using run_pass_defined [OF Cons.prems, of p] by auto
  from run_pass_input [OF Cons.prems run_pass_makes [OF 1]] Cons.IH [of M1] Cons.prems(2)
  obtain pa' M' out' where "run_passes opts ps M1 = Some (pa', M', out')" by auto
  with 1 show ?case by simp
qed simp

text \<open>
  C18. The passes do not get in each other's way: on a module without a hook of a wrong type, with a body and an argument for every
  function on the timer and exception lists, and lists that leave the hooks alone, every pipeline returns, in any order
  and with any repetition of the passes. The hooks one pass declares are those the others expect.
\<close>

theorem pipeline_defined:
  assumes "pass_input opts M" and "hooks_not_listed opts (mod_name M)"
  shows "\<exists>pa M' out. run_passes opts ps M = Some (pa, M', out)"
  using assms by (rule passes_defined)

text \<open>An example: a module with the function of \<open>KTransparent\<close>, and empty lists.\<close>

definition demo_options :: pass_options where
  "demo_options = \<lparr>kspecemABIList = [], kspecemFunctionPrefix = ''dfs$'', kspecemSpecABIList = [], kspecemSpecFunctionPrefix = ''dfs$'',
     createOrDie = (\<lambda>files sec pre n cat. False), module_layout = demo_layout\<rparr>"

lemma demo_options_list: "\<not> isIn (kspecem_list demo_options) m F c"
  by (simp add: isIn_def isIn_module_def demo_options_def set_abi_list_def Let_def)

lemma demo_input: "pass_input demo_options demo_module" "hooks_not_listed demo_options m"
  by (simp_all add: pass_input_def hooks_not_listed_def no_entry_def demo_options_list)
    (simp add: demo_module_def demo_function_def hook_typed_def hook_types_def kspecem_hook_types_def)

theorem pipeline_defined_witness:
  "\<exists>pa M' out. run_passes demo_options [KSpecEmSpecPass, KSpecEmPass, KSpecEmCheckSpecLengthPass, KSpecEmPass, KSpecEmPfCheckerPass, CountInstrsPass]
     demo_module = Some (pa, M', out)"
  by (rule pipeline_defined [OF demo_input])

section \<open>The form of the program\<close>

text \<open>The form of a function: every number is that of one instruction, and no operand is beyond them.\<close>

definition well_formed :: "ir_function \<Rightarrow> bool" where
  "well_formed F \<longleftrightarrow> ids_ok F \<and> fun_below F"

lemma well_formed_declaration: "fun_blocks F = [] \<Longrightarrow> well_formed F"
  by (simp add: well_formed_def ids_ok_def function_ids_def fun_below_def)

lemma well_formed_same_code: "same_code F G \<Longrightarrow> well_formed G = well_formed F"
  by (simp add: well_formed_def ids_ok_def function_ids_def fun_below_def same_code_blocks)

lemma visitors_well_formed:
  assumes "well_formed F"
  shows "kspecem_hooks L \<Longrightarrow> KSpecEm_visitor L m F = Some F' \<Longrightarrow> well_formed F'"
    and "spec_hooks LS \<Longrightarrow> well_formed (KSpecEmSpec_visitor LS m F)" and "access_hook K \<Longrightarrow> well_formed (PfChecker_visitor K F)"
    and "length_hook h \<Longrightarrow> well_formed (CheckSpecLength_visitor h F)"
  using assms passes_keep_ids [of F L m LS K h] KSpecEm_visitor_below [of L F m F']
  by (simp_all add: well_formed_def KSpecEmSpec_visitor_below small_visitors_below)

lemma makes_well_formed: "makes opts m p F F' \<Longrightarrow> well_formed F \<Longrightarrow> well_formed F'"
  by (cases p) (auto dest: well_formed_same_code intro: visitors_well_formed split: if_splits)



section \<open>Outside a speculation\<close>

lemma keeps_instrumented:
  assumes "instrumented_inst fs i" and "calls_keep w P" and "\<And>f j xs. f \<in> fs \<Longrightarrow> keeps P (\<lambda>_. True) (call_function w j f xs)"
    and "\<And>s m. P s \<Longrightarrow> P (s\<lparr>mem := m\<rparr>)" and "\<And>s. P s \<Longrightarrow> P (s\<lparr>kspecem_swap_branch_condition := False\<rparr>)"
  shows "keeps_inst w P i"
  unfolding keeps_inst_def
proof (intro allI)
  fix args e
  show "keeps P (\<lambda>_. True) (exec_op w args e i)"
  proof (cases "inst_op i")
    case (CallInst cc f xs)
    show ?thesis
    proof (cases "callee_name f")
      case (Some n)
      with CallInst assms(1-3) show ?thesis
        by (cases "startswith n ''kspecem_''")
          (auto simp: exec_op_def call_value_def instrumented_inst_def calls_keep_def call_function_other keeps_return)
    next
      case None
      with CallInst assms(2) show ?thesis
        by (cases f) (auto simp: exec_op_def call_value_def calls_keep_def)
    qed
  next
    case (LoadInst p)
    then show ?thesis by (cases p) (simp_all add: exec_op_def load_value_def keeps_get)
  next
    case (StoreInst v p)
    have "runtime_global p" if "p = Global ''kspecem_swap_branch_condition'' t" for t using that by (simp add: runtime_global_def)
    with StoreInst assms(1,4,5) show ?thesis
      by (auto simp: exec_op_def store_value_def Let_def void_def keeps_def hoare_def bindM_apply instrumented_inst_def split: ir_value.splits)
  next
    case (MemIntrinsic mk d src len)
    then show ?thesis using assms(4) by (simp add: exec_op_def void_def keeps_def hoare_def bindM_apply Let_def)
  qed (simp_all add: exec_op_def keeps_return Let_def)
qed

lemma hooks_keep_quiet:
  assumes "kernel_ok (kern w)" and "f \<in> quiet_hook_names"
  shows "keeps quiet (\<lambda>_. True) (call_function w i f xs)"
proof -
  have t: "keeps quiet (\<lambda>_. True) (kspecem_hook_interrupt_timer k st sta arg fa)"
    "keeps quiet (\<lambda>_. True) (kspecem_hook_interrupt_exception k st sta arg fa ty)" for k :: "'a kernel" and st sta arg fa ty
    by (cases "fa = 0"; auto simp: keeps_def hoare_def quiet_def kspecem_hook_interrupt_timer_def kspecem_hook_interrupt_exception_def
        CHECK_KSPECEM_INIT_def km_simps)+
  have d: "call_function w i ''kspecem_hook_interrupt_exception'' xs =
     bindM (kspecem_hook_interrupt_exception (kern w) (site_at w i) (assert_site_at w i) (of_nat (argn xs 0)) (of_nat (argn xs 1)) (int (argn xs 2)))
       (\<lambda>r. returnM (nat (r mod 2 ^ 32)))" by (simp add: call_function_def)
  have q: "keeps quiet (\<lambda>_. True) m" if "\<And>s. quiet s \<Longrightarrow> \<exists>x. m s = Ret x s" for m :: "('a, 'b) kop"
    using that by (fastforce simp: keeps_def hoare_def split: outcome.split)
  have h: "keeps quiet (\<lambda>_. True) (kspecem_hook_store k st sta a)" "keeps quiet (\<lambda>_. True) (kspecem_hook_memcpy k st sta a sz)"
    "keeps quiet (\<lambda>_. True) (kspecem_hook_check_call_depth k st sta)" "keeps quiet (\<lambda>_. True) (kspecem_hook_check_spec_length k st sta c)"
    "keeps quiet (\<lambda>_. True) (kspecem_hook_access k sta a sz)" for k :: "'a kernel" and st sta a sz c
    by (rule q, simp add: quiet_hooks)+
  have r: "keeps quiet (\<lambda>_. True) (kspecem_hook_restart (kern w) st arg ty ca)" for st arg ty ca
    by (rule q) (simp add: quiet_restart assms(1))
  from assms(2) show ?thesis
    by (auto simp: quiet_hook_names_def call_function_hooks d void_def intro!: keeps_bind keeps_return t h r)
qed

lemma makes_same_run:
  assumes "makes opts m p F F'" and "p \<noteq> KSpecEmSpecPass" and "fun_below F" and "all_insts (\<lambda>i. keeps_inst w P i \<and> checked_ok i) F"
    and "\<not> isIn (kspecem_list opts) m F ''exception''" and "quiet_context w P" and "P s"
  shows "run_function n w F' args s = run_function n w F args s"
proof -
  have run: "run_function n w G args s = run_function n w F args s" if "same_code F G" for G
    using that by (cases "fun_blocks F") (auto simp: same_code_def run_function_def)
  have G: "fun_below G" "list_all (\<lambda>b. list_all (keeps_inst w P) (bb_insts b)) (fun_blocks G)"
    "list_all (\<lambda>b. list_all (\<lambda>i. keeps_inst w P i \<and> checked_ok i) (bb_insts b)) (fun_blocks G)"
    "isIn l m G c = isIn l m F c" if "same_code F G" for G l c
    using same_code_blocks [OF that] assms(3,4) by (auto simp: fun_below_def all_insts_def list_all_iff isIn_def)
  have "run_function n w F' args s = run_function n w G args s"
    if "kspecem_hooks L" "kspecem_functions L = kspecem_list opts" "same_code F G" "KSpecEm_visitor L m G = Some F'" for L G
    using that(2) assms(5) by (intro KSpecEm_same [OF that(1,4) _ G(1,2) [OF that(3)] assms(6,7)]) (simp add: G(4) [OF that(3)])
  then have k: "run_function n w F' args s = run_function n w F args s"
    if "kspecem_hooks L" "kspecem_functions L = kspecem_list opts" "same_code F G" "KSpecEm_visitor L m G = Some F'" for L G
    using that run by metis
  have "run_function n w (PfChecker_visitor K G) args s = run_function n w F args s" if "access_hook K" "same_code F G" for K G
    using PfChecker_same [OF that(1) G(1,3) [OF that(2)] assms(6,7)] run [OF that(2)] by metis
  moreover have "run_function n w (CheckSpecLength_visitor h G) args s = run_function n w F args s" if "length_hook h" "same_code F G" for h G
    using CheckSpecLength_same [OF that(1) G(1,2) [OF that(2)] assms(6,7)] run [OF that(2)] by metis
  ultimately show ?thesis using assms(1,2) k by (cases p) (auto split: if_splits)
qed

lemma makes_instrumented:
  assumes "makes opts m p F F'" and "quiet_hook_names \<subseteq> fs" and "p = KSpecEmSpecPass \<longrightarrow> checkpoint_hook_names \<subseteq> fs"
    and "fun_below F" and "all_insts (instrumented_inst fs) F"
  shows "fun_below F' \<and> all_insts (instrumented_inst fs) F'"
proof -
  have G: "fun_below G" "all_insts (instrumented_inst fs) G" if "same_code F G" for G
    using same_code_blocks [OF that] assms(4,5) by (simp_all add: fun_below_def all_insts_def)
  show ?thesis
    using assms(1-3) by (cases p) (auto simp: assms(4,5) G small_visitors_below KSpecEmSpec_visitor_below PfChecker_visitor_instrumented
        CheckSpecLength_visitor_instrumented KSpecEmSpec_visitor_instrumented
        dest: KSpecEm_visitor_below [OF _ G(1)] KSpecEm_visitor_instrumented [OF _ _ G(2)] split: if_splits)
qed

text \<open>Functions on the same lists: a list is searched by name.\<close>

lemma isIn_name: "fun_name F' = fun_name F \<Longrightarrow> isIn l m F' c = isIn l m F c"
  by (simp add: isIn_def)

lemma passes_make_same_run:
  assumes "quiet_context w P" and "P s" and "\<And>i. instrumented_inst fs i \<Longrightarrow> keeps_inst w P i" and "quiet_hook_names \<subseteq> fs"
  shows "passes_make opts m ps F F' \<Longrightarrow> KSpecEmSpecPass \<notin> set ps \<Longrightarrow> fun_below F \<Longrightarrow> all_insts (instrumented_inst fs) F \<Longrightarrow>
    \<not> isIn (kspecem_list opts) m F ''exception'' \<Longrightarrow>
    run_function n w F' args s = run_function n w F args s \<and> fun_name F' = fun_name F \<and> fun_below F' \<and> all_insts (instrumented_inst fs) F'"
proof (induction ps arbitrary: F)
  case (Cons p ps)
  then obtain G where G: "makes opts m p F G" "passes_make opts m ps G F'" by auto
  have i: "all_insts (\<lambda>i. keeps_inst w P i \<and> checked_ok i) F"
    using Cons.prems(4) assms(3) instrumented_checked by (fastforce simp: all_insts_def list_all_iff)
  have "run_function n w G args s = run_function n w F args s"
    using Cons.prems(2,3,5) by (intro makes_same_run [OF G(1) _ _ i _ assms(1,2)]) auto
  moreover have "fun_below G \<and> all_insts (instrumented_inst fs) G"
    using Cons.prems by (intro makes_instrumented [OF G(1) assms(4)]) auto
  ultimately show ?case using Cons.IH [OF G(2)] Cons.prems isIn_name [OF makes_name [OF G(1)]] makes_name [OF G(1)] by simp
qed simp

lemma all_insts_program: "all_insts program_inst F \<Longrightarrow> all_insts (instrumented_inst fs) F"
  by (auto simp: all_insts_def list_all_iff program_inst_instrumented)

text \<open>
  C6. Outside a speculation the instrumented kernel is the kernel. Run any sequence of the passes, except the one that
  inserts checkpoints, on a module. Each function that was in the module runs after that exactly as it did
  before, for any number of blocks: the same result in the same state, or the same failure. This
  holds for instrumented, blacklisted, timer and exempted functions, as long as the program calls no hook and
  uses no variable of the runtime itself, and what it calls leaves the runtime outside a speculation.
\<close>

theorem pipeline_transparent:
  assumes "run_passes opts ps M = Some (pa, M', out)" and "KSpecEmSpecPass \<notin> set ps" and "j < length (mod_funs M)"
    and "F = mod_funs M ! j" and "fun_below F" and "all_insts program_inst F"
    and "\<not> isIn (kspecem_list opts) (mod_name M) F ''exception''" and "calls_quiet w" and "quiet s"
  shows "j < length (mod_funs M') \<and> fun_name (mod_funs M' ! j) = fun_name F
    \<and> run_function n w (mod_funs M' ! j) args s = run_function n w F args s"
proof -
  have w: "kernel_ok (kern w)" "calls_keep w quiet" using assms(8) by (simp_all add: calls_quiet_def)
  have k: "keeps_inst w quiet i" if "instrumented_inst quiet_hook_names i" for i
    by (rule keeps_instrumented [OF that w(2) hooks_keep_quiet [OF w(1)]]) (simp_all add: quiet_def)
  note m = run_passes_make [OF assms(1,3), folded assms(4)]
  have "run_function n w (mod_funs M' ! j) args s = run_function n w F args s \<and> fun_name (mod_funs M' ! j) = fun_name F
      \<and> fun_below (mod_funs M' ! j) \<and> all_insts (instrumented_inst quiet_hook_names) (mod_funs M' ! j)"
    using m k all_insts_program [OF assms(6)] by (intro passes_make_same_run [OF calls_quiet_context [OF assms(8)] assms(9) _ _ _ assms(2,5) _ assms(7)]) auto
  with m show ?thesis by blast
qed

theorem pipeline_transparent_witness:
  "\<exists>pa M' out t. run_passes demo_options [KSpecEmPfCheckerPass, KSpecEmPass, KSpecEmCheckSpecLengthPass] demo_module = Some (pa, M', out)
    \<and> run_function 1 demo_world (mod_funs M' ! 0) (\<lambda>_. 0x3000) demo_idle = Ret (Some 5) t"
proof -
  obtain pa M' out where r: "run_passes demo_options [KSpecEmPfCheckerPass, KSpecEmPass, KSpecEmCheckSpecLengthPass] demo_module = Some (pa, M', out)"
    using passes_defined [OF demo_input] by blast
  have "0 < length (mod_funs demo_module)" "demo_function = mod_funs demo_module ! 0" "all_insts program_inst demo_function"
    using demo_function_below(2) by (simp_all add: demo_module_def all_insts_def)
  from pipeline_transparent [OF r _ this(1,2) demo_function_below(1) this(3) demo_options_list demo_world_quiet demo_idle_quiet, of 1 "\<lambda>_. 0x3000"]
    r demo_function_run show ?thesis by auto
qed

end
