(* ===== verification/KBoot.thy ===== *)
theory KBoot
  imports KPipeline
begin

text \<open>
  Until the runtime is initialised, the fully instrumented kernel boots as the kernel does. The code of the pass that inserts checkpoints
  leaves a trace in the registers of the machine (\<open>kspecem_asm_save_registers\<close> is called even when no
  checkpoint was taken), so the two runs are compared up to these.
\<close>

section \<open>Before initialisation\<close>

definition dormant :: "'c kstate \<Rightarrow> bool" where
  "dormant s \<longleftrightarrow> quiet s \<and> \<not> kspecem_init_done s \<and> \<not> kspecem_swap_branch_condition s"

definition same_but_hw :: "'c kstate \<Rightarrow> 'c kstate \<Rightarrow> bool" where
  "same_but_hw s t \<longleftrightarrow> s\<lparr>hw := hw t\<rparr> = t"

definition dormant_pair :: "'c kstate \<Rightarrow> 'c kstate \<Rightarrow> bool" where
  "dormant_pair s t \<longleftrightarrow> dormant s \<and> same_but_hw s t"

lemma same_but_hwE: "same_but_hw s t \<Longrightarrow> (\<And>h. t = s\<lparr>hw := h\<rparr> \<Longrightarrow> thesis) \<Longrightarrow> thesis"
  by (metis same_but_hw_def)

lemma same_but_hw_iff: "same_but_hw s t \<longleftrightarrow> (\<exists>h. t = s\<lparr>hw := h\<rparr>)"
proof
  assume "same_but_hw s t"
  then have "t = s\<lparr>hw := hw t\<rparr>" by (simp only: same_but_hw_def)
  then show "\<exists>h. t = s\<lparr>hw := h\<rparr>" by blast
qed (auto simp: same_but_hw_def)

lemma same_but_hw_refl [simp]: "same_but_hw s s"
  by (simp add: same_but_hw_def)

lemma dormant_simps [simp]:
  "dormant (s\<lparr>hw := h\<rparr>) = dormant s" "dormant (s\<lparr>mem := m\<rparr>) = dormant s" "dormant (s\<lparr>cpu := c\<rparr>) = dormant s"
  "dormant (s\<lparr>kspecem_registers := r\<rparr>) = dormant s" "dormant (s\<lparr>kspecem_spec_assert := a\<rparr>) = dormant s"
  "dormant (s\<lparr>spec_stats := st\<rparr>) = dormant s"
  by (simp_all add: dormant_def quiet_def)

lemma dormant_swap: "dormant s \<Longrightarrow> dormant (s\<lparr>kspecem_swap_branch_condition := False\<rparr>)"
  by (simp add: dormant_def quiet_def)

text \<open>The hooks do nothing, whatever their arguments.\<close>

lemma dormant_hooks:
  assumes "dormant s"
  shows "kspecem_hook_store k st sta a s = Ret () s" and "kspecem_hook_memcpy k st sta a sz s = Ret () s"
    and "kspecem_hook_access k sta a sz s = Ret a s" and "kspecem_hook_check_spec_length k st sta c s = Ret () s"
    and "kspecem_hook_check_call_depth k st sta s = Ret () s" and "kspecem_hook_interrupt_timer k st sta a fa s = Ret () s"
    and "kspecem_hook_interrupt_exception k st sta a fa ty s = Ret 0 s" and "kspecem_hook_restart k st a ty' ca s = Ret 0 s"
    and "kspecem_hook_new_checkpoint k st sta s = Ret (- 1) s"
  using assms
  by (simp_all add: dormant_def quiet_hooks kspecem_hook_interrupt_timer_def kspecem_hook_interrupt_exception_def kspecem_hook_restart_def
      kspecem_hook_restart_with_def kspecem_hook_new_checkpoint_def CHECK_KSPECEM_INIT_def CHECK_KSPECEM_RT_def ifM_apply)

lemma dormant_call:
  assumes "f \<in> quiet_hook_names"
  shows "\<exists>v. \<forall>s. dormant s \<longrightarrow> call_function w i f xs s = Ret v s"
proof -
  have "call_function w i ''kspecem_hook_interrupt_exception'' xs =
     bindM (kspecem_hook_interrupt_exception (kern w) (site_at w i) (assert_site_at w i) (of_nat (argn xs 0)) (of_nat (argn xs 1)) (int (argn xs 2)))
       (\<lambda>r. returnM (nat (r mod 2 ^ 32)))" by (simp add: call_function_def)
  with assms show ?thesis
    by (auto simp: quiet_hook_names_def call_function_hooks void_def bindM_apply dormant_hooks)
qed

lemma keeps_dormant_assert:
  "keeps dormant (\<lambda>_. True) (assert_restart k sta)" "keeps dormant (\<lambda>_. True) (lt_assert (assert_restart k sta) fl l c test)"
proof -
  show r: "keeps dormant (\<lambda>_. True) (assert_restart k sta)"
    by (auto simp: keeps_def hoare_def assert_restart_def ignoreM_apply dormant_hooks)
  show "keeps dormant (\<lambda>_. True) (lt_assert (assert_restart k sta) fl l c test)"
    by (rule keeps_lt_assert [OF _ r]) simp
qed

lemma hooks_keep_dormant:
  assumes "f \<in> quiet_hook_names \<union> checkpoint_hook_names"
  shows "keeps dormant (\<lambda>_. True) (call_function w i f xs)"
proof (cases "f \<in> quiet_hook_names")
  case True
  then obtain v where "\<forall>s. dormant s \<longrightarrow> call_function w i f xs s = Ret v s" using dormant_call by blast
  then show ?thesis by (simp add: keeps_def hoare_def)
next
  case False
  have c: "keeps dormant (\<lambda>_. True) (kspecem_hook_new_checkpoint k st sta)" for k :: "'a kernel" and st sta
    by (auto simp: keeps_def hoare_def dormant_hooks)
  have s: "keeps dormant (\<lambda>_. True) (kspecem_hook_save_stack k sta fp fl fa)" for k :: "'a kernel" and sta fp fl fa
    unfolding kspecem_hook_save_stack_def kspecem_save_stack_def Let_def lt_panic_def
    by (intro keeps_rules keeps_dormant_assert; simp add: dormant_def quiet_def)
  have r: "keeps dormant (\<lambda>_. True) (save_registers fl ci)" for fl ci
    by (auto simp: keeps_def hoare_def save_registers_def split: prod.split)
  have l: "keeps dormant (\<lambda>_. True) (kspecem_hook_leave_rt k sta fl)" for k :: "'a kernel" and sta fl
    unfolding kspecem_hook_leave_rt_def LEAVE_KSPECEM_RT_def kspecem_unset_rt_def
    by (intro keeps_rules keeps_dormant_assert; simp add: dormant_def quiet_def)
  show ?thesis
    using assms False c s r l by (auto simp: checkpoint_hook_names_def call_function_spec void_def intro!: keeps_bind keeps_return)
qed

section \<open>Runs up to the registers\<close>

abbreviation hw_sim :: "('a \<Rightarrow> 'b \<Rightarrow> bool) \<Rightarrow> ('c, 'a) kop \<Rightarrow> ('c, 'b) kop \<Rightarrow> bool" where
  "hw_sim R m m' \<equiv> rsim dormant_pair same_but_hw R m m'"

text \<open>What is assumed of the calls of the program: they return in such states, if they return, and what they do does not depend on
  the registers the inserted code changes.\<close>

definition calls_dormant :: "'c world \<Rightarrow> bool" where
  "calls_dormant w \<longleftrightarrow> kernel_ok (kern w) \<and> frame_address w \<noteq> 0 \<and> (\<forall>f xs. hw_sim (=) (known_call w f xs) (known_call w f xs))
     \<and> (\<forall>a xs. hw_sim (=) (unknown_call w a xs) (unknown_call w a xs)) \<and> (\<forall>a xs. hw_sim (=) (asm_call w a xs) (asm_call w a xs))"

lemma hw_sim_keeps: "hw_sim (=) m m \<Longrightarrow> keeps dormant (\<lambda>_. True) m"
proof -
  assume m: "hw_sim (=) m m"
  have "dormant t" if "dormant s" "m s = Ret x t" for s x t
  proof -
    have "related dormant_pair same_but_hw (=) (m s) (m s)" using m that(1) by (simp add: rsim_def dormant_pair_def)
    with that(2) show ?thesis by (simp add: dormant_pair_def)
  qed
  then show ?thesis by (auto simp: keeps_def hoare_def split: outcome.split)
qed

lemma calls_dormant_keep: "calls_dormant w \<Longrightarrow> calls_keep w dormant \<and> quiet_context w dormant"
  by (simp add: calls_dormant_def calls_keep_def quiet_context_def hw_sim_keeps dormant_def)

lemma keeps_dormant_inst:
  assumes "calls_dormant w" and "instrumented_inst (quiet_hook_names \<union> checkpoint_hook_names) i"
  shows "keeps_inst w dormant i"
  using calls_dormant_keep [OF assms(1)]
  by (intro keeps_instrumented [OF assms(2)] hooks_keep_dormant dormant_swap) simp_all

lemma hw_sim_get: "(\<And>s h. f (s\<lparr>hw := h\<rparr>) = f s) \<Longrightarrow> hw_sim (=) (getM f) (getM f)"
  by (auto simp: rsim_def dormant_pair_def same_but_hw_iff)

lemma hw_sim_modify:
  "(\<And>s h. f (s\<lparr>hw := h\<rparr>) = (f s)\<lparr>hw := h\<rparr>) \<Longrightarrow> (\<And>s. dormant s \<Longrightarrow> dormant (f s)) \<Longrightarrow> hw_sim (=) (modifyM f) (modifyM f)"
  by (auto simp: rsim_def dormant_pair_def same_but_hw_iff)

lemma hw_sim_memory: "hw_sim (=) (modifyM (\<lambda>s. s\<lparr>mem := f (mem s)\<rparr>)) (modifyM (\<lambda>s. s\<lparr>mem := f (mem s)\<rparr>))"
  by (rule hw_sim_modify) simp_all

lemma hw_sim_inst:
  assumes "calls_dormant w" and "instrumented_inst quiet_hook_names i"
  shows "hw_sim (=) (exec_op w args e i) (exec_op w args e i)"
proof (cases "inst_op i")
  case (CallInst cc f xs)
  show ?thesis
  proof (cases "callee_name f")
    case (Some g)
    have "hw_sim (=) (call_function w j g ys) (call_function w j g ys)" for j ys
    proof (cases "startswith g ''kspecem_''")
      case True
      with assms(2) CallInst Some have g: "g \<in> quiet_hook_names" by (simp add: instrumented_inst_def)
      obtain v where "\<forall>s. dormant s \<longrightarrow> call_function w j g ys s = Ret v s" using dormant_call [OF g] by blast
      then show ?thesis by (auto simp: rsim_def dormant_pair_def same_but_hw_iff)
    next
      case False
      with assms(1) show ?thesis by (simp add: call_function_other calls_dormant_def rsim_return)
    qed
    with CallInst Some show ?thesis by (simp add: exec_op_def call_value_def)
  next
    case None
    with CallInst assms(1) show ?thesis by (cases f) (auto simp: exec_op_def call_value_def calls_dormant_def)
  qed
next
  case (LoadInst p)
  then show ?thesis by (cases p) (auto simp: exec_op_def load_value_def intro!: hw_sim_get)
next
  case (StoreInst v p)
  have "hw_sim (=) (store_value w t x p y) (store_value w t x p y)" if "runtime_global p \<longrightarrow> x = 0" for t x y
    using that by (cases p) (auto simp: store_value_def Let_def runtime_global_def intro!: hw_sim_memory hw_sim_modify dormant_swap)
  with StoreInst assms(2) show ?thesis
    by (auto simp: exec_op_def void_def Let_def instrumented_inst_def intro!: rsim_bind [of _ _ "(=)"] rsim_return)
next
  case (MemIntrinsic mk d src len)
  then show ?thesis by (auto simp: exec_op_def void_def Let_def intro!: rsim_bind [of _ _ "(=)"] rsim_return hw_sim_memory)
qed (simp_all add: exec_op_def rsim_return Let_def)

lemma hw_sim_insts:
  assumes "calls_dormant w"
  shows "list_all (instrumented_inst quiet_hook_names) is \<Longrightarrow> list_all (inst_below N) is \<Longrightarrow> env_eq N e e' \<Longrightarrow>
    hw_sim (env_eq N) (exec_insts w args is e) (exec_insts w args is e')"
proof (induction "is" arbitrary: e e')
  case Nil
  then show ?case unfolding exec_insts.simps by (intro rsim_return)
next
  case (Cons i "is")
  have "hw_sim (env_eq N) (exec_inst w args i e) (exec_inst w args i e')"
    unfolding exec_inst_def
  proof (rule rsim_bind)
    have "exec_op w args e i = exec_op w args e' i" using Cons.prems(2) by (intro exec_op_env_eq [OF Cons.prems(3)]) simp
    then show "hw_sim (=) (exec_op w args e i) (exec_op w args e' i)" using hw_sim_inst [OF assms] Cons.prems(1) by simp
  qed (simp add: rsim_return env_eq_update Cons.prems(3))
  then show ?case unfolding exec_insts.simps by (rule rsim_bind) (use Cons in auto)
qed

section \<open>The code before a branch\<close>

lemma dormant_checkpoint:
  assumes "spec_hooks LS" and "dormant t"
  obtains h e1 where "exec_insts w args (emitted (emitNewCheckpointHook LS) n) e t = Ret e1 (t\<lparr>hw := h\<rparr>)" and "env_eq n e e1"
proof -
  have r: "save_registers fl (- 1) t = Ret () (t\<lparr>hw := (hw t)(RAX := 0, RIP := load64 (mem t) (hw t RSP), RSP := hw t RSP + 8)\<rparr>)" for fl
    by (simp add: save_registers_def kspecem_asm_save_registers_def Let_def)
  have m: "of_nat (unat (- 1 :: u64)) = (- 1 :: u64)" by simp
  let ?e = "e(n := unat (- 1 :: u64), n + 1 := unat (frame_address w), n + 2 := 0, n + 3 := unat (kspecem_registers_ptr t), n + 4 := 0, n + 5 := 0)"
  have "exec_insts w args (emitted (emitNewCheckpointHook LS) n) e t =
      Ret ?e (t\<lparr>hw := (hw t)(RAX := 0, RIP := load64 (mem t) (hw t RSP), RSP := hw t RSP + 8)\<rparr>)"
    using assms m by (simp add: emitNewCheckpointHook_def spec_hooks_def bindM_apply exec_inst_def exec_op_def call_value_def call_function_spec
        call_function_hooks void_def argn_def load_value_def Let_def dormant_hooks r kspecem_hook_save_stack_def kspecem_hook_leave_rt_def
        eval_nat_numeral)
  moreover have "env_eq n e ?e" by simp
  ultimately show thesis by (rule that)
qed

lemma dormant_branch:
  assumes "spec_hooks LS" and "dormant t" and "value_below n c"
  obtains h e1 where "exec_insts w args (emitted (emitBranch LS F c) n) e t = Ret e1 (t\<lparr>hw := h\<rparr>)" and "env_eq n e e1"
    and "eval w args e1 (built (emitBranch LS F c) n) = eval w args e c"
proof -
  let ?rest = "do {
        inverted \<leftarrow> invertedCondition F c;
        swapBranchCondition \<leftarrow> insert_inst (IntTy 32) (LoadInst kspecem_swap_branch_condition_var);
        cond \<leftarrow> insert_inst (IntTy 1) (ICmpInst ICMP_EQ swapBranchCondition (ConstInt 32 1));
        newCondition \<leftarrow> insert_inst (IntTy 1) (SelectInst cond inverted c);
        insert_inst VoidTy (StoreInst (ConstInt 32 0) kspecem_swap_branch_condition_var);
        State_Monad.return newCondition }"
  obtain h e1 where 1: "exec_insts w args (emitted (emitNewCheckpointHook LS) n) e t = Ret e1 (t\<lparr>hw := h\<rparr>)" "env_eq n e e1"
    by (rule dormant_checkpoint [OF assms(1,2)])
  have "\<exists>x. exec_insts w args (emitted (invertedCondition F c) (n + 6)) e1 = returnM (e1(n + 6 := x))"
    by (auto simp: invertedCondition_def exec_inst_def exec_op_def Let_def fun_eq_iff bindM_apply split: option.split ir_op.split)
  then obtain x where x: "exec_insts w args (emitted (invertedCondition F c) (n + 6)) e1 = returnM (e1(n + 6 := x))" by blast
  have c: "eval w args (e1(n + 6 := x, 7 + n := y, 8 + n := z)) c = eval w args e c" for y z
    using assms(3) 1(2) by (intro eval_env_eq [where N = n, symmetric]) (auto simp: env_eq_def)
  let ?e = "e1(n + 6 := x, 7 + n := 0, 8 + n := 0, 9 + n := eval w args e c, 10 + n := 0)"
  have "\<not> kspecem_swap_branch_condition t" using assms(2) by (simp add: dormant_def)
  then have "exec_insts w args (emitted ?rest (n + 6)) e1 (t\<lparr>hw := h\<rparr>) = Ret ?e (t\<lparr>hw := h\<rparr>)"
    using c [of 0 0] x by (simp add: exec_insts_append exec_inst_def exec_op_def load_value_def store_value_def void_def Let_def bindM_apply)
  moreover have "emitted (emitBranch LS F c) n = emitted (emitNewCheckpointHook LS) n @ emitted ?rest (n + 6)"
    unfolding emitBranch_def by (subst builder_bind_eqs(3)) simp_all
  ultimately have "exec_insts w args (emitted (emitBranch LS F c) n) e t = Ret ?e (t\<lparr>hw := h\<rparr>)"
    using 1(1) by (simp only: exec_insts_append bindM_apply) simp
  moreover have "eval w args ?e (built (emitBranch LS F c) n) = eval w args e c" by (simp add: emitBranch_def add.commute)
  moreover have "env_eq n e ?e" using 1(2) by (simp add: env_eq_def)
  ultimately show thesis by (intro that)
qed

section \<open>Functions\<close>

lemma dormant_term:
  fixes F :: ir_function
  assumes "spec_hooks LS" and "list_all (value_below N) (term_operands (bb_term b))" and "N \<le> n" and "env_eq N x y" and "dormant t"
  defines "T \<equiv> visit_term (KSpecEmSpecPassVisitor LS F) b"
  shows "\<exists>h y'. exec_insts w args (emitted T n) y t = Ret y' (t\<lparr>hw := h\<rparr>) \<and> env_eq N x y'
    \<and> exec_term w args (bb_term b) x = exec_term w args (built T n) y'"
proof (cases "\<exists>c l l'. bb_term b = CondBr c l l'")
  case True
  then obtain c l l' where c: "bb_term b = CondBr c l l'" by blast
  have vc: "value_below N c" "value_below n c" using assms(2) c value_below_mono [OF _ assms(3)] by simp_all
  obtain h y' where y': "exec_insts w args (emitted (emitBranch LS F c) n) y t = Ret y' (t\<lparr>hw := h\<rparr>)" "env_eq n y y'"
    "eval w args y' (built (emitBranch LS F c) n) = eval w args y c"
    by (rule dormant_branch [OF assms(1,5) vc(2), where w = w and args = args and e = y and F = F])
  have "env_eq N x y'" using assms(3,4) y'(2) by (simp add: env_eq_def)
  moreover have "builder (emitBranch LS F c)" by (simp add: emitBranch_def)
  ultimately show ?thesis
    using y' c eval_env_eq [OF assms(4) vc(1), of w args] by (auto simp: T_def KSpecEmSpecPassVisitor_def exec_term_def)
next
  case False
  then have "T = State_Monad.return (bb_term b)" by (cases "bb_term b") (simp_all add: T_def KSpecEmSpecPassVisitor_def)
  with assms(4) exec_term_env_eq [OF assms(4,2)] show ?thesis by (auto intro!: exI [of _ "hw t"])
qed

lemma spec_visits_block:
  "fst (visit_block (KSpecEmSpecPassVisitor LS F) b n) = b\<lparr>bb_insts := bb_insts b @ emitted (visit_term (KSpecEmSpecPassVisitor LS F) b) n,
     bb_term := built (visit_term (KSpecEmSpecPassVisitor LS F) b) n\<rparr>"
proof -
  let ?V = "KSpecEmSpecPassVisitor LS F"
  have "visited (visit_inst ?V) is k = is" "visited_next (visit_inst ?V) is k = k" for "is" k
    by (induction "is") (simp_all add: KSpecEmSpecPassVisitor_def)
  then show ?thesis by (simp add: visit_block_eq Let_def)
qed

lemma spec_block_rsim:
  assumes "calls_dormant w" and "spec_hooks LS" and "list_all (instrumented_inst quiet_hook_names) (bb_insts b)" and "block_below N b" and "N \<le> n"
  shows "block_rsim w args dormant_pair same_but_hw N b (fst (visit_block (KSpecEmSpecPassVisitor LS F) b n))"
proof -
  let ?T = "visit_term (KSpecEmSpecPassVisitor LS F) b"
  have below: "list_all (inst_below N) (bb_insts b)" "list_all (value_below N) (term_operands (bb_term b))"
    "list_all (\<lambda>p. phi_id p < N \<and> list_all (value_below N \<circ> snd) (phi_in p)) (bb_phis b)"
    using assms(4) by (simp_all add: block_below_def)
  let ?R = "\<lambda>x y. env_eq N x y \<and> exec_term w args (bb_term b) x = exec_term w args (built ?T n) y"
  have emit: "hw_sim ?R (returnM x) (exec_insts w args (emitted ?T n) y)" if xy: "env_eq N x y" for x y
    unfolding rsim_def
  proof (intro allI impI)
    fix s t :: "'a kstate"
    assume "dormant_pair s t"
    then have st: "dormant s" "dormant t" "same_but_hw s t" by (auto simp: dormant_pair_def same_but_hw_iff)
    from dormant_term [OF assms(2) below(2) assms(5) xy st(2), of w args F] st
    show "related dormant_pair same_but_hw ?R (returnM x s) (exec_insts w args (emitted ?T n) y t)"
      by (auto simp: dormant_pair_def same_but_hw_iff)
  qed
  have "hw_sim ?R (exec_insts w args (bb_insts b) e) (exec_insts w args (bb_insts b @ emitted ?T n) e')" if ee: "env_eq N e e'" for e e'
  proof -
    from rsim_bind [OF hw_sim_insts [OF assms(1,3) below(1) ee] emit]
    have "hw_sim ?R (bindM (exec_insts w args (bb_insts b) e) returnM) (exec_insts w args (bb_insts b @ emitted ?T n) e')"
      by (simp add: exec_insts_append)
    moreover have "bindM m returnM = m" for m :: "('a, env) kop" by (simp add: fun_eq_iff bindM_apply split: outcome.split)
    ultimately show ?thesis by simp
  qed
  then show ?thesis using below(3) by (simp add: block_rsim_def spec_visits_block)
qed

lemma spec_blocks_rsim:
  assumes "calls_dormant w" and "spec_hooks LS"
  shows "list_all (\<lambda>b. list_all (instrumented_inst quiet_hook_names) (bb_insts b)) bs \<Longrightarrow> list_all (block_below N) bs \<Longrightarrow> N \<le> n \<Longrightarrow>
    list_all2 (block_rsim w args dormant_pair same_but_hw N) bs (fst (visit_blocks (KSpecEmSpecPassVisitor LS F) bs n))"
proof (induction bs arbitrary: n)
  case (Cons b bs)
  let ?V = "KSpecEmSpecPassVisitor LS F"
  have "n \<le> snd (visit_block ?V b n)"
    using visited_next_le [of "visit_inst ?V" n "bb_insts b", OF builder_KSpecEmSpecPassVisitor(1)]
      builder_next [OF builder_KSpecEmSpecPassVisitor(2) [of LS F b], of "visited_next (visit_inst ?V) (bb_insts b) n"]
    by (simp add: visit_block_eq Let_def del: builder_bind_eqs)
  with Cons spec_block_rsim [OF assms, of b N n args F] show ?case by (simp add: split_beta)
qed simp

lemma invisible_call_depth:
  assumes "spec_hooks LS" and "N \<le> n"
  shows "invisible w args (quiet_run w P h) N (emitted (emitCallDepthHook LS F) n)"
  using assms cast_cases [of "Fun (fun_name F) (fun_type F)" i8ptr n]
  by (auto simp: emitCallDepthHook_def CreatePointerCast_def spec_hooks_def
      intro!: invisible_append [of _ _ _ _ "[x]" for x, simplified] invisible_call invisible_bitcast)

text \<open>The same result, or the same failure, in states that differ in the registers only.\<close>

definition upto_hw :: "('c kstate, 'a) outcome \<Rightarrow> ('c kstate, 'a) outcome \<Rightarrow> bool" where
  "upto_hw = related same_but_hw same_but_hw (=)"

lemma upto_hw_refl [simp]: "upto_hw x x"
  by (cases x) (simp_all add: upto_hw_def)

lemma call_depth_same:
  assumes "spec_hooks LS" and "fun_below F" and "list_all (\<lambda>b. list_all (keeps_inst w P) (bb_insts b)) (fun_blocks F)" and "quiet_run w P True s"
  shows "run_function n w (insert_call_depth LS F) args s = run_function n w F args s"
proof (cases "fun_blocks F")
  case (Cons bb rest)
  obtain bb' n' where i: "insert_at_front (emitCallDepthHook LS F) bb (fun_next F) = (bb', n')" by fastforce
  from front_quiet [OF builder_emitCallDepthHook invisible_call_depth [OF assms(1) order_refl] Cons assms(3,2,4) i]
  show ?thesis by (simp add: insert_call_depth_def Cons i)
qed (simp add: insert_call_depth_def)

lemma spec_visitor_upto_hw:
  assumes "calls_dormant w" and "spec_hooks LS" and "fun_below F" and "all_insts (instrumented_inst quiet_hook_names) F" and "dormant s"
  shows "upto_hw (run_function n w F args s) (run_function n w (KSpecEmSpec_visitor LS m F) args s)"
proof (cases "KSpecEmSpec_visitor LS m F = F")
  case False
  let ?F = "insert_call_depth LS F"
  have F': "KSpecEmSpec_visitor LS m F = visit_function (KSpecEmSpecPassVisitor LS ?F) ?F"
    using False by (auto simp: KSpecEmSpec_visitor_def Let_def split: if_splits)
  have s: "quiet_run w dormant True s" using calls_dormant_keep [OF assms(1)] assms(5) by (simp add: quiet_run_def)
  have "list_all (\<lambda>b. list_all (keeps_inst w dormant) (bb_insts b)) (fun_blocks F)"
    using assms(4) keeps_dormant_inst [OF assms(1) instrumented_inst_mono [OF _ Un_upper1]]
    unfolding all_insts_def list_all_iff by blast
  note front = call_depth_same [OF assms(2,3) this s]
  have a: "''kspecem_hook_check_call_depth'' \<in> quiet_hook_names" by (simp add: quiet_hook_names_def)
  have "emits (instrumented_inst quiet_hook_names) (emitCallDepthHook LS F)"
    using assms(2) a unfolding emitCallDepthHook_def
    by (auto simp: spec_hooks_def intro!: emitting emits_instrumented_casts emits_instrumented_call)
  then have i: "all_insts (instrumented_inst quiet_hook_names) ?F"
    using assms(4) by (auto simp: insert_call_depth_def split: list.split prod.split intro: front_all)
  have "list_all2 (block_rsim w args dormant_pair same_but_hw (fun_next ?F)) (fun_blocks ?F) (fun_blocks (KSpecEmSpec_visitor LS m F))"
    unfolding F' using spec_blocks_rsim [OF assms(1,2), of "fun_blocks ?F" "fun_next ?F" "fun_next ?F" args ?F] i call_depth_below [OF assms(2,3)]
    by (simp add: all_insts_def fun_below_def visit_function_def split_beta)
  from run_function_rsim [OF this, of n]
  have "related dormant_pair same_but_hw (=) (run_function n w ?F args s) (run_function n w (KSpecEmSpec_visitor LS m F) args s)"
    using assms(5) by (simp add: rsim_def dormant_pair_def)
  moreover have "upto_hw x y" if "related dormant_pair same_but_hw (=) x y" for x y :: "('a kstate, nat option) outcome"
    using that by (cases x; cases y) (simp_all add: upto_hw_def dormant_pair_def)
  ultimately show ?thesis using front by simp
qed simp

section \<open>The boot\<close>

lemma makes_upto_hw:
  assumes "calls_dormant w" and "dormant s" and "makes opts m p F F'" and "fun_below F" and "all_insts (instrumented_inst quiet_hook_names) F"
    and "\<not> isIn (kspecem_list opts) m F ''exception''"
  shows "upto_hw (run_function n w F args s) (run_function n w F' args s)"
    and "p \<noteq> KSpecEmSpecPass \<Longrightarrow> run_function n w F' args s = run_function n w F args s"
proof -
  have k: "all_insts (\<lambda>i. keeps_inst w dormant i \<and> checked_ok i) F"
    using assms(5) keeps_dormant_inst [OF assms(1) instrumented_inst_mono [OF _ Un_upper1]] instrumented_checked
    unfolding all_insts_def list_all_iff by blast
  show e: "run_function n w F' args s = run_function n w F args s" if "p \<noteq> KSpecEmSpecPass"
    using calls_dormant_keep [OF assms(1)] assms(2) by (intro makes_same_run [OF assms(3) that assms(4) k assms(6)]) simp_all
  have "upto_hw (run_function n w F args s) (run_function n w (KSpecEmSpec_visitor LS m G) args s)" if "spec_hooks LS" "same_code F G" for LS G
  proof -
    have "run_function n w G args s = run_function n w F args s" "fun_below G" "all_insts (instrumented_inst quiet_hook_names) G"
      using that(2) assms(4,5) by (cases "fun_blocks F"; auto simp: same_code_def run_function_def fun_below_def all_insts_def)+
    with spec_visitor_upto_hw [OF assms(1) that(1) _ _ assms(2), of G n args m] show ?thesis by simp
  qed
  then show "upto_hw (run_function n w F args s) (run_function n w F' args s)"
    using assms(3) e by (cases "p = KSpecEmSpecPass") (auto split: if_splits)
qed

lemma passes_make_upto_hw:
  assumes "calls_dormant w" and "dormant s"
  shows "passes_make opts m ps F F' \<Longrightarrow> count_list ps KSpecEmSpecPass \<le> 1 \<Longrightarrow> fun_below F \<Longrightarrow> all_insts (instrumented_inst quiet_hook_names) F \<Longrightarrow>
    \<not> isIn (kspecem_list opts) m F ''exception'' \<Longrightarrow> upto_hw (run_function n w F args s) (run_function n w F' args s)"
proof (induction ps arbitrary: F)
  case (Cons p ps)
  then obtain G where G: "makes opts m p F G" "passes_make opts m ps G F'" by auto
  have x: "\<not> isIn (kspecem_list opts) m G ''exception''" using Cons.prems(5) isIn_name [OF makes_name [OF G(1)]] by simp
  note step = makes_upto_hw [OF assms G(1) Cons.prems(3,4,5), of n args]
  show ?case
  proof (cases "p = KSpecEmSpecPass")
    case True
    let ?fs = "quiet_hook_names \<union> checkpoint_hook_names"
    have "all_insts (instrumented_inst ?fs) F"
      using Cons.prems(4) instrumented_inst_mono [OF _ Un_upper1] unfolding all_insts_def list_all_iff by blast
    then have i: "fun_below G \<and> all_insts (instrumented_inst ?fs) G"
      using Cons.prems(3) by (intro makes_instrumented [OF G(1)]) auto
    have "KSpecEmSpecPass \<notin> set ps" using Cons.prems(2) True by (simp add: count_list_0_iff)
    then have "run_function n w F' args s = run_function n w G args s"
      using passes_make_same_run [of w dormant s ?fs opts m ps G F' n args] calls_dormant_keep [OF assms(1)] assms
        keeps_dormant_inst [OF assms(1)] G(2) i x by blast
    with step(1) show ?thesis by simp
  next
    case False
    then have "fun_below G \<and> all_insts (instrumented_inst quiet_hook_names) G"
      using Cons.prems(3,4) by (intro makes_instrumented [OF G(1)]) auto
    with Cons.IH [OF G(2)] Cons.prems(2) x step(2) [OF False] False show ?thesis by simp
  qed
qed simp


section \<open>An example\<close>

text \<open>The function with a branch of \<open>KInsertedCode\<close>, fully instrumented, in the state at boot.\<close>

definition demo_branch_module :: ir_module where
  "demo_branch_module = \<lparr>mod_name = ''vmlinux.o'', mod_funs = [demo_branch]\<rparr>"

definition demo_boot :: "machine kstate" where
  "demo_boot = boot_state (\<lambda>_. 1) (\<lambda>_. 0) plain_machine"

lemma demo_boot_dormant: "dormant demo_boot"
  by (simp add: dormant_def quiet_def demo_boot_def boot_state_def)

lemma demo_world_dormant: "calls_dormant demo_world"
  by (simp add: calls_dormant_def demo_world_def plain_kernel_ok rsim_return)

lemma demo_branch_run: "run_function 2 demo_world demo_branch (\<lambda>_. 3) demo_boot = Ret None demo_boot"
  by (simp add: run_function_def demo_branch_def numeral_2_eq_2 bindM_apply exec_inst_def exec_op_def exec_term_def exec_phis_def Let_def)


end
