(* ===== verification/KInstrumented.thy ===== *)
theory KInstrumented
  imports KTransparent
begin

text \<open>
  Instrumented code during a speculation. What a function with the hooks of
  \<open>passes/kspecem/KSpecEm.cpp\<close> does until it returns is a sequence of the steps of \<open>KSpeculation\<close>: each
  of its stores is logged before it happens, and it does not get past a call the passes know nothing about.
\<close>

section \<open>A hook that returns has logged\<close>

text \<open>The log is set up; it may be full.\<close>

definition spec_ready :: "'c kstate \<Rightarrow> bool" where
  "spec_ready s \<longleftrightarrow> kspecem_init_done s \<and> log_ready s 0"

lemma spec_ready_in_spec: "spec_ready s \<Longrightarrow> kspecem_in_speculative_emulation s"
  by (simp add: spec_ready_def log_ready_def)

lemma write_wl_aligned_returns:
  assumes "log_ready s 0" and "loggable k s g" and "write_wl_aligned rst k st g s = Ret () t"
  shows "log_ready s 1"
proof (rule ccontr)
  assume "\<not> log_ready s 1"
  with assms(1) have p: "unat (kspecem_wl_position s) = 131072" by (auto simp: log_ready_def)
  then have "kspecem_wl_position s = WRITELOG_MAXLEN * 2"
    by (simp add: word_unat_eq_iff WRITELOG_MAXLEN_def)
  then have full: "wl_addrs_end s \<le> addr_slot s" by (simp add: wl_addrs_end_def addr_slot_def)
  have s: "kspecem_in_speculative_emulation s" using assms(1) by (simp add: log_ready_def)
  have "kspecem_restart k st 0 KSPECEM_RESTART_WRITELOG_FULL 0 0 0 s \<noteq> Ret x u" for x u
    using hoareD_Ret [OF restart_no_return [of KSPECEM_RESTART_WRITELOG_FULL k st 0 0 0] s] by auto
  with assms(1,3) full show False
    by (auto simp: write_wl_aligned_def run_simps thenM_apply lt_assert_ok whenM_apply log_ready_def ignoreM_apply
        split: outcome.splits)
qed

lemma log_ready_back: "log_ready s 1 \<Longrightarrow> log_ready (logged st g s) n \<Longrightarrow> log_ready s (Suc n)"
  using unat_position_Suc [of s] by (simp add: log_ready_def logged_def Let_def)

lemma log_ready_fold_back:
  "log_ready s (length gs) \<Longrightarrow> log_ready (fold (logged st) gs s) n \<Longrightarrow> log_ready s (length gs + n)"
proof (induction gs arbitrary: s)
  case (Cons g gs)
  from Cons.prems(1) have r: "log_ready s 1" "log_ready (logged st g s) (length gs)"
    by (auto intro: log_ready_mono simp: log_ready_logged)
  from Cons.IH [OF r(2)] Cons.prems(2) have "log_ready (logged st g s) (length gs + n)" by simp
  from log_ready_back [OF r(1) this] show ?case by simp
qed simp

lemma write_wl_returns:
  assumes "log_ready s 0" and "\<forall>g \<in> set (granules a). loggable k s g" and "kspecem_write_wl rst k st a s = Ret () t"
  shows "log_ready s (length (granules a))"
proof (cases "a = align8 a")
  case True
  with assms show ?thesis
    using write_wl_aligned_returns [of s k a rst st t]
    by (simp add: kspecem_write_wl.simps [of rst k st a] granules_def thenM_apply)
next
  case False
  let ?b = "align8 a + 8"
  obtain s1 where 1: "write_wl_aligned rst k st ?b s = Ret () s1" "write_wl_aligned rst k st (align8 a) s1 = Ret () t"
    using assms(3) False
    by (auto simp: kspecem_write_wl.simps [of rst k st a] kspecem_write_wl.simps [of rst k st ?b] thenM_apply split: outcome.splits)
  have l: "loggable k s ?b" "loggable k s (align8 a)" using assms(2) False by (simp_all add: granules_def)
  have r: "log_ready s 1" by (rule write_wl_aligned_returns [OF assms(1) l(1) 1(1)])
  with write_wl_aligned_logs [OF this l(1), of rst st] 1(1) have s1: "s1 = logged st ?b s" by simp
  have "log_ready s1 1"
    using 1(2) l(2) log_ready_logged [of s 0 st ?b] r unfolding s1
    by (intro write_wl_aligned_returns [where k = k and g = "align8 a"]) simp_all
  from log_ready_back [OF r this [unfolded s1]] False show ?thesis by (simp add: granules_def)
qed

lemma memcpy_loop_returns:
  assumes "log_ready s 0" and "\<forall>g \<in> set (concat (map granules (copy_regs n reg end))). loggable k s g"
    and "memcpy_loop rst k st n reg end s = Ret () t"
  shows "log_ready s (length (concat (map granules (copy_regs n reg end))))"
  using assms
proof (induction n arbitrary: reg s)
  case (Suc n)
  show ?case
  proof (cases "reg < end")
    case True
    let ?gs = "concat (map granules (copy_regs n (reg + 8) end))"
    obtain s1 where 1: "kspecem_write_wl rst k st reg s = Ret () s1" "memcpy_loop rst k st n (reg + 8) end s1 = Ret () t"
      using Suc.prems(3) True by (auto simp: thenM_apply split: outcome.splits)
    have l: "\<forall>g \<in> set (granules reg). loggable k s g" "\<forall>g \<in> set ?gs. loggable k s g" using Suc.prems(2) True by auto
    have r: "log_ready s (length (granules reg))" by (rule write_wl_returns [OF Suc.prems(1) l(1) 1(1)])
    with kspecem_write_wl_logs [OF this l(1), of rst st] 1(1) have s1: "s1 = fold (logged st) (granules reg) s" by simp
    have "log_ready s1 (length ?gs)"
      using 1(2) l(2) fold_logged(1) [of s "granules reg" 0 st] fold_logged(3) [of s "granules reg" 0 k st] r
      by (intro Suc.IH) (simp_all add: s1)
    from log_ready_fold_back [OF r this [unfolded s1]] True show ?thesis by simp
  qed (use Suc.prems in simp)
qed (use assms in simp)

text \<open>So the hooks before a store and a copy return only when they have logged it.\<close>

lemma hook_store_returns:
  assumes "spec_ready s" and "\<forall>g \<in> set (granules a). loggable k s g" and "kspecem_hook_store k st sta a s = Ret () t"
  shows "log_ready s (length (granules a))"
proof -
  let ?s = "s\<lparr>kspecem_is_in_rt := True, cpu := quiet_cpu k (cpu s)\<rparr>"
  have "kspecem_writelog_enabled s" "kspecem_init_done s" using assms(1) by (simp_all add: spec_ready_def log_ready_def)
  with assms(3) obtain t' where "kspecem_write_wl (assert_restart k sta) k st a ?s = Ret () t'"
    by (auto simp: kspecem_hook_store_def kspecem_store_def whenM_apply CHECK_KSPECEM_INIT_def ifM_apply bindM_apply
        enter_nonmi_eq thenM_apply split: outcome.splits)
  from write_wl_returns [OF _ _ this] assms(1,2) show ?thesis by (simp add: spec_ready_def)
qed

lemma hook_memcpy_returns:
  assumes "spec_ready s" and "\<forall>g \<in> set (memcpy_granules a sz). loggable k s g" and "kspecem_hook_memcpy k st sta a sz s = Ret () t"
  shows "log_ready s (length (memcpy_granules a sz))"
proof -
  let ?s = "s\<lparr>kspecem_is_in_rt := True, cpu := stop_nmi k (quiet_cpu k (cpu s))\<rparr>"
  have "kspecem_writelog_enabled s" "kspecem_init_done s" using assms(1) by (simp_all add: spec_ready_def log_ready_def)
  with assms(3) obtain t' where "kspecem_memcpy (assert_restart k sta) k st a sz ?s = Ret () t'"
    by (auto simp: kspecem_hook_memcpy_def whenM_apply CHECK_KSPECEM_INIT_def ifM_apply bindM_apply
        enter_eq thenM_apply split: outcome.splits)
  from memcpy_loop_returns [OF _ _ this [unfolded kspecem_memcpy_def]] assms(1,2) show ?thesis
    by (simp add: spec_ready_def memcpy_granules_def)
qed

lemma spec_ready_simps [simp]:
  "spec_ready (s\<lparr>spec_stats := x2\<rparr>) = spec_ready s" "spec_ready (s\<lparr>kspecem_is_in_restart := x3\<rparr>) = spec_ready s"
  "spec_ready (s\<lparr>kspecem_is_in_rt := x3\<rparr>) = spec_ready s" "spec_ready (s\<lparr>kspecem_spec_call_depth := x4\<rparr>) = spec_ready s"
  "spec_ready (s\<lparr>cpu := x5\<rparr>) = spec_ready s" "spec_ready (s\<lparr>kspecem_total_statistics := x11\<rparr>) = spec_ready s"
  "spec_ready (s\<lparr>inlineasm := x12\<rparr>) = spec_ready s" "spec_ready (s\<lparr>mem := x13\<rparr>) = spec_ready s"
  "spec_ready (s\<lparr>kspecem_spec_assert := x14\<rparr>) = spec_ready s"
  "spec_ready (s\<lparr>kspecem_speculative_instr_count := x15\<rparr>) = spec_ready s" "spec_ready (s\<lparr>hw := x16\<rparr>) = spec_ready s"
  "spec_ready (s\<lparr>kspecem_swap_branch_condition := x17\<rparr>) = spec_ready s"
  by (simp_all add: spec_ready_def log_ready_def)

lemma spec_ready_logged:
  assumes "spec_ready s" and "log_ready s (length gs)"
  shows "spec_ready (store_logged st gs s)"
  using assms fold_logged(1) [of s gs 0 st] by (simp add: spec_ready_def store_logged_def log_of_def log_ready_def)

lemma keeps_ready_runtime [keeps_rules]:
  "keeps spec_ready R (add_spec_statistics f a b c r)" "keeps spec_ready R (add_restart_to_statistics ty ca)"
  "keeps spec_ready (\<lambda>_. True) (kspecem_restart k st 0 ty ca fa regs)"
  "keeps spec_ready R (ENTER_KSPECEM_RT k)" "keeps spec_ready R (ENTER_KSPECEM_NONMI_RT k)"
  "keeps spec_ready R rst \<Longrightarrow> keeps spec_ready R (LEAVE_KSPECEM_RT rst k file l fl)"
  "keeps spec_ready R rst \<Longrightarrow> keeps spec_ready R (LEAVE_KSPECEM_NONMI_RT rst k file l fl)"
proof -
  show st: "keeps spec_ready R (add_spec_statistics f a b c r)" "keeps spec_ready R (add_restart_to_statistics ty ca)"
    for R f a b c r ty ca
    by (auto simp: keeps_def hoare_def add_spec_statistics_def add_restart_to_statistics_def split: option.splits)
  show "keeps spec_ready (\<lambda>_. True) (kspecem_restart k st 0 ty ca fa regs)"
    unfolding kspecem_restart_def kspecem_restart_with_def by (intro keeps_rules st) simp_all
  show "keeps spec_ready R (ENTER_KSPECEM_RT k)" "keeps spec_ready R (ENTER_KSPECEM_NONMI_RT k)"
    "keeps spec_ready R rst \<Longrightarrow> keeps spec_ready R (LEAVE_KSPECEM_RT rst k file l fl)"
    "keeps spec_ready R rst \<Longrightarrow> keeps spec_ready R (LEAVE_KSPECEM_NONMI_RT rst k file l fl)"
    unfolding ENTER_KSPECEM_RT_def ENTER_KSPECEM_NONMI_RT_def LEAVE_KSPECEM_RT_def LEAVE_KSPECEM_NONMI_RT_def
      kspecem_set_rt_def kspecem_unset_rt_def
    by (intro keeps_rules; simp)+
qed

lemma keeps_ready_restart [keeps_rules]:
  "keeps spec_ready (\<lambda>_. True) (kspecem_hook_restart k st 0 ty ca)" "keeps spec_ready (\<lambda>_. True) (assert_restart k sta)"
  unfolding assert_restart_def kspecem_hook_restart_def kspecem_hook_restart_with_def CHECK_KSPECEM_INIT_def
  by (intro keeps_rules)+

lemma keeps_ready_hooks:
  "keeps spec_ready (\<lambda>_. True) (kspecem_hook_check_spec_length k st sta n)"
  "keeps spec_ready (\<lambda>_. True) (kspecem_hook_check_call_depth k st sta)"
  "keeps spec_ready (\<lambda>_. True) (kspecem_hook_access k sta ptr sz)"
  "keeps spec_ready (\<lambda>_. True) (swapCondition b)"
  unfolding kspecem_hook_check_spec_length_def kspecem_hook_check_call_depth_def kspecem_hook_access_def swapCondition_def
    kspecem_access_def CHECK_KSPECEM_INIT_def CHECK_KSPECEM_RT_def CHECK_KDFINIT_RT_def CHECK_KDFSAN_RT_def lt_panic_def
  by (intro keeps_rules; simp)+

lemma restart_stops:
  assumes "spec_ready s" and "ty \<noteq> KSPECEM_RESTART_RETURN"
  shows "kspecem_hook_restart k st 0 ty ca s \<noteq> Ret x t"
proof -
  have "kspecem_init_done s" "kspecem_in_speculative_emulation s" using assms(1) by (simp_all add: spec_ready_def log_ready_def)
  moreover have "kspecem_restart k st 0 ty ca 0 0 u \<noteq> Ret y v" if "kspecem_in_speculative_emulation u" for u y v
    using hoareD_Ret [OF restart_no_return [OF assms(2), of k st ca 0 0] that] by auto
  ultimately show ?thesis
    by (auto simp: kspecem_hook_restart_def kspecem_hook_restart_with_def CHECK_KSPECEM_INIT_def ifM_apply bindM_apply enter_eq
        split: outcome.splits)
qed

text \<open>The hooks do not move the log.\<close>

definition log_at :: "addr \<Rightarrow> addr \<Rightarrow> 'c kstate \<Rightarrow> bool" where
  "log_at x y s \<longleftrightarrow> kspecem_init_done s \<and> kspecem_in_speculative_emulation s
     \<and> kspecem_writelog_addrs s = x \<and> kspecem_writelog_data s = y"

lemma log_at_simps [simp]:
  "log_at x y (s\<lparr>kspecem_is_in_rt := b\<rparr>) = log_at x y s" "log_at x y (s\<lparr>cpu := c\<rparr>) = log_at x y s"
  "log_at x y (s\<lparr>kspecem_spec_assert := v\<rparr>) = log_at x y s"
  by (simp_all add: log_at_def)

lemma keeps_log_at_restarts:
  "keeps (log_at x y) (\<lambda>_. True) (kspecem_restart k st 0 KSPECEM_RESTART_WRITELOG_FULL 0 0 0)"
  "keeps (log_at x y) (\<lambda>_. True) (assert_restart k sta)"
proof -
  have stop: "ty \<noteq> 0 \<Longrightarrow> log_at x y s \<Longrightarrow> kspecem_restart k st' 0 ty ca 0 0 s \<noteq> Ret r t" for ty ca s r t st'
    using hoareD_Ret [OF restart_no_return [of ty k st' ca 0 0], of s r t] by (auto simp: log_at_def)
  show "keeps (log_at x y) (\<lambda>_. True) (kspecem_restart k st 0 KSPECEM_RESTART_WRITELOG_FULL 0 0 0)"
    using stop [of KSPECEM_RESTART_WRITELOG_FULL] by (auto simp: keeps_def hoare_def split: outcome.split)
  have "kspecem_hook_restart k sta 0 0xffff 0 s \<noteq> Ret r t" if "log_at x y s" for s r t
    using stop [of "0xffff" "s\<lparr>kspecem_is_in_rt := True, cpu := stop_nmi k (quiet_cpu k (cpu s))\<rparr>" sta 0] that
    by (auto simp: kspecem_hook_restart_def kspecem_hook_restart_with_def CHECK_KSPECEM_INIT_def ifM_apply bindM_apply enter_eq
        log_at_def split: outcome.splits)
  then show "keeps (log_at x y) (\<lambda>_. True) (assert_restart k sta)"
    by (auto simp: keeps_def hoare_def assert_restart_def ignoreM_apply split: outcome.split)
qed

lemma keeps_log_at_write: "keeps (log_at x y) (\<lambda>_. True) (kspecem_write_wl (assert_restart k sta) k st a)"
proof -
  have p: "keeps (log_at x y) (\<lambda>_. True) (push_entry st g)" for g
    by (auto simp: keeps_def hoare_def push_entry_def log_at_def Let_def)
  have w: "keeps (log_at x y) (\<lambda>_. True) (write_wl_aligned (assert_restart k sta) k st g)" for g
    unfolding write_wl_aligned_def by (intro keeps_rules keeps_log_at_restarts p) simp_all
  have "keeps (log_at x y) (\<lambda>_. True) (kspecem_write_wl (assert_restart k sta) k st (align8 a + 8))"
    unfolding kspecem_write_wl.simps [of "assert_restart k sta" k st "align8 a + 8"] by (simp add: keeps_then keeps_return w)
  then show ?thesis
    unfolding kspecem_write_wl.simps [of "assert_restart k sta" k st a] by (intro keeps_then keeps_if keeps_return w)
qed

lemma keeps_log_at_hooks:
  "keeps (log_at x y) (\<lambda>_. True) (kspecem_hook_store k st sta a)"
  "keeps (log_at x y) (\<lambda>_. True) (kspecem_hook_memcpy k st sta a sz)"
proof -
  have l: "keeps (log_at x y) (\<lambda>_. True) (memcpy_loop (assert_restart k sta) k st n reg end)" for n reg "end"
    by (induction n arbitrary: reg) (simp_all add: keeps_fault keeps_return keeps_then keeps_log_at_write)
  show "keeps (log_at x y) (\<lambda>_. True) (kspecem_hook_store k st sta a)"
    "keeps (log_at x y) (\<lambda>_. True) (kspecem_hook_memcpy k st sta a sz)"
    unfolding kspecem_hook_store_def kspecem_hook_memcpy_def kspecem_store_def kspecem_memcpy_def CHECK_KSPECEM_INIT_def
      ENTER_KSPECEM_RT_def LEAVE_KSPECEM_RT_def ENTER_KSPECEM_NONMI_RT_def LEAVE_KSPECEM_NONMI_RT_def kspecem_set_rt_def kspecem_unset_rt_def
    by (intro keeps_rules keeps_log_at_restarts keeps_log_at_write l; simp)+
qed

lemma hook_loggable:
  assumes "spec_ready s" and "kspecem_hook_store k st sta a s = Ret () t \<or> kspecem_hook_memcpy k st sta a sz s = Ret () t"
  shows "loggable k t = loggable k s"
proof -
  have "log_at (kspecem_writelog_addrs s) (kspecem_writelog_data s) s" using assms(1) by (simp add: log_at_def spec_ready_def log_ready_def)
  with assms(2) keeps_log_at_hooks [of "kspecem_writelog_addrs s" "kspecem_writelog_data s" k st sta a]
  have "log_at (kspecem_writelog_addrs s) (kspecem_writelog_data s) t" unfolding keeps_def by (blast dest: hoareD_Ret)
  then show ?thesis by (simp add: fun_eq_iff log_at_def loggable_def wl_addrs_end_def wl_data_end_def)
qed

section \<open>Steps\<close>

text \<open>What comes back from \<open>m\<close> comes back after steps of a speculation.\<close>

definition steps :: "'c kernel \<Rightarrow> ('c, 'a) kop \<Rightarrow> bool" where
  "steps k m \<longleftrightarrow> (\<forall>s x t. spec_ready s \<longrightarrow> m s = Ret x t \<longrightarrow> (spec_step k)\<^sup>*\<^sup>* s t \<and> spec_ready t)"

lemma stepsD: "steps k m \<Longrightarrow> spec_ready s \<Longrightarrow> m s = Ret x t \<Longrightarrow> (spec_step k)\<^sup>*\<^sup>* s t \<and> spec_ready t"
  by (simp add: steps_def)

lemma steps_return: "steps k (returnM x)" and steps_get: "steps k (getM f)"
  by (simp_all add: steps_def)

lemma steps_bind: "steps k m \<Longrightarrow> (\<And>x. steps k (f x)) \<Longrightarrow> steps k (bindM m f)"
  unfolding steps_def
proof (intro allI impI)
  fix s y t
  assume m: "\<forall>s x t. spec_ready s \<longrightarrow> m s = Ret x t \<longrightarrow> (spec_step k)\<^sup>*\<^sup>* s t \<and> spec_ready t"
    and f: "\<And>x. \<forall>s y t. spec_ready s \<longrightarrow> f x s = Ret y t \<longrightarrow> (spec_step k)\<^sup>*\<^sup>* s t \<and> spec_ready t"
    and s: "spec_ready s" and r: "bindM m f s = Ret y t"
  from r obtain x u where "m s = Ret x u" "f x u = Ret y t" by (auto simp: bindM_apply split: outcome.splits)
  with m f s show "(spec_step k)\<^sup>*\<^sup>* s t \<and> spec_ready t" by (meson rtranclp_trans)
qed

lemma steps_never: "(\<And>s x t. spec_ready s \<Longrightarrow> m s \<noteq> Ret x t) \<Longrightarrow> steps k m"
  by (auto simp: steps_def)

lemma steps_one: "(\<And>s x t. m s = Ret x t \<Longrightarrow> spec_step k s t) \<Longrightarrow> keeps spec_ready (\<lambda>_. True) m \<Longrightarrow> steps k m"
  unfolding steps_def keeps_def by (blast dest: hoareD_Ret)

lemma steps_restart: "steps k (kspecem_hook_restart k st 0 ty ca)"
  by (rule steps_one [OF spec_step.return keeps_ready_restart(1)])

lemma steps_hooks:
  "steps k (kspecem_hook_check_spec_length k st sta n)" "steps k (kspecem_hook_check_call_depth k st sta)"
  "steps k (kspecem_hook_access k sta ptr sz)" "steps k (swapCondition b)"
  by (rule steps_one [OF spec_step.block keeps_ready_hooks(1)] steps_one [OF spec_step.call keeps_ready_hooks(2)]
      steps_one [OF spec_step.access keeps_ready_hooks(3)] steps_one [OF spec_step.branch keeps_ready_hooks(4)]; simp)+

text \<open>
  What is known of the calls: a function of the kernel is instrumented itself, and assembly that is
  on the list of \<open>asm_no_restart\<close> only changes registers.
\<close>

definition calls_steps :: "'c world \<Rightarrow> bool" where
  "calls_steps w \<longleftrightarrow> kernel_ok (kern w) \<and> (\<forall>f xs. steps (kern w) (known_call w f xs))
     \<and> (\<forall>a xs. a = [] \<or> asm_no_restart a False \<longrightarrow> steps (kern w) (asm_call w a xs))"

lemma asm_no_restart_mono: "asm_no_restart a m \<Longrightarrow> asm_no_restart a False"
  by (auto simp: asm_no_restart_def)

section \<open>The program\<close>

text \<open>
  What the program may contain: stores of at most 8 bytes, which is what the store hook logs, lengths of at most 64 bits,
  and no bit cast instruction of a function (it is folded into a constant). Accesses may go through
  the hook of the page fault checker.
\<close>

definition access_call :: "ir_inst \<Rightarrow> bool" where
  "access_call i = (case inst_op i of CallInst cc f xs \<Rightarrow> callee_name f = Some ''kspecem_hook_access'' | _ \<Rightarrow> False)"

definition spec_inst :: "'c world \<Rightarrow> ir_inst \<Rightarrow> bool" where
  "spec_inst w i \<longleftrightarrow> (program_inst i \<or> access_call i) \<and> (case inst_op i of
       StoreInst v p \<Rightarrow> store_size w (type_of v) \<le> 8
     | MemIntrinsic mk d src len \<Rightarrow> int_width (type_of len) \<le> 64
     | BitCastInst (Fun f t) \<Rightarrow> False
     | _ \<Rightarrow> True)"

definition spec_fun :: "'c world \<Rightarrow> ir_function \<Rightarrow> bool" where
  "spec_fun w F \<longleftrightarrow> list_all (\<lambda>b. list_all (spec_inst w) (bb_insts b)) (fun_blocks F)"

lemma spec_fun_bitcast: "spec_fun w F \<Longrightarrow> bitcast_operand F (Inst n t) \<noteq> Some (Fun f u)"
proof
  assume F: "spec_fun w F" and "bitcast_operand F (Inst n t) = Some (Fun f u)"
  then obtain i where "find (\<lambda>i. inst_id i = n) (concat (map bb_insts (fun_blocks F))) = Some i" and i: "inst_op i = BitCastInst (Fun f u)"
    by (auto simp: bitcast_operand_def defining_inst_def split: option.splits ir_op.splits)
  then have "spec_inst w i" using F by (auto simp: find_Some_iff spec_fun_def list_all_iff dest!: nth_mem)
  with i show False by (simp add: spec_inst_def)
qed

text \<open>What its accesses may hit when they happen: nothing of the log itself, and a copy does not reach the end of the address space.\<close>

definition access_ok :: "'c world \<Rightarrow> (nat \<Rightarrow> nat) \<Rightarrow> ir_inst \<times> env \<times> 'c kstate \<Rightarrow> bool" where
  "access_ok w args = (\<lambda>(i, e, s). case inst_op i of
       StoreInst v p \<Rightarrow> list_all (loggable (kern w) s) (granules (of_nat (eval w args e p)))
     | MemIntrinsic mk d src len \<Rightarrow> eval w args e len < 2 ^ 64
         \<and> range_ok (of_nat (eval w args e d)) (of_nat (eval w args e len))
         \<and> list_all (loggable (kern w) s) (memcpy_granules (of_nat (eval w args e d)) (of_nat (eval w args e len)))
     | _ \<Rightarrow> True)"

text \<open>The instructions a run executes, each with the values and the state it finds.\<close>

primrec insts_run :: "'c world \<Rightarrow> (nat \<Rightarrow> nat) \<Rightarrow> ir_inst list \<Rightarrow> env \<Rightarrow> 'c kstate \<Rightarrow> (ir_inst \<times> env \<times> 'c kstate) list" where
  "insts_run w args [] e s = []"
| "insts_run w args (i # is) e s =
     (i, e, s) # (case exec_inst w args i e s of Ret e' t \<Rightarrow> insts_run w args is e' t | _ \<Rightarrow> [])"

lemma insts_run_append:
  "insts_run w args (is @ js) e s =
     insts_run w args is e s @ (case exec_insts w args is e s of Ret e' t \<Rightarrow> insts_run w args js e' t | _ \<Rightarrow> [])"
  by (induction "is" arbitrary: e s) (auto simp: bindM_apply split: outcome.split)

section \<open>Restarts\<close>

lemma exec_restart_call:
  assumes "kspecem_hooks L"
  shows "exec_op w args e \<lparr>inst_id = n, inst_ty = t, inst_op = CallInst cc (restartHook L) [ConstNull u, ConstInt 32 ty, v], is_asan_instr = False\<rparr> =
    bindM (kspecem_hook_restart (kern w) (site_at w n) 0 (int ty) (of_nat (eval w args e v))) (\<lambda>r. returnM (nat (r mod 2 ^ 32)))"
  using assms by (simp add: kspecem_hooks_def exec_op_def call_value_def call_function_hooks argn_def Let_def)

lemma exec_one: "exec_insts w args [i] e = bindM (exec_op w args e i) (\<lambda>v. returnM (e(inst_id i := v)))"
  by (simp add: fun_eq_iff exec_inst_def bindM_apply split: outcome.split)

lemma bitcast_run: "exec_insts w args (emitted (CreateBitCast v t) n) e s = Ret e' s' \<Longrightarrow> s' = s"
  using cast_cases [of v t n] by (auto simp: exec_one [unfolded exec_insts.simps] exec_op_def Let_def bindM_apply exec_inst_def)

lemma insertRestartHook_emitted:
  "emitted (insertRestartHook L ty None) n = [\<lparr>inst_id = n, inst_ty = ret_type (type_of (restartHook L)),
     inst_op = CallInst CC_C (restartHook L) [ConstNull i8ptr, ConstInt 32 ty, ConstNull i8ptr], is_asan_instr = False\<rparr>]"
  "emitted (insertRestartHook L ty (Some v)) n = emitted (CreateBitCast v i8ptr) n @
     [\<lparr>inst_id = next_id (CreateBitCast v i8ptr) n, inst_ty = ret_type (type_of (restartHook L)),
       inst_op = CallInst CC_C (restartHook L) [ConstNull i8ptr, ConstInt 32 ty, built (CreateBitCast v i8ptr) n], is_asan_instr = False\<rparr>]"
  by (simp_all add: insertRestartHook_def CreatePointerCast_def)

lemma steps_insertRestartHook:
  assumes "kspecem_hooks L"
  shows "steps (kern w) (exec_insts w args (emitted (insertRestartHook L ty v) n) e)"
proof -
  have "steps (kern w) (exec_insts w args (emitted (CreateBitCast x i8ptr) n) e)" for x
    using bitcast_run unfolding steps_def by blast
  then show ?thesis
    by (cases v) (auto simp: insertRestartHook_emitted exec_insts_append exec_one exec_restart_call [OF assms]
        simp del: exec_insts.simps intro!: steps_bind steps_restart steps_return)
qed

lemma insertRestartHook_stops:
  assumes "kspecem_hooks L" and "ty \<noteq> 0" and "spec_ready s"
  shows "exec_insts w args (emitted (insertRestartHook L ty v) n) e s \<noteq> Ret e' t"
proof -
  have "int ty \<noteq> KSPECEM_RESTART_RETURN" using assms(2) by simp
  note stop = restart_stops [OF assms(3) this]
  show ?thesis
  proof (cases v)
    case None
    with stop show ?thesis
      by (auto simp: insertRestartHook_emitted exec_one exec_restart_call [OF assms(1)] bindM_apply simp del: exec_insts.simps split: outcome.splits)
  next
    case (Some x)
    with stop bitcast_run [of w args x i8ptr n e s] show ?thesis
      by (auto simp: insertRestartHook_emitted exec_insts_append exec_one exec_restart_call [OF assms(1)] bindM_apply
          simp del: exec_insts.simps split: outcome.splits)
  qed
qed

section \<open>Stores and copies\<close>

text \<open>What is shared by a store and a copy: the hook, then the write.\<close>

lemma store_steps:
  assumes "inst_op i = StoreInst v p" and "spec_inst w i" and "inst_below N i" and "N \<le> n" and "kspecem_hooks L"
    and "\<not> startswith (fun_name F) ''kspecem_''" and "kernel_ok (kern w)" and "spec_ready s"
    and "exec_insts w args (emitted (visitStoreInst L F p) n @ [i]) e s = Ret e' t"
    and "list_all (access_ok w args) (insts_run w args (emitted (visitStoreInst L F p) n @ [i]) e s)"
  shows "(spec_step (kern w))\<^sup>*\<^sup>* s t \<and> spec_ready t"
proof -
  let ?a = "of_nat (eval w args e p) :: addr" and ?k = "kern w"
  let ?bs = "bytes_of_nat (store_size w (type_of v))"
  have p: "value_below N p" "value_below N v" "\<not> runtime_global p" "store_size w (type_of v) \<le> 8"
    using assms(1-3) by (simp_all add: inst_below_def spec_inst_def program_inst_def access_call_def)
  let ?e = "e(n := eval w args e p, n + 1 := 0)"
  have ev: "eval w args ?e p = eval w args e p" "eval w args ?e v = eval w args e v"
    using p assms(4) by (auto intro!: eval_env_eq [where N = N, symmetric])
  have code: "emitted (visitStoreInst L F p) n = [\<lparr>inst_id = n, inst_ty = i8ptr, inst_op = BitCastInst p, is_asan_instr = False\<rparr>,
      \<lparr>inst_id = n + 1, inst_ty = VoidTy, inst_op = CallInst CC_Fast (storeInstHook L) [Inst n i8ptr], is_asan_instr = False\<rparr>]"
    using assms(6) by (simp add: visitStoreInst_def)
  have hook: "storeInstHook L = Fun ''kspecem_hook_store'' (FunTy VoidTy [i8ptr])" using assms(5) by (simp add: kspecem_hooks_def)
  have run: "exec_insts w args (emitted (visitStoreInst L F p) n) e s =
      (case kspecem_hook_store ?k (site_at w (n + 1)) (assert_site_at w (n + 1)) ?a s of
         Ret u t \<Rightarrow> Ret ?e t | Resume t \<Rightarrow> Resume t | Panic x t \<Rightarrow> Panic x t | Fault x t \<Rightarrow> Fault x t)"
    by (simp add: code hook exec_inst_def exec_op_def call_value_def call_function_hooks argn_def void_def bindM_apply Let_def
        split: outcome.split)
  with assms(9) obtain s1 where 1: "kspecem_hook_store ?k (site_at w (n + 1)) (assert_site_at w (n + 1)) ?a s = Ret () s1"
    by (auto simp: exec_insts_append bindM_apply split: outcome.splits)
  have t: "t = s1\<lparr>mem := write_bytes (mem s1) ?a (?bs (eval w args e v))\<rparr>"
    using assms(1,9) run 1 ev p(3)
    by (auto simp: exec_insts_append exec_one exec_op_def access_program_memory void_def bindM_apply Let_def simp del: exec_insts.simps)
  have "list_all (loggable ?k s1) (granules ?a)"
    using assms(1,10) run 1 ev by (simp add: insts_run_append access_ok_def)
  then have l: "\<forall>g \<in> set (granules ?a). loggable ?k s g"
    using hook_loggable [OF assms(8) disjI1 [OF 1]] by (simp add: list_all_iff)
  have r: "log_ready s (length (granules ?a))" by (rule hook_store_returns [OF assms(8) l 1])
  have "s1 = store_logged (site_at w (n + 1)) (granules ?a) s"
    using 1 kspecem_hook_store_eq [OF assms(7) _ r l, of "site_at w (n + 1)" "assert_site_at w (n + 1)"] assms(8) by (simp add: spec_ready_def)
  then have "spec_ready t" using spec_ready_logged [OF assms(8) r] by (simp add: t)
  moreover have "spec_step ?k s t"
    unfolding t using p(4) by (intro spec_step.store [OF 1 assms(7) r l]) (simp add: bytes_of_nat_def)
  ultimately show ?thesis by blast
qed

lemma zext_run:
  assumes "value_below n len" and "m = CreateZExt len 64 \<or> m = State_Monad.return len"
  obtains e' where "exec_insts w args (emitted m n) e s = Ret e' s" and "env_eq n e e'"
    and "eval w args e' (built m n) = eval w args e len"
proof (cases "emitted m n = []")
  case True
  with assms show thesis by (intro that [of e]) (auto simp: CreateZExt_def split: ir_value.splits)
next
  case False
  with assms show thesis
    by (intro that [of "e(n := eval w args e len)"])
      (auto simp: CreateZExt_def exec_inst_def exec_op_def bindM_apply Let_def split: ir_value.splits)
qed

lemma copy_hook_run:
  assumes "kspecem_hooks L" and "\<not> startswith (fun_name F) ''kspecem_''" and "pointer_size_in_bits (layout L) = 64"
    and "int_width (type_of len) \<le> 64" and "value_below N len" and "N \<le> n"
  obtains h e1 where "env_eq N e e1" and "exec_insts w args (emitted (visitMemIntrinsic L F d len) n) e s =
      (case kspecem_hook_memcpy (kern w) (site_at w h) (assert_site_at w h) (of_nat (eval w args e d)) (of_nat (eval w args e len)) s of
         Ret u t \<Rightarrow> Ret e1 t | Resume t \<Rightarrow> Resume t | Panic x t \<Rightarrow> Panic x t | Fault x t \<Rightarrow> Fault x t)"
proof -
  let ?m = "if int_width (type_of len) < 64 then CreateZExt len 64 else State_Monad.return len"
  let ?h = "next_id ?m (n + 1)"
  have code: "emitted (visitMemIntrinsic L F d len) n =
      [\<lparr>inst_id = n, inst_ty = i8ptr, inst_op = BitCastInst d, is_asan_instr = False\<rparr>] @ emitted ?m (n + 1) @
      [\<lparr>inst_id = ?h, inst_ty = VoidTy, inst_op = CallInst CC_Fast (memcpyHook L) [Inst n i8ptr, built ?m (n + 1)], is_asan_instr = False\<rparr>]"
    using assms(2-4) by (simp add: visitMemIntrinsic_def)
  have hook: "memcpyHook L = Fun ''kspecem_hook_memcpy'' (FunTy VoidTy [i8ptr, IntTy 64])" using assms(1) by (simp add: kspecem_hooks_def)
  have "value_below (n + 1) len" using value_below_mono [OF assms(5)] assms(6) by simp
  then obtain e1 where 1: "exec_insts w args (emitted ?m (n + 1)) (e(n := eval w args e d)) s = Ret e1 s"
    "env_eq (n + 1) (e(n := eval w args e d)) e1" "eval w args e1 (built ?m (n + 1)) = eval w args (e(n := eval w args e d)) len"
    by (rule zext_run [where m = ?m]) auto
  have h: "n + 1 \<le> ?h" by (simp add: builder_next)
  have e1: "e1 n = eval w args e d" "eval w args e1 (built ?m (n + 1)) = eval w args e len"
    using 1(2,3) assms(5,6) by (auto simp: env_eq_def intro!: eval_env_eq [where N = N, symmetric])
  have "e j = (e1(?h := 0)) j" if "j < N" for j
    using spec [OF 1(2) [unfolded env_eq_def], of j] that h assms(6) by simp
  then have "env_eq N e (e1(?h := 0))" by (simp add: env_eq_def)
  moreover have "exec_insts w args (emitted (visitMemIntrinsic L F d len) n) e s =
      (case kspecem_hook_memcpy (kern w) (site_at w ?h) (assert_site_at w ?h) (of_nat (eval w args e d)) (of_nat (eval w args e len)) s of
         Ret u t \<Rightarrow> Ret (e1(?h := 0)) t | Resume t \<Rightarrow> Resume t | Panic x t \<Rightarrow> Panic x t | Fault x t \<Rightarrow> Fault x t)"
    using 1(1) e1
    by (simp add: code hook exec_insts_append exec_inst_def exec_op_def call_value_def call_function_hooks argn_def void_def bindM_apply Let_def
        del: if_split split: outcome.split)
  ultimately show thesis by (rule that)
qed

lemma copy_steps:
  assumes "inst_op i = MemIntrinsic mk d src len" and "spec_inst w i" and "inst_below N i" and "N \<le> n" and "kspecem_hooks L"
    and "\<not> startswith (fun_name F) ''kspecem_''" and "kernel_ok (kern w)" and "spec_ready s" and "pointer_size_in_bits (layout L) = 64"
    and "exec_insts w args (emitted (visitMemIntrinsic L F d len) n @ [i]) e s = Ret e' t"
    and "list_all (access_ok w args) (insts_run w args (emitted (visitMemIntrinsic L F d len) n @ [i]) e s)"
  shows "(spec_step (kern w))\<^sup>*\<^sup>* s t \<and> spec_ready t"
proof -
  let ?k = "kern w" and ?a = "of_nat (eval w args e d) :: addr" and ?sz = "of_nat (eval w args e len) :: u64"
  have v: "value_below N d" "value_below N src" "value_below N len" "int_width (type_of len) \<le> 64"
    using assms(1-3) by (simp_all add: inst_below_def spec_inst_def)
  obtain h e1 where e1: "env_eq N e e1" and run: "exec_insts w args (emitted (visitMemIntrinsic L F d len) n) e s =
      (case kspecem_hook_memcpy ?k (site_at w h) (assert_site_at w h) ?a ?sz s of
         Ret u t \<Rightarrow> Ret e1 t | Resume t \<Rightarrow> Resume t | Panic x t \<Rightarrow> Panic x t | Fault x t \<Rightarrow> Fault x t)"
    by (rule copy_hook_run [OF assms(5,6,9) v(4,3) assms(4), where d = d and w = w and args = args and e = e and s = s])
  have ev: "eval w args e1 x = eval w args e x" if "value_below N x" for x by (rule eval_env_eq [OF e1 that, symmetric])
  from run assms(10) obtain s1 where s1: "kspecem_hook_memcpy ?k (site_at w h) (assert_site_at w h) ?a ?sz s = Ret () s1"
    by (auto simp: exec_insts_append bindM_apply split: outcome.splits)
  have t: "t = s1\<lparr>mem := write_bytes (mem s1) ?a (copy_bytes mk (eval w args e src) (eval w args e len) (mem s1))\<rparr>"
    using assms(1,10) run s1 v(1-3)
    by (auto simp: exec_insts_append exec_one exec_op_def void_def bindM_apply Let_def ev simp del: exec_insts.simps)
  have ok: "eval w args e len < 2 ^ 64" "range_ok ?a ?sz" "list_all (loggable ?k s1) (memcpy_granules ?a ?sz)"
    using assms(1,11) run s1 v(1-3) by (simp_all add: insts_run_append access_ok_def ev)
  have l: "\<forall>g \<in> set (memcpy_granules ?a ?sz). loggable ?k s g"
    using hook_loggable [OF assms(8) disjI2 [OF s1]] ok(3) by (simp add: list_all_iff)
  have r: "log_ready s (length (memcpy_granules ?a ?sz))" by (rule hook_memcpy_returns [OF assms(8) l s1])
  have "s1 = store_logged (site_at w h) (memcpy_granules ?a ?sz) s"
    using s1 kspecem_hook_memcpy_eq [OF assms(7) _ ok(2) r l, of "site_at w h" "assert_site_at w h"] assms(8) by (simp add: spec_ready_def)
  then have "spec_ready t" using spec_ready_logged [OF assms(8) r] by (simp add: t)
  moreover have "spec_step ?k s t"
    unfolding t using ok(1)
    by (intro spec_step.copy [OF s1 assms(7) ok(2) r l]) (simp add: copy_bytes_def bytes_at_def unat_of_nat split: mem_kind.split)
  ultimately show ?thesis by blast
qed

section \<open>Calls\<close>

text \<open>The pass leaves a call alone, or makes sure that it is not reached.\<close>

lemma visitCallInst_cases:
  assumes "\<not> isIn (kspecem_functions L) M F ''nospec''" and "spec_fun w F"
  obtains g where "emitted (visitCallInst L M F f) n = []" "callee_name f = Some g"
  | a iV t where "emitted (visitCallInst L M F f) n = []" "f = InlineAsm a iV t" "a = [] \<or> asm_no_restart a False"
  | ty v where "visitCallInst L M F f = insertRestartHook L ty v" "ty \<noteq> 0"
proof (cases f)
  case (Fun g u)
  with assms(1) that(1) [of g] show ?thesis by (simp add: visitCallInst_def getCalledFunction_def)
next
  case (InlineAsm a iV t)
  show ?thesis
  proof (cases "a = [] \<or> asm_no_restart a (hasMemoryGlobber iV)")
    case True
    with InlineAsm assms(1) show ?thesis
      by (intro that(2) [of a iV t]) (auto simp: visitCallInst_def getCalledFunction_def dest: asm_no_restart_mono)
  next
    case False
    with InlineAsm assms(1) that(3) [of 3 None] show ?thesis by (simp add: visitCallInst_def getCalledFunction_def)
  qed
next
  case (ConstBitCast u t)
  show ?thesis
  proof (cases "\<exists>g v. u = Fun g v")
    case True
    with ConstBitCast assms(1) that(1) show ?thesis by (auto simp: visitCallInst_def getCalledFunction_def bitcast_operand_def)
  next
    case False
    with ConstBitCast assms(1) that(3) [of 2 "Some f"] show ?thesis
      by (auto simp: visitCallInst_def getCalledFunction_def bitcast_operand_def split: ir_value.splits)
  qed
next
  case (Inst j t)
  with assms(1) spec_fun_bitcast [OF assms(2)] that(3) [of 2 "Some f"] show ?thesis
    by (auto simp: visitCallInst_def getCalledFunction_def split: option.splits ir_value.splits)
qed (intro that(3) [of 2 "Some f"]; simp add: visitCallInst_def getCalledFunction_def bitcast_operand_def defining_inst_def assms(1))+

lemma call_steps:
  assumes "inst_op i = CallInst cc f xs" and "spec_inst w i" and "kspecem_hooks L" and "calls_steps w" and "spec_ready s"
    and "\<not> isIn (kspecem_functions L) M F ''nospec''" and "spec_fun w F"
    and "exec_insts w args (emitted (visitCallInst L M F f) n @ [i]) e s = Ret e' t"
  shows "(spec_step (kern w))\<^sup>*\<^sup>* s t \<and> spec_ready t"
proof -
  have plain: ?thesis if "emitted (visitCallInst L M F f) n = []" and "\<And>ys e. steps (kern w) (call_value w args e (inst_id i) f ys)"
  proof -
    have "steps (kern w) (exec_insts w args [i] e)"
      unfolding exec_one using assms(1) that(2) by (auto simp: exec_op_def Let_def intro!: steps_bind steps_return)
    from stepsD [OF this assms(5)] assms(8) that(1) show ?thesis by simp
  qed
  show ?thesis
  proof (cases rule: visitCallInst_cases [OF assms(6,7), where f = f and n = n])
    case (1 g)
    have "steps (kern w) (call_function w j g ys)" for j ys
    proof (cases "g = ''kspecem_hook_access''")
      case False
      with 1(2) assms(1,2,4) show ?thesis
        by (simp add: spec_inst_def program_inst_def access_call_def no_hook_call_def call_function_other calls_steps_def steps_return)
    qed (auto simp: call_function_hooks intro!: steps_bind steps_return steps_hooks)
    with 1 show ?thesis by (intro plain) (simp_all add: call_value_def)
  next
    case (2 a iV u)
    with assms(4) show ?thesis by (intro plain) (auto simp: call_value_def calls_steps_def)
  next
    case (3 ty v)
    with assms(8) insertRestartHook_stops [OF assms(3) 3(2) assms(5)] show ?thesis
      by (auto simp: exec_insts_append bindM_apply split: outcome.splits)
  qed
qed

section \<open>Functions\<close>

text \<open>What the pass and the program have to be for the following.\<close>

definition spec_context :: "'c world \<Rightarrow> kspecem_pass \<Rightarrow> string \<Rightarrow> ir_function \<Rightarrow> bool" where
  "spec_context w L M F \<longleftrightarrow> kspecem_hooks L \<and> pointer_size_in_bits (layout L) = 64 \<and> calls_steps w
     \<and> \<not> startswith (fun_name F) ''kspecem_'' \<and> \<not> isIn (kspecem_functions L) M F ''nospec'' \<and> spec_fun w F"

lemma inst_steps:
  assumes "spec_context w L M F" and "spec_inst w i" and "inst_below N i" and "N \<le> n" and "spec_ready s"
    and "exec_insts w args (emitted (visit_inst (KSpecEmPassVisitor L M F) i) n @ [built (visit_inst (KSpecEmPassVisitor L M F) i) n]) e s = Ret e' t"
    and "list_all (access_ok w args)
      (insts_run w args (emitted (visit_inst (KSpecEmPassVisitor L M F) i) n @ [built (visit_inst (KSpecEmPassVisitor L M F) i) n]) e s)"
  shows "(spec_step (kern w))\<^sup>*\<^sup>* s t \<and> spec_ready t"
proof -
  have c: "kspecem_hooks L" "pointer_size_in_bits (layout L) = 64" "calls_steps w" "kernel_ok (kern w)"
    "\<not> startswith (fun_name F) ''kspecem_''" "\<not> isIn (kspecem_functions L) M F ''nospec''" "spec_fun w F"
    using assms(1) by (simp_all add: spec_context_def calls_steps_def)
  have plain: ?thesis if "visit_inst (KSpecEmPassVisitor L M F) i = State_Monad.return i" and "\<And>e. steps (kern w) (exec_op w args e i)"
  proof -
    have "steps (kern w) (exec_insts w args [i] e)" unfolding exec_one by (intro steps_bind steps_return that(2))
    from stepsD [OF this assms(5)] assms(6) that(1) show ?thesis by simp
  qed
  have "steps (kern w) (exec_op w args e i)" if "inst_op i = LoadInst p" for e p
    using that assms(2) access_program_memory(1) [of p w] by (simp add: exec_op_def spec_inst_def program_inst_def access_call_def steps_get)
  then show ?thesis
    using store_steps [OF _ assms(2,3,4) c(1,5,4) assms(5)] copy_steps [OF _ assms(2,3,4) c(1,5,4) assms(5) c(2)]
      call_steps [OF _ assms(2) c(1,3) assms(5) c(6,7)] assms(6,7) plain
    by (cases "inst_op i") (simp_all add: KSpecEmPassVisitor_def exec_op_def Let_def steps_return)
qed

lemma visited_steps:
  "spec_context w L M F \<Longrightarrow> list_all (spec_inst w) is \<Longrightarrow> list_all (inst_below N) is \<Longrightarrow> N \<le> n \<Longrightarrow> spec_ready s \<Longrightarrow>
   exec_insts w args (visited (visit_inst (KSpecEmPassVisitor L M F)) is n) e s = Ret e' t \<Longrightarrow>
   list_all (access_ok w args) (insts_run w args (visited (visit_inst (KSpecEmPassVisitor L M F)) is n) e s) \<Longrightarrow>
   (spec_step (kern w))\<^sup>*\<^sup>* s t \<and> spec_ready t"
proof (induction "is" arbitrary: n e s)
  case (Cons i "is")
  let ?v = "visit_inst (KSpecEmPassVisitor L M F) i"
  let ?is = "emitted ?v n @ [built ?v n]" and ?js = "visited (visit_inst (KSpecEmPassVisitor L M F)) is (next_id ?v n)"
  from Cons.prems(6) obtain e1 s1 where 1: "exec_insts w args ?is e s = Ret e1 s1" "exec_insts w args ?js e1 s1 = Ret e' t"
    unfolding visited.simps append_assoc [symmetric] exec_insts_append [of _ _ _ ?js]
    by (auto simp: bindM_apply split: outcome.splits)
  from Cons.prems(7) have 2: "list_all (access_ok w args) (insts_run w args ?is e s)" "list_all (access_ok w args) (insts_run w args ?js e1 s1)"
    unfolding visited.simps append_assoc [symmetric] insts_run_append [of _ _ _ ?js] by (simp_all add: 1(1))
  have s1: "(spec_step (kern w))\<^sup>*\<^sup>* s s1 \<and> spec_ready s1"
    using Cons.prems by (intro inst_steps [OF _ _ _ _ _ 1(1) 2(1)]) simp_all
  have "N \<le> next_id ?v n" using Cons.prems(4) builder_next [OF builder_KSpecEmPassVisitor(1)] order_trans by blast
  with Cons.IH [OF Cons.prems(1) _ _ _ _ 1(2) 2(2)] Cons.prems(2,3) s1 show ?case by auto
qed simp

lemma return_steps:
  assumes "spec_context w L M F"
  shows "steps (kern w) (exec_insts w args (emitted (visit_term (KSpecEmPassVisitor L M F) b) n) e)"
proof -
  have L: "kspecem_hooks L" using assms by (simp add: spec_context_def)
  have "bindM (Ret x) f = f x" for x :: env and f :: "env \<Rightarrow> ('a, env) kop"
    by (simp add: fun_eq_iff bindM_apply)
  then have "steps (kern w) (exec_insts w args (emitted (visitReturnInst L M F) n) e)"
    by (auto simp: visitReturnInst_def exec_inst_def exec_op_def call_value_def call_function_hooks Let_def steps_return
        intro!: steps_insertRestartHook [OF L])
  then show ?thesis by (cases "bb_term b") (simp_all add: KSpecEmPassVisitor_def steps_return)
qed

lemma block_steps:
  assumes "spec_context w L M F" and "list_all (spec_inst w) (bb_insts b)" and "block_below N b" and "N \<le> n" and "spec_ready s"
    and "b' = fst (visit_block (KSpecEmPassVisitor L M F) b n)" and "exec_insts w args (bb_insts b') e s = Ret e' t"
    and "list_all (access_ok w args) (insts_run w args (bb_insts b') e s)"
  shows "(spec_step (kern w))\<^sup>*\<^sup>* s t \<and> spec_ready t"
proof -
  let ?V = "KSpecEmPassVisitor L M F"
  let ?m = "visited_next (visit_inst ?V) (bb_insts b) n"
  let ?is = "visited (visit_inst ?V) (bb_insts b) n" and ?js = "emitted (visit_term ?V b) ?m"
  have b': "bb_insts b' = ?is @ ?js" by (simp add: assms(6) visit_block_eq Let_def)
  from assms(7) obtain e1 s1 where 1: "exec_insts w args ?is e s = Ret e1 s1" "exec_insts w args ?js e1 s1 = Ret e' t"
    unfolding b' exec_insts_append by (auto simp: bindM_apply split: outcome.splits)
  have "list_all (access_ok w args) (insts_run w args ?is e s)" using assms(8) by (simp add: b' insts_run_append)
  then have "(spec_step (kern w))\<^sup>*\<^sup>* s s1 \<and> spec_ready s1"
    using assms(3) by (intro visited_steps [OF assms(1,2) _ assms(4,5) 1(1)]) (simp_all add: block_below_def)
  moreover from this have "(spec_step (kern w))\<^sup>*\<^sup>* s1 t \<and> spec_ready t" by (intro stepsD [OF return_steps [OF assms(1)] _ 1(2)]) simp
  ultimately show ?thesis by (meson rtranclp_trans)
qed

text \<open>The instructions of a run of at most \<open>n\<close> blocks.\<close>

primrec trace ::
  "nat \<Rightarrow> 'c world \<Rightarrow> (nat \<Rightarrow> nat) \<Rightarrow> basic_block list \<Rightarrow> string \<Rightarrow> string \<Rightarrow> env \<Rightarrow> 'c kstate \<Rightarrow> (ir_inst \<times> env \<times> 'c kstate) list" where
  "trace 0 w args bs prev l e s = []"
| "trace (Suc n) w args bs prev l e s =
     (case find (\<lambda>b. bb_label b = l) bs of
        None \<Rightarrow> []
      | Some b \<Rightarrow>
          let e0 = exec_phis w args prev (bb_phis b) e in
          insts_run w args (bb_insts b) e0 s @
          (case exec_insts w args (bb_insts b) e0 s of
             Ret e' t \<Rightarrow> (case exec_term w args (bb_term b) e' of Goto l' \<Rightarrow> trace n w args bs l l' e' t | _ \<Rightarrow> [])
           | _ \<Rightarrow> []))"

definition function_trace :: "nat \<Rightarrow> 'c world \<Rightarrow> ir_function \<Rightarrow> (nat \<Rightarrow> nat) \<Rightarrow> 'c kstate \<Rightarrow> (ir_inst \<times> env \<times> 'c kstate) list" where
  "function_trace n w F args s =
     (case fun_blocks F of [] \<Rightarrow> [] | b # bs \<Rightarrow> trace n w args (fun_blocks F) [] (bb_label b) (\<lambda>_. 0) s)"

text \<open>A block that does nothing but steps of a speculation.\<close>

definition undoable :: "'c world \<Rightarrow> (nat \<Rightarrow> nat) \<Rightarrow> basic_block \<Rightarrow> bool" where
  "undoable w args b \<longleftrightarrow> (\<forall>e s e' t. spec_ready s \<longrightarrow> exec_insts w args (bb_insts b) e s = Ret e' t \<longrightarrow>
     list_all (access_ok w args) (insts_run w args (bb_insts b) e s) \<longrightarrow> (spec_step (kern w))\<^sup>*\<^sup>* s t \<and> spec_ready t)"

lemma undoable_blocks_steps:
  assumes "list_all (undoable w args) bs"
  shows "spec_ready s \<Longrightarrow> run_blocks n w args bs prev l e s = Ret r t \<Longrightarrow> list_all (access_ok w args) (trace n w args bs prev l e s)
    \<Longrightarrow> (spec_step (kern w))\<^sup>*\<^sup>* s t \<and> spec_ready t"
proof (induction n arbitrary: prev l e s)
  case (Suc n)
  from Suc.prems(2) obtain b e' s1 where b: "find (\<lambda>b. bb_label b = l) bs = Some b"
    and e': "exec_insts w args (bb_insts b) (exec_phis w args prev (bb_phis b) e) s = Ret e' s1"
    by (auto simp: bindM_apply split: option.splits outcome.splits)
  from b have "b \<in> set bs" by (auto simp: find_Some_iff)
  then have "undoable w args b" using assms by (simp add: list_all_iff)
  with b e' Suc.prems(1,3) have s1: "(spec_step (kern w))\<^sup>*\<^sup>* s s1 \<and> spec_ready s1"
    unfolding undoable_def by (auto simp: Let_def)
  show ?case
  proof (cases "exec_term w args (bb_term b) e'")
    case (Goto l')
    with Suc.prems(2,3) b e' s1 have "(spec_step (kern w))\<^sup>*\<^sup>* s1 t \<and> spec_ready t"
      by (intro Suc.IH [of s1 l l' e']) (simp_all add: bindM_apply Let_def)
    with s1 show ?thesis by (meson rtranclp_trans)
  qed (use Suc.prems(2) b e' s1 in \<open>simp_all add: bindM_apply\<close>)
qed simp

lemma undoable_function_steps:
  assumes "list_all (undoable w args) (fun_blocks F)" and "spec_ready s" and "run_function n w F args s = Ret r t"
    and "list_all (access_ok w args) (function_trace n w F args s)"
  shows "(spec_step (kern w))\<^sup>*\<^sup>* s t \<and> spec_ready t"
  using undoable_blocks_steps [OF assms(1,2)] assms(3,4)
  by (cases "fun_blocks F") (simp_all add: run_function_def function_trace_def)

lemma kspecem_undoable:
  assumes "spec_context w L M F" and "fun_below F"
  shows "list_all (undoable w args) (fun_blocks (visit_function (KSpecEmPassVisitor L M F) F))"
  unfolding list_all_iff
proof
  fix b' assume "b' \<in> set (fun_blocks (visit_function (KSpecEmPassVisitor L M F) F))"
  then have "b' \<in> set (fst (visit_blocks (KSpecEmPassVisitor L M F) (fun_blocks F) (fun_next F)))"
    by (simp add: visit_function_def split_beta)
  then obtain b m where b: "b \<in> set (fun_blocks F)" "fun_next F \<le> m" "b' = fst (visit_block (KSpecEmPassVisitor L M F) b m)"
    using visit_blocks_in [OF builder_KSpecEmPassVisitor] by blast
  have "list_all (spec_inst w) (bb_insts b)" "block_below (fun_next F) b"
    using assms b(1) by (simp_all add: spec_context_def spec_fun_def fun_below_def list_all_iff)
  from block_steps [OF assms(1) this b(2) _ b(3)] show "undoable w args b'" unfolding undoable_def by blast
qed

lemma function_undone:
  assumes "list_all (undoable w args) (fun_blocks F)" and "at_checkpoint c" and "(spec_step (kern w))\<^sup>*\<^sup>* c s" and "spec_ready s"
    and "run_function n w F args s = Ret r t" and "list_all (access_ok w args) (function_trace n w F args s)"
    and "can_end (kern w) st ty t"
  shows "\<exists>u. kspecem_hook_restart (kern w) st 0 ty ca t = Resume u \<and> (\<forall>x. given_back st c x \<longrightarrow> mem u x = mem c x)
    \<and> (\<forall>x \<in> preserved_regs \<union> {RIP, RSP, EFLAGS}. hw u x = kspecem_registers c x) \<and> \<not> kspecem_in_speculative_emulation u"
proof -
  from undoable_function_steps [OF assms(1,4-6)] assms(3) have "(spec_step (kern w))\<^sup>*\<^sup>* c t" by (meson rtranclp_trans)
  from restart_gives_back [OF assms(2) this assms(7), of ca] show ?thesis by blast
qed

section \<open>An example\<close>

text \<open>A function that stores 5 through its argument, called during the speculation that starts at \<open>demo_at\<close>.\<close>

definition demo_store :: ir_function where
  "demo_store = \<lparr>fun_name = ''put'', fun_ret = VoidTy, fun_args = [PtrTy (IntTy 64)], fun_cc = CC_C, fun_blocks =
     [\<lparr>bb_label = ''entry'', bb_phis = [], bb_insts =
        [\<lparr>inst_id = 0, inst_ty = VoidTy, inst_op = StoreInst (ConstInt 64 5) (Arg 0 (PtrTy (IntTy 64))), is_asan_instr = False\<rparr>],
        bb_term = ReturnInst None\<rparr>], fun_next = 1\<rparr>"

definition demo_inner :: "machine kstate" where
  "demo_inner = demo_at\<lparr>kspecem_spec_call_depth := 1\<rparr>"

definition demo_inner_stored :: "machine kstate" where
  "demo_inner_stored = (store_logged demo_site [0x3000] demo_inner)\<lparr>mem :=
     write_bytes (mem (store_logged demo_site [0x3000] demo_inner)) 0x3000 (bytes_of_nat 8 5)\<rparr>"

lemma demo_inner_checkpoint: "at_checkpoint demo_inner"
proof -
  have "at_checkpoint demo_at"
    unfolding demo_at_def using demo_idle_ready by (intro after_checkpoint_at_checkpoint) (simp_all add: rt_ready_def)
  moreover have "log_view demo_inner = log_view demo_at" by (simp add: demo_inner_def log_view_def)
  then have "log_inv m demo_inner = log_inv m demo_at" for m
    using rollback_cong(1) [of demo_inner demo_at] by (simp add: log_inv_def log_view_def)
  ultimately show ?thesis by (simp add: at_checkpoint_def spec_inv_def in_frame_def) (simp add: demo_inner_def)
qed

lemma demo_inner_ready: "spec_ready demo_inner" "log_ready demo_inner 1" "loggable plain_kernel demo_inner 0x3000"
  using demo_at_fields(1-3)
  by (simp_all add: spec_ready_def demo_inner_def log_ready_def loggable_def wl_addrs_end_def wl_data_end_def)

lemma demo_granules: "granules 0x3000 = [0x3000]"
  by (simp add: granules_def align8_def)

lemma demo_inner_hook:
  "kspecem_hook_store plain_kernel demo_site demo_site 0x3000 demo_inner = Ret () (store_logged demo_site [0x3000] demo_inner)"
  using kspecem_hook_store_eq [OF plain_kernel_ok, of demo_inner "0x3000" demo_site demo_site] demo_inner_ready
  by (simp add: demo_granules spec_ready_def)

lemma demo_inner_return:
  obtains a where "kspecem_spec_statistics a \<noteq> 0" and "kspecem_hook_restart plain_kernel demo_site 0 KSPECEM_RESTART_RETURN ca demo_inner_stored =
    Ret 0 (demo_inner_stored\<lparr>spec_stats := a, kspecem_is_in_restart := True, kspecem_spec_call_depth := 0, kspecem_is_in_rt := False\<rparr>)"
proof -
  let ?s = "demo_inner_stored\<lparr>kspecem_is_in_rt := True, cpu := stop_nmi plain_kernel (quiet_cpu plain_kernel (cpu demo_inner_stored)),
    kspecem_is_in_restart := True\<rparr>"
  have s: "kspecem_init_done ?s" "kspecem_in_speculative_emulation ?s" "kspecem_spec_call_depth ?s = 1" "assert_fmt (kspecem_spec_assert ?s) = None"
    by (simp_all add: demo_inner_stored_def demo_inner_def store_logged_def log_of_def demo_at_def after_checkpoint_def checkpointed_def
        demo_idle_def demo_spec_def boot_state_def split: prod.splits)
  have "stats_ready ?s"
    using demo_at_fields(4) by (simp add: stats_ready_def demo_inner_stored_def demo_inner_def store_logged_def log_of_def)
  then obtain a where a: "add_spec_statistics KSPECEM_FUNC_RESTART_RETURN 0 0 0 (ret_addr demo_site) ?s = Ret () (?s\<lparr>spec_stats := a\<rparr>)"
    "kspecem_spec_statistics a \<noteq> 0"
    by (rule add_spec_statistics_runs)
  show thesis
  proof (rule that [OF a(2)])
    show "kspecem_hook_restart plain_kernel demo_site 0 KSPECEM_RESTART_RETURN ca demo_inner_stored =
      Ret 0 (demo_inner_stored\<lparr>spec_stats := a, kspecem_is_in_restart := True, kspecem_spec_call_depth := 0, kspecem_is_in_rt := False\<rparr>)"
      using s a(1) leave_eq [OF plain_kernel_ok, of "?s\<lparr>spec_stats := a, kspecem_spec_call_depth := 0\<rparr>" "cpu demo_inner_stored"]
      by (simp add: kspecem_hook_restart_def kspecem_hook_restart_with_def CHECK_KSPECEM_INIT_def ifM_apply bindM_apply enter_eq
          kspecem_restart_def kspecem_restart_with_def thenM_apply)
  qed
qed

lemma demo_stored_mem_can_end: "can_end plain_kernel demo_site KSPECEM_RESTART_CALL (demo_stored\<lparr>mem := m\<rparr>)"
proof -
  have "wl_list demo_stored = wl_list (demo_stored\<lparr>mem := m\<rparr>)" unfolding wl_list_def by (auto intro!: log_entries_cong)
  then show ?thesis
    using demo_stored_can_end
    by (simp add: can_end_def ends_speculation_def stats_ready_def reports_ok_def map_ready_def rollback_ok_def restorable_def kspecem_can_restore_def)
qed

lemma demo_inner_can_end:
  assumes "kspecem_spec_statistics a \<noteq> 0"
  shows "can_end plain_kernel demo_site KSPECEM_RESTART_CALL
    (demo_inner_stored\<lparr>spec_stats := a, kspecem_is_in_restart := True, kspecem_spec_call_depth := 0, kspecem_is_in_rt := False\<rparr>)"
proof -
  let ?t = "demo_inner_stored\<lparr>spec_stats := a, kspecem_is_in_restart := True, kspecem_spec_call_depth := 0, kspecem_is_in_rt := False\<rparr>"
  have w: "log_view (demo_stored\<lparr>mem := mem ?t\<rparr>) = log_view ?t"
    by (simp add: log_view_def demo_stored_def demo_inner_stored_def demo_inner_def store_logged_def log_of_def logged_def Let_def)
  note demo_stored_mem_can_end [of "mem ?t"]
  then show ?thesis
    using assms demo_at_fields(4)
    by (intro can_end_cong [OF w])
      (simp_all add: demo_stored_def demo_inner_stored_def demo_inner_def store_logged_def log_of_def stats_ready_def)
qed

lemma demo_world_fields:
  "kern demo_world = plain_kernel" "site_at demo_world n = demo_site" "assert_site_at demo_world n = demo_site"
  "return_address demo_world = 0xffffffff81000040" "store_size demo_world ty = 8"
  by (simp_all add: demo_world_def)

lemma demo_world_steps: "calls_steps demo_world"
  by (simp add: calls_steps_def demo_world_def plain_kernel_ok steps_return)

lemma demo_store_instrumented:
  assumes "kspecem_hooks L" and "\<And>c. \<not> isIn (kspecem_functions L) M F c" and "fun_blocks F = fun_blocks demo_store"
    and "fun_next F = fun_next demo_store" and "fun_name F = fun_name demo_store"
  shows "fun_blocks (visit_function (KSpecEmPassVisitor L M F) F) = [\<lparr>bb_label = ''entry'', bb_phis = [], bb_insts =
     [\<lparr>inst_id = 1, inst_ty = i8ptr, inst_op = BitCastInst (Arg 0 (PtrTy (IntTy 64))), is_asan_instr = False\<rparr>,
      \<lparr>inst_id = 2, inst_ty = VoidTy, inst_op = CallInst CC_Fast (Fun ''kspecem_hook_store'' (FunTy VoidTy [i8ptr])) [Inst 1 i8ptr],
        is_asan_instr = False\<rparr>,
      \<lparr>inst_id = 0, inst_ty = VoidTy, inst_op = StoreInst (ConstInt 64 5) (Arg 0 (PtrTy (IntTy 64))), is_asan_instr = False\<rparr>,
      \<lparr>inst_id = 3, inst_ty = i8ptr, inst_op = CallInst CC_C returnaddress [ConstInt 32 0], is_asan_instr = False\<rparr>,
      \<lparr>inst_id = 4, inst_ty = IntTy 32, inst_op = CallInst CC_C (Fun ''kspecem_hook_restart'' (FunTy (IntTy 32) [i8ptr, IntTy 32, i8ptr]))
        [ConstNull i8ptr, ConstInt 32 0, Inst 3 i8ptr], is_asan_instr = False\<rparr>],
     bb_term = ReturnInst None\<rparr>]"
  using assms unfolding visit_function_def
  by (simp add: demo_store_def visit_block_eq Let_def)
    (simp add: KSpecEmPassVisitor_def visitStoreInst_def visitReturnInst_def insertRestartHook_def CreatePointerCast_def CreateBitCast_def
      kspecem_hooks_def)

lemma demo_inner_given_back: "given_back demo_site demo_inner 0x3000"
proof -
  have "hw demo_idle RSP = 0" by (simp add: demo_idle_def demo_spec_def boot_state_def)
  with after_checkpoint_fields(3) [OF demo_idle_ready(2), of demo_site "0x46", folded demo_at_def] show ?thesis
    by (simp add: given_back_def skip_entry_def demo_site_def align8_def demo_inner_def)
qed

lemma demo_store_effect:
  assumes "kspecem_hooks L" and "\<And>c. \<not> isIn (kspecem_functions L) M F c" and "fun_blocks F = fun_blocks demo_store"
    and "fun_next F = fun_next demo_store" and "fun_name F = fun_name demo_store"
    and "fun_blocks F' = fun_blocks (visit_function (KSpecEmPassVisitor L M F) F)"
  obtains t where "run_function 1 demo_world F' (\<lambda>_. 0x3000) demo_inner = Ret None t"
    "list_all (access_ok demo_world (\<lambda>_. 0x3000)) (function_trace 1 demo_world F' (\<lambda>_. 0x3000) demo_inner)"
    "can_end (kern demo_world) demo_site KSPECEM_RESTART_CALL t" "mem t 0x3000 = 5"
proof -
  note F' = assms(6) [unfolded demo_store_instrumented [OF assms(1-5)]]
  obtain a where a: "kspecem_spec_statistics a \<noteq> 0"
    "kspecem_hook_restart plain_kernel demo_site 0 KSPECEM_RESTART_RETURN 0xffffffff81000040 demo_inner_stored =
      Ret 0 (demo_inner_stored\<lparr>spec_stats := a, kspecem_is_in_restart := True, kspecem_spec_call_depth := 0, kspecem_is_in_rt := False\<rparr>)"
    by (rule demo_inner_return)
  let ?t = "demo_inner_stored\<lparr>spec_stats := a, kspecem_is_in_restart := True, kspecem_spec_call_depth := 0, kspecem_is_in_rt := False\<rparr>"
  have "run_function 1 demo_world F' (\<lambda>_. 0x3000) demo_inner = Ret None ?t"
    using a(2) demo_inner_hook
    by (simp add: run_function_def F' bindM_apply exec_inst_def exec_op_def call_value_def call_function_hooks store_value_def void_def
        exec_term_def argn_def Let_def demo_world_fields demo_inner_stored_def)
  moreover have "list_all (access_ok demo_world (\<lambda>_. 0x3000)) (function_trace 1 demo_world F' (\<lambda>_. 0x3000) demo_inner)"
    using demo_inner_hook demo_inner_ready(3)
    by (simp add: function_trace_def F' bindM_apply exec_inst_def exec_op_def call_value_def call_function_hooks void_def argn_def Let_def
        demo_world_fields access_ok_def demo_granules hook_loggable [OF demo_inner_ready(1) disjI1 [OF demo_inner_hook]]
        exec_term_def split: outcome.split)
  moreover have "mem ?t 0x3000 = 5" by (simp add: demo_inner_stored_def write_bytes_def bytes_of_nat_def)
  ultimately show thesis using that demo_inner_can_end [OF a(1)] by (simp add: demo_world_fields)
qed

lemma demo_store_spec: "fun_below demo_store" "spec_fun demo_world demo_store"
  by (simp_all add: spec_fun_def fun_below_def demo_store_def block_below_def inst_below_def spec_inst_def program_inst_def no_hook_call_def
      runtime_global_def demo_world_fields)

section \<open>Stores of more than 8 bytes\<close>

text \<open>
  The bound on the size of a store is needed. The hook gets no size and logs 8 bytes; of a store
  of 16 bytes the rest survives the rollback.
\<close>

theorem wide_store_survives:
  "\<exists>t u. kspecem_hook_store plain_kernel demo_site demo_site 0x3000 demo_at = Ret () t
    \<and> kspecem_hook_restart plain_kernel demo_site 0 KSPECEM_RESTART_CALL 0 (t\<lparr>mem := write_bytes (mem t) 0x3000 (replicate 16 7)\<rparr>) = Resume u
    \<and> mem u 0x3008 = 7 \<and> mem demo_at 0x3008 = 1"
proof -
  let ?t = "store_logged demo_site [0x3000] demo_at"
  let ?s = "demo_stored\<lparr>mem := write_bytes (mem ?t) 0x3000 (replicate 16 7)\<rparr>"
  have "kspecem_hook_store plain_kernel demo_site demo_site 0x3000 demo_at = Ret () ?t"
    using kspecem_hook_store_eq [OF plain_kernel_ok, of demo_at "0x3000" demo_site demo_site] demo_at_fields by (simp add: demo_granules)
  moreover have s: "?t\<lparr>mem := write_bytes (mem ?t) 0x3000 (replicate 16 7)\<rparr> = ?s" by (simp add: demo_stored_def)
  let ?e = "?s\<lparr>kspecem_is_in_rt := True, cpu := stop_nmi plain_kernel (quiet_cpu plain_kernel (cpu ?s))\<rparr>"
  have v: "log_view ?s = log_view ?e" by (simp add: log_view_def)
  have c: "can_end plain_kernel demo_site KSPECEM_RESTART_CALL ?e"
    using demo_stored_mem_can_end by (intro can_end_cong [OF v]) (auto simp: can_end_def stats_ready_def)
  then obtain u where u: "kspecem_restart plain_kernel demo_site 0 KSPECEM_RESTART_CALL 0 0 0 ?e = Resume u"
    "mem u = store64 (rollback_mem demo_site (restart_frame demo_site) 0 ?s) (kspecem_registers ?e RSP - 8) (kspecem_registers ?e EFLAGS)"
    using restart_resumes [of KSPECEM_RESTART_CALL ?e plain_kernel demo_site 0 0 0] unfolding rollback_cong(2) [OF v] by (auto simp: can_end_def)
  have "kspecem_init_done ?s" using demo_at_fields(3) by (simp add: demo_stored_def store_logged_def log_of_def)
  with u(1) have "kspecem_hook_restart plain_kernel demo_site 0 KSPECEM_RESTART_CALL 0 ?s = Resume u"
    by (simp add: kspecem_hook_restart_def kspecem_hook_restart_with_def CHECK_KSPECEM_INIT_def ifM_apply bindM_apply enter_eq)
  moreover have i: "hw demo_idle RSP = 0" "mem demo_idle = (\<lambda>_. 1)" by (simp_all add: demo_idle_def demo_spec_def boot_state_def)
  note f = after_checkpoint_fields(1,3) [OF demo_idle_ready(2), of demo_site "0x46", folded demo_at_def, unfolded i]
  have "mem demo_at 0x3008 = 1" by (simp add: f(1) store64_def)
  moreover have w: "wl_list ?s = [(0x3000, load64 (mem demo_at) 0x3000)]"
    using demo_at_fields(6) by (simp add: wl_list_def demo_stored_def store_logged_def log_of_def logged_def Let_def)
  have "kspecem_registers ?e RSP = 8" "kspecem_wl_stack_base_address ?s = 0x8100" "kspecem_wl_stack_len ?s = 0xf0"
    using f(2) by (simp_all add: demo_stored_def store_logged_def log_of_def) (simp_all add: demo_at_def after_checkpoint_def split: prod.splits)
  then have "mem u 0x3008 = 7"
    unfolding u(2) rollback_mem_def w by (simp add: store64_def memcpy_to_def write_bytes_def)
  ultimately show ?thesis by (metis s)
qed

end
