(* ===== verification/KPipelineSpec.thy ===== *)
theory KPipelineSpec
  imports KPipeline KInstrumented
begin

text \<open>
  The output of a pipeline during a speculation. The pass that logs stores has to see the accesses as they will happen, so the page
  fault checker comes before it; the passes that count instructions and insert checkpoints may follow. What
  the function then does is a sequence of steps of \<open>KSpeculation\<close>, and a restart undoes it.
\<close>

section \<open>A branch in a speculation\<close>

text \<open>No checkpoint is taken in a speculation.\<close>

lemma new_checkpoint_in_spec:
  assumes "spec_ready s" and "kspecem_hook_new_checkpoint k st sta s = Ret f t"
  shows "f = - 1 \<and> (\<exists>tr. t = s\<lparr>spec_stats := tr\<rparr>)"
proof -
  have "kspecem_in_speculative_emulation s" using assms(1) by (rule spec_ready_in_spec)
  moreover have same: "\<exists>tr. s = s\<lparr>spec_stats := tr\<rparr>" by (rule exI [of _ "spec_stats s"]) simp
  ultimately show ?thesis
    using assms(2)
    by (auto simp: kspecem_hook_new_checkpoint_def CHECK_KSPECEM_RT_def ifM_apply bindM_apply is_whitelist_task_def thenM_apply
        add_spec_statistics_def split: if_splits sum.splits option.splits outcome.splits)
qed

lemma steps_checkpoint:
  assumes "spec_hooks LS"
  shows "steps (kern w) (exec_insts w args (emitted (emitNewCheckpointHook LS) n) e)"
  unfolding steps_def
proof (intro allI impI)
  fix s e' t
  assume s: "spec_ready s" and run: "exec_insts w args (emitted (emitNewCheckpointHook LS) n) e s = Ret e' t"
  from run assms obtain f s1 where 1: "kspecem_hook_new_checkpoint (kern w) (site_at w n) (assert_site_at w n) s = Ret f s1"
    by (auto simp: emitNewCheckpointHook_def spec_hooks_def bindM_apply exec_inst_def exec_op_def call_value_def call_function_spec Let_def
        split: outcome.splits)
  obtain tr where f: "f = - 1" "s1 = s\<lparr>spec_stats := tr\<rparr>" using new_checkpoint_in_spec [OF s 1] by blast
  have r: "save_registers fl (- 1) s1 = Ret () (s1\<lparr>hw := (hw s1)(RAX := 0, RIP := load64 (mem s1) (hw s1 RSP), RSP := hw s1 RSP + 8)\<rparr>)" for fl
    by (simp add: save_registers_def kspecem_asm_save_registers_def Let_def)
  have m: "of_nat (unat (- 1 :: u64)) = (- 1 :: u64)" by simp
  have t: "t = s1\<lparr>hw := (hw s1)(RAX := 0, RIP := load64 (mem s1) (hw s1 RSP), RSP := hw s1 RSP + 8)\<rparr>"
    using run assms 1 m r unfolding f(1)
    by (auto simp: emitNewCheckpointHook_def spec_hooks_def bindM_apply exec_inst_def exec_op_def call_value_def call_function_spec
        call_function_hooks void_def argn_def load_value_def Let_def kspecem_hook_save_stack_def kspecem_hook_leave_rt_def)
  have "spec_step (kern w) s s1" by (rule spec_step.checkpoint [OF 1])
  moreover have "spec_step (kern w) s1 t"
    using spec_step.code [where k = "kern w" and s = s1 and c = "cpu s1"
        and r = "(hw s1)(RAX := 0, RIP := load64 (mem s1) (hw s1 RSP), RSP := hw s1 RSP + 8)"] by (simp add: t)
  moreover have "spec_ready t" using s by (simp add: t f(2))
  ultimately show "(spec_step (kern w))\<^sup>*\<^sup>* s t \<and> spec_ready t" by auto
qed

lemma steps_pure: "(\<And>s. \<exists>x. m s = Ret x s) \<Longrightarrow> steps k m"
  unfolding steps_def by (metis outcome.inject(1) rtranclp.rtrancl_refl)

lemma steps_insts_Nil: "steps k (exec_insts w args [] e)"
  by (simp add: steps_return)

lemma steps_insts_Cons:
  "(\<And>e. steps k (exec_op w args e i)) \<Longrightarrow> (\<And>e. steps k (exec_insts w args is e)) \<Longrightarrow> steps k (exec_insts w args (i # is) e)"
  by (auto simp: exec_inst_def intro!: steps_bind steps_return)

lemma steps_insts_append:
  "(\<And>e. steps k (exec_insts w args is e)) \<Longrightarrow> (\<And>e. steps k (exec_insts w args js e)) \<Longrightarrow> steps k (exec_insts w args (is @ js) e)"
  unfolding exec_insts_append by (rule steps_bind)

lemma steps_emitBranch:
  assumes "spec_hooks LS"
  shows "steps (kern w) (exec_insts w args (emitted (emitBranch LS F c) n) e)"
proof -
  let ?rest = "do {
        inverted \<leftarrow> invertedCondition F c;
        swapBranchCondition \<leftarrow> insert_inst (IntTy 32) (LoadInst kspecem_swap_branch_condition_var);
        cond \<leftarrow> insert_inst (IntTy 1) (ICmpInst ICMP_EQ swapBranchCondition (ConstInt 32 1));
        newCondition \<leftarrow> insert_inst (IntTy 1) (SelectInst cond inverted c);
        insert_inst VoidTy (StoreInst (ConstInt 32 0) kspecem_swap_branch_condition_var);
        State_Monad.return newCondition }"
  have "steps (kern w) (modifyM (\<lambda>s :: 'a kstate. s\<lparr>kspecem_swap_branch_condition := False\<rparr>))"
    using steps_hooks(4) [of "kern w" True] by (auto simp: steps_def swapCondition_def bindM_apply thenM_apply)
  then have swap: "steps (kern w) (exec_op w args e \<lparr>inst_id = k, inst_ty = VoidTy,
      inst_op = StoreInst (ConstInt 32 0) kspecem_swap_branch_condition_var, is_asan_instr = False\<rparr>)" for e k
    by (auto simp: exec_op_def store_value_def void_def Let_def intro!: steps_bind steps_return)
  have inv: "steps (kern w) (exec_insts w args (emitted (invertedCondition F c) k) e)" for k e
    by (auto simp: invertedCondition_def exec_op_def Let_def simp del: exec_insts.simps
        intro!: steps_insts_Cons steps_insts_Nil steps_return split: option.split ir_op.split)
  have "steps (kern w) (exec_insts w args (emitted ?rest k) e)" for k e
    by (auto simp: exec_op_def load_value_def Let_def simp del: exec_insts.simps
        intro!: steps_insts_append inv steps_insts_Cons swap steps_insts_Nil steps_return steps_get)
  note rest = steps_insts_append [OF steps_checkpoint [OF assms] this]
  have "emitted (emitBranch LS F c) n = emitted (emitNewCheckpointHook LS) n @ emitted ?rest (n + 6)"
    unfolding emitBranch_def by (subst builder_bind_eqs(3)) simp_all
  then show ?thesis by (simp only: rest)
qed

section \<open>Adding steps to a function\<close>

lemma undoable_extend:
  assumes "undoable w args b" and "bb_insts b' = pre @ bb_insts b @ post"
    and "\<And>e. steps (kern w) (exec_insts w args pre e)" and "\<And>e. steps (kern w) (exec_insts w args post e)"
  shows "undoable w args b'"
  unfolding undoable_def
proof (intro allI impI)
  fix e s e' t
  assume s: "spec_ready s" and run: "exec_insts w args (bb_insts b') e s = Ret e' t"
    and ok: "list_all (access_ok w args) (insts_run w args (bb_insts b') e s)"
  from run obtain e1 s1 e2 s2 where r: "exec_insts w args pre e s = Ret e1 s1" "exec_insts w args (bb_insts b) e1 s1 = Ret e2 s2"
    "exec_insts w args post e2 s2 = Ret e' t"
    by (auto simp: assms(2) exec_insts_append bindM_apply split: outcome.splits)
  have 1: "(spec_step (kern w))\<^sup>*\<^sup>* s s1 \<and> spec_ready s1" by (rule stepsD [OF assms(3) s r(1)])
  have "list_all (access_ok w args) (insts_run w args (bb_insts b) e1 s1)" using ok r(1) by (simp add: assms(2) insts_run_append)
  with 1 r(2) assms(1) have 2: "(spec_step (kern w))\<^sup>*\<^sup>* s1 s2 \<and> spec_ready s2" unfolding undoable_def by blast
  then have "(spec_step (kern w))\<^sup>*\<^sup>* s2 t \<and> spec_ready t" by (intro stepsD [OF assms(4) _ r(3)]) simp
  with 1 2 show "(spec_step (kern w))\<^sup>*\<^sup>* s t \<and> spec_ready t" by (meson rtranclp_trans)
qed

abbreviation undoable_fun :: "'c world \<Rightarrow> (nat \<Rightarrow> nat) \<Rightarrow> ir_function \<Rightarrow> bool" where
  "undoable_fun w args F \<equiv> list_all (undoable w args) (fun_blocks F)"

lemma visited_return: "visited State_Monad.return is n = is" "visited_next State_Monad.return is n = n"
  by (induction "is") simp_all

text \<open>A visitor that leaves the instructions alone and only adds steps before the terminators.\<close>

lemma visit_function_undoable:
  assumes "visit_inst V = State_Monad.return" and "\<And>b. builder (visit_term V b)"
    and "\<And>b n e. steps (kern w) (exec_insts w args (emitted (visit_term V b) n) e)" and "undoable_fun w args F"
  shows "undoable_fun w args (visit_function V F)"
  unfolding list_all_iff
proof
  have i: "builder (visit_inst V i)" for i by (simp add: assms(1))
  fix b' assume "b' \<in> set (fun_blocks (visit_function V F))"
  then have "b' \<in> set (fst (visit_blocks V (fun_blocks F) (fun_next F)))" by (simp add: visit_function_def split_beta)
  then obtain b m where b: "b \<in> set (fun_blocks F)" "b' = fst (visit_block V b m)"
    using visit_blocks_in [OF i assms(2)] by blast
  then have "bb_insts b' = [] @ bb_insts b @ emitted (visit_term V b) m"
    by (simp add: visit_block_eq [OF i assms(2)] assms(1) visited_return Let_def)
  from undoable_extend [OF _ this _ assms(3)] assms(4) b(1) show "undoable w args b'" by (simp add: list_all_iff steps_return)
qed

lemma length_undoable:
  assumes "length_hook h" and "undoable_fun w args F"
  shows "undoable_fun w args (CheckSpecLength_visitor h F)"
proof -
  have "steps (kern w) (exec_op w args e \<lparr>inst_id = n, inst_ty = t, inst_op = CallInst CC_C h vs, is_asan_instr = False\<rparr>)" for e n t vs
    using assms(1) by (auto simp: length_hook_def exec_op_def call_value_def call_function_hooks void_def Let_def
        intro!: steps_bind steps_hooks steps_return)
  then have "undoable_fun w args (visit_function (CheckSpecLengthVisitor h) F)"
    by (intro visit_function_undoable assms(2))
      (auto simp: CheckSpecLengthVisitor_def fun_eq_iff simp del: exec_insts.simps intro!: steps_insts_Cons steps_insts_Nil)
  with assms(2) show ?thesis by (simp add: CheckSpecLength_visitor_def)
qed

lemma steps_emitCallDepthHook:
  assumes "spec_hooks LS"
  shows "steps (kern w) (exec_insts w args (emitted (emitCallDepthHook LS F) n) e)"
proof -
  have c: "steps (kern w) (exec_op w args e \<lparr>inst_id = k, inst_ty = t, inst_op = CallInst CC_C (checkCallDepthHook LS) vs, is_asan_instr = False\<rparr>)"
    "steps (kern w) (exec_op w args e \<lparr>inst_id = k, inst_ty = t, inst_op = CallInst CC_C returnaddress vs, is_asan_instr = False\<rparr>)" for e k t vs
    using assms by (auto simp: spec_hooks_def exec_op_def call_value_def call_function_hooks void_def Let_def
        intro!: steps_bind steps_hooks steps_return)
  have "steps (kern w) (exec_insts w args (emitted (CreateBitCast v t) k) e)" for v t k e
    using bitcast_run unfolding steps_def by blast
  then show ?thesis
    unfolding emitCallDepthHook_def CreatePointerCast_def
    by (auto simp del: exec_insts.simps intro!: steps_insts_append steps_insts_Cons steps_insts_Nil c)
qed

lemma builder_emitBranch: "builder (emitBranch LS F c)"
  by (simp add: emitBranch_def)

lemma spec_undoable:
  assumes "spec_hooks LS" and "undoable_fun w args F"
  shows "undoable_fun w args (KSpecEmSpec_visitor LS m F)"
proof -
  have "undoable_fun w args (insert_call_depth LS F)"
  proof (cases "fun_blocks F")
    case (Cons bb rest)
    obtain bb' n' where i: "insert_at_front (emitCallDepthHook LS F) bb (fun_next F) = (bb', n')" by fastforce
    then have "bb_insts bb' = emitted (emitCallDepthHook LS F) (fun_next F) @ bb_insts bb @ []"
      by (auto simp: insert_at_front_def builder_run [OF builder_emitCallDepthHook])
    from undoable_extend [of w args bb, OF _ this steps_emitCallDepthHook [OF assms(1)]] assms(2) show ?thesis
      by (simp add: insert_call_depth_def Cons i steps_return)
  qed (use assms(2) in \<open>simp add: insert_call_depth_def\<close>)
  then have "undoable_fun w args (visit_function (KSpecEmSpecPassVisitor LS G) (insert_call_depth LS F))" for G
    by (rule visit_function_undoable [rotated 3])
      (auto simp: KSpecEmSpecPassVisitor_def fun_eq_iff builder_emitBranch simp del: exec_insts.simps split: terminator.split
        intro!: steps_insts_Nil steps_emitBranch [OF assms(1)])
  with assms(2) show ?thesis by (simp add: KSpecEmSpec_visitor_def Let_def)
qed

section \<open>Checked accesses\<close>

lemma spec_fun_all: "spec_fun w F = all_insts (spec_inst w) F"
  by (simp add: spec_fun_def all_insts_def)

lemma emits_spec_casts:
  "emits (spec_inst w) (CreateBitCast v t)" "emits (spec_inst w) (CreateZExtOrTrunc v b)"
proof -
  have "spec_inst w \<lparr>inst_id = n, inst_ty = u, inst_op = BitCastInst x, is_asan_instr = False\<rparr>" if "\<not> is_constant x" for n u x
    using that by (cases x) (simp_all add: spec_inst_def program_inst_def no_hook_call_def)
  then show "emits (spec_inst w) (CreateBitCast v t)" "emits (spec_inst w) (CreateZExtOrTrunc v b)"
    by (auto intro!: emits_casts simp: spec_inst_def program_inst_def no_hook_call_def)
qed

lemma PfChecker_spec_fun:
  assumes "access_hook K" and "spec_fun w F"
  shows "spec_fun w (PfChecker_visitor K F)"
  unfolding spec_fun_all PfChecker_visitor_def
proof (rule visit_function_all [OF builder_PfChecker(1) _ _ _ assms(2) [unfolded spec_fun_all]])
  have call: "emits (spec_inst w) (CreateCall (AccessHookFn K) xs)" for xs
    using assms(1) by (intro emits_CreateCall) (simp add: spec_inst_def access_call_def access_hook_def)
  show "emits (spec_inst w) (visit_inst (PfCheckerPassVisitor K) i)" for i
    unfolding PfCheckerPassVisitor_def PfChecker_visitLoadInst_def PfChecker_visitStoreInst_def PfChecker_visitMemIntrinsic_def
    by (cases "inst_op i") (auto intro!: call emitting emits_spec_casts)
  have ptr: "\<not> runtime_global (built (checked_pointer K p sz) n)" for p sz n
    by (simp add: checked_pointer_def runtime_global_def CreateBitCast_def)
  show "spec_inst w (built (visit_inst (PfCheckerPassVisitor K) i) n)" if "spec_inst w i" for i n
  proof (cases "is_asan_instr i")
    case True
    with that show ?thesis
      by (cases "inst_op i") (simp_all add: PfCheckerPassVisitor_def PfChecker_visits_eq spec_inst_def program_inst_def no_hook_call_def
          access_call_def ptr, simp add: PfChecker_visitMemIntrinsic_def)
  next
    case False
    with that show ?thesis
      by (cases "inst_op i") (simp_all add: PfCheckerPassVisitor_def PfChecker_visitLoadInst_def PfChecker_visitStoreInst_def
          PfChecker_visitMemIntrinsic_def)
  qed
  show "emits (spec_inst w) (visit_term (PfCheckerPassVisitor K) b)" for b
    by (simp add: PfCheckerPassVisitor_def emits_return)
qed

section \<open>Pipelines\<close>

lemma passes_make_append: "passes_make opts m (ps @ qs) F F' \<longleftrightarrow> (\<exists>G. passes_make opts m ps F G \<and> passes_make opts m qs G F')"
  by (induction ps arbitrary: F) auto

lemma checks_first:
  "passes_make opts m ps F F' \<Longrightarrow> set ps \<subseteq> {CountInstrsPass, KSpecEmPfCheckerPass} \<Longrightarrow> fun_below F \<Longrightarrow> spec_fun w F \<Longrightarrow>
   fun_below F' \<and> spec_fun w F' \<and> fun_name F' = fun_name F"
proof (induction ps arbitrary: F)
  case (Cons p ps)
  then obtain G where G: "makes opts m p F G" "passes_make opts m ps G F'" by auto
  have "fun_below H \<and> spec_fun w H" if "same_code F H" for H
    using Cons.prems(3,4) same_code_blocks [OF that] by (simp add: fun_below_def spec_fun_def)
  then have "fun_below G \<and> spec_fun w G"
    using G(1) Cons.prems(2-4) by (auto simp: small_visitors_below PfChecker_spec_fun split: if_splits)
  with Cons.IH [OF G(2)] Cons.prems(2) makes_name [OF G(1)] show ?case by simp
qed simp

lemma additions_undoable:
  "passes_make opts m ps F F' \<Longrightarrow> set ps \<subseteq> {CountInstrsPass, KSpecEmCheckSpecLengthPass, KSpecEmSpecPass} \<Longrightarrow> undoable_fun w args F \<Longrightarrow>
   undoable_fun w args F'"
proof (induction ps arbitrary: F)
  case (Cons p ps)
  then obtain G where G: "makes opts m p F G" "passes_make opts m ps G F'" by auto
  have "undoable_fun w args H" if "same_code F H" for H using Cons.prems(3) same_code_blocks [OF that] by simp
  then have "undoable_fun w args G"
    using G(1) Cons.prems(2,3) by (auto simp: length_undoable spec_undoable split: if_splits)
  with Cons.IH [OF G(2)] Cons.prems(2) show ?case by simp
qed simp

lemma KSpecEm_makes:
  assumes "makes opts m KSpecEmPass F F'" and "\<not> contains m ''libkspecem.a''"
    and "list_all (\<lambda>c. \<not> isIn (kspecem_list opts) m F c) [''blacklist'', ''timer'', ''exception'', ''nospec'']"
    and "\<not> startswith (fun_name F) ''kspecem_''" and "pointer_size_in_bits (module_layout opts) = 64" and "fun_below F" and "spec_fun w F"
    and "calls_steps w"
  obtains L G where "spec_context w L m G" and "fun_below G" and "F' = visit_function (KSpecEmPassVisitor L m G) G"
proof -
  obtain L G where L: "kspecem_hooks L" "kspecem_functions L = kspecem_list opts" "layout L = module_layout opts" "same_code F G"
    "KSpecEm_visitor L m G = Some F'" using assms(1,2) by auto
  have G: "fun_below G" "spec_fun w G" "fun_name G = fun_name F" "isIn l m G c = isIn l m F c" for l c
    using same_code_blocks [OF L(4)] assms(6,7) by (simp_all add: fun_below_def spec_fun_def isIn_def)
  have "F' = visit_function (KSpecEmPassVisitor L m G) G" using L(5) assms(3) by (simp add: KSpecEm_visitor_def L(2) G(4))
  moreover have "spec_context w L m G" using L assms(3,4,5,8) G by (simp add: spec_context_def)
  ultimately show thesis using that G(1) by blast
qed

lemma KSpecEm_makes_undoable:
  assumes "makes opts m KSpecEmPass F F'" and "\<not> contains m ''libkspecem.a''"
    and "list_all (\<lambda>c. \<not> isIn (kspecem_list opts) m F c) [''blacklist'', ''timer'', ''exception'', ''nospec'']"
    and "\<not> startswith (fun_name F) ''kspecem_''" and "pointer_size_in_bits (module_layout opts) = 64" and "fun_below F" and "spec_fun w F"
    and "calls_steps w"
  shows "undoable_fun w args F'"
  using KSpecEm_makes [OF assms] kspecem_undoable by metis

text \<open>
  C4. What fully instrumented code does in a speculation is undone. Run on a module the page fault checker, then the restart and store
  pass, then any sequence of the passes that count instructions and insert checkpoints. Take a function of the
  module that is on no list, with stores of at most 8 bytes, calling instrumented functions, assembly the pass lets through, or
  anything at all behind a computed address. If it runs during a speculation and returns, having kept off the
  log itself, then a restart after that gives back memory and registers as they were at the
  checkpoint; no nested checkpoint has been taken.
\<close>

theorem pipeline_speculation_undone:
  assumes "run_passes opts (ps @ [KSpecEmPass] @ qs) M = Some (pa, M', out)" and "set ps \<subseteq> {CountInstrsPass, KSpecEmPfCheckerPass}"
    and "set qs \<subseteq> {CountInstrsPass, KSpecEmCheckSpecLengthPass, KSpecEmSpecPass}" and "\<not> contains (mod_name M) ''libkspecem.a''"
    and "j < length (mod_funs M)" and "F = mod_funs M ! j"
    and "list_all (\<lambda>c. \<not> isIn (kspecem_list opts) (mod_name M) F c) [''blacklist'', ''timer'', ''exception'', ''nospec'']"
    and "\<not> startswith (fun_name F) ''kspecem_''" and "pointer_size_in_bits (module_layout opts) = 64" and "fun_below F"
    and "spec_fun w F" and "calls_steps w" and "at_checkpoint c" and "(spec_step (kern w))\<^sup>*\<^sup>* c s" and "spec_ready s"
    and "run_function n w (mod_funs M' ! j) args s = Ret r t"
    and "list_all (access_ok w args) (function_trace n w (mod_funs M' ! j) args s)" and "can_end (kern w) st ty t"
  shows "\<exists>u. kspecem_hook_restart (kern w) st 0 ty ca t = Resume u \<and> (\<forall>x. given_back st c x \<longrightarrow> mem u x = mem c x)
    \<and> (\<forall>x \<in> preserved_regs \<union> {RIP, RSP, EFLAGS}. hw u x = kspecem_registers c x) \<and> \<not> kspecem_in_speculative_emulation u"
proof -
  from run_passes_make [OF assms(1,5)] obtain G H where G: "passes_make opts (mod_name M) ps F G"
    "makes opts (mod_name M) KSpecEmPass G H" "passes_make opts (mod_name M) qs H (mod_funs M' ! j)"
    by (auto simp: passes_make_append assms(6))
  have g: "fun_below G" "spec_fun w G" "fun_name G = fun_name F" using checks_first [OF G(1) assms(2,10,11)] by simp_all
  have "undoable_fun w args H"
    using assms(7,8) g isIn_name [OF g(3)] by (intro KSpecEm_makes_undoable [OF G(2) assms(4) _ _ assms(9) _ _ assms(12)]) simp_all
  from function_undone [OF additions_undoable [OF G(3) assms(3) this] assms(13-18)] show ?thesis .
qed

section \<open>An example\<close>

text \<open>The function that stores through its argument, checked, instrumented and counted.\<close>

definition demo_store_module :: ir_module where
  "demo_store_module = \<lparr>mod_name = ''vmlinux.o'', mod_funs = [demo_store]\<rparr>"

lemma PfChecker_demo_store:
  "fun_blocks G = fun_blocks demo_store \<Longrightarrow> fun_next G = fun_next demo_store \<Longrightarrow>
   fun_blocks (PfChecker_visitor K G) = fun_blocks demo_store \<and> fun_next (PfChecker_visitor K G) = fun_next demo_store
   \<and> fun_name (PfChecker_visitor K G) = fun_name G"
  by (simp add: PfChecker_visitor_def visit_function_def demo_store_def visit_block_eq Let_def)
    (simp add: PfCheckerPassVisitor_def PfChecker_visitStoreInst_def)

lemma demo_store_pipeline:
  obtains pa M' out L H where "run_passes demo_options ([KSpecEmPfCheckerPass] @ [KSpecEmPass] @ [CountInstrsPass]) demo_store_module = Some (pa, M', out)"
    and "kspecem_hooks L" and "kspecem_functions L = kspecem_list demo_options" and "fun_blocks H = fun_blocks demo_store"
    and "fun_next H = fun_next demo_store" and "fun_name H = fun_name demo_store"
    and "mod_funs M' ! 0 = visit_function (KSpecEmPassVisitor L (mod_name demo_store_module) H) H"
proof -
  have "pass_input demo_options demo_store_module"
    by (simp add: pass_input_def no_entry_def demo_options_list)
      (simp add: demo_store_module_def demo_store_def hook_typed_def hook_types_def kspecem_hook_types_def)
  then obtain pa M' out where r: "run_passes demo_options ([KSpecEmPfCheckerPass] @ [KSpecEmPass] @ [CountInstrsPass]) demo_store_module =
      Some (pa, M', out)" using passes_defined demo_input(2) by blast
  have m: "0 < length (mod_funs demo_store_module)" "demo_store = mod_funs demo_store_module ! 0"
    "\<not> contains (mod_name demo_store_module) ''libkspecem.a''" by (simp_all add: demo_store_module_def contains_def)
  from run_passes_make [OF r m(1), folded m(2)] m(3) obtain L H where L: "kspecem_hooks L" "kspecem_functions L = kspecem_list demo_options"
    "fun_blocks H = fun_blocks demo_store" "fun_next H = fun_next demo_store" "fun_name H = fun_name demo_store"
    "KSpecEm_visitor L (mod_name demo_store_module) H = Some (mod_funs M' ! 0)"
    by (auto dest!: same_code_blocks) (metis PfChecker_demo_store)
  then have "mod_funs M' ! 0 = visit_function (KSpecEmPassVisitor L (mod_name demo_store_module) H) H"
    by (simp add: KSpecEm_visitor_def demo_options_list)
  with r L show thesis by (intro that [of pa M' out L H]) simp_all
qed

lemma demo_store_module_facts:
  "\<not> contains (mod_name demo_store_module) ''libkspecem.a''" "0 < length (mod_funs demo_store_module)" "demo_store = mod_funs demo_store_module ! 0"
  "list_all (\<lambda>c. \<not> isIn (kspecem_list demo_options) (mod_name demo_store_module) demo_store c) [''blacklist'', ''timer'', ''exception'', ''nospec'']"
  "\<not> startswith (fun_name demo_store) ''kspecem_''" "pointer_size_in_bits (module_layout demo_options) = 64"
  by (simp_all add: demo_options_list) (simp_all add: demo_store_module_def contains_def demo_store_def demo_options_def demo_layout_def)

theorem pipeline_speculation_undone_witness:
  "\<exists>pa M' out t u. run_passes demo_options ([KSpecEmPfCheckerPass] @ [KSpecEmPass] @ [CountInstrsPass]) demo_store_module = Some (pa, M', out)
    \<and> run_function 1 demo_world (mod_funs M' ! 0) (\<lambda>_. 0x3000) demo_inner = Ret None t \<and> mem t 0x3000 = 5
    \<and> kspecem_hook_restart plain_kernel demo_site 0 KSPECEM_RESTART_CALL 0 t = Resume u \<and> mem u 0x3000 = mem demo_inner 0x3000"
proof -
  obtain pa M' out L H where r: "run_passes demo_options ([KSpecEmPfCheckerPass] @ [KSpecEmPass] @ [CountInstrsPass]) demo_store_module =
      Some (pa, M', out)" and L: "kspecem_hooks L" "kspecem_functions L = kspecem_list demo_options" "fun_blocks H = fun_blocks demo_store"
    "fun_next H = fun_next demo_store" "fun_name H = fun_name demo_store"
    "mod_funs M' ! 0 = visit_function (KSpecEmPassVisitor L (mod_name demo_store_module) H) H"
    by (rule demo_store_pipeline)
  obtain t where t: "run_function 1 demo_world (mod_funs M' ! 0) (\<lambda>_. 0x3000) demo_inner = Ret None t"
    "list_all (access_ok demo_world (\<lambda>_. 0x3000)) (function_trace 1 demo_world (mod_funs M' ! 0) (\<lambda>_. 0x3000) demo_inner)"
    "can_end (kern demo_world) demo_site KSPECEM_RESTART_CALL t" "mem t 0x3000 = 5"
    using demo_store_effect [OF L(1) demo_options_list [folded L(2)] L(3-5) arg_cong [where f = fun_blocks, OF L(6)]] .
  from pipeline_speculation_undone [OF r _ _ demo_store_module_facts demo_store_spec demo_world_steps demo_inner_checkpoint
      rtranclp.rtrancl_refl demo_inner_ready(1) t(1-3), of 0]
  obtain u where "kspecem_hook_restart plain_kernel demo_site 0 KSPECEM_RESTART_CALL 0 t = Resume u"
    "\<forall>x. given_back demo_site demo_inner x \<longrightarrow> mem u x = mem demo_inner x"
    by (auto simp: demo_world_fields)
  with r t(1,4) demo_inner_given_back show ?thesis by blast
qed

end
