(* ===== verification/KBalance.thy ===== *)
theory KBalance
  imports KReach
begin

text \<open>
  What the hooks do to preemption, interrupts and NMIs. A hook that returns gives back the state it was called in, whatever happened in between; one
  that jumps to the checkpoint leaves interrupts off there, as the code behind the checkpoint asserts.
\<close>

section \<open>Code that does not touch the processor\<close>

definition cpu_is :: "'c \<Rightarrow> 'c kstate \<Rightarrow> bool" where
  "cpu_is y s \<longleftrightarrow> cpu s = y"

lemma cpu_is_simps [simp]:
  "cpu_is y (s\<lparr>kspecem_spec_assert := x1\<rparr>) = cpu_is y s" "cpu_is y (s\<lparr>mem := x2\<rparr>) = cpu_is y s"
  "cpu_is y (s\<lparr>kspecem_is_in_restart := x3\<rparr>) = cpu_is y s" "cpu_is y (s\<lparr>kspecem_is_in_rt := x3\<rparr>) = cpu_is y s"
  "cpu_is y (s\<lparr>kspecem_spec_call_depth := x4\<rparr>) = cpu_is y s" "cpu_is y (s\<lparr>kspecem_call_depth := x4\<rparr>) = cpu_is y s"
  "cpu_is y (s\<lparr>kspecem_speculative_instr_count := x6\<rparr>) = cpu_is y s" "cpu_is y (s\<lparr>hw := x7\<rparr>) = cpu_is y s"
  "cpu_is y (s\<lparr>klog := x8\<rparr>) = cpu_is y s" "cpu_is y (s\<lparr>kspecem_bugs := x10\<rparr>) = cpu_is y s"
  "cpu_is y (s\<lparr>kspecem_total_statistics := x11\<rparr>) = cpu_is y s" "cpu_is y (s\<lparr>inlineasm := x12\<rparr>) = cpu_is y s"
  "cpu_is y (s\<lparr>kspecem_previous_bugs_map := x13\<rparr>) = cpu_is y s" "cpu_is y (s\<lparr>kspecem_next_bug_index := x5\<rparr>) = cpu_is y s"
  "cpu_is y (s\<lparr>kspecem_wl_stack_base_address := x14\<rparr>) = cpu_is y s" "cpu_is y (s\<lparr>kspecem_wl_stack_len := x15\<rparr>) = cpu_is y s"
  "cpu_is y (s\<lparr>wl_stack_bytes := x16\<rparr>) = cpu_is y s" "cpu_is y (s\<lparr>kspecem_registers := x17\<rparr>) = cpu_is y s"
  "cpu_is y (s\<lparr>kspecem_wl_position := x18\<rparr>) = cpu_is y s" "cpu_is y (s\<lparr>spec_stats := x19\<rparr>) = cpu_is y s"
  "cpu_is y (s\<lparr>kspecem_writelog_enabled := b1\<rparr>) = cpu_is y s" "cpu_is y (s\<lparr>kspecem_in_speculative_emulation := b2\<rparr>) = cpu_is y s"
  "cpu_is y (s\<lparr>kspecem_swap_branch_condition := b3\<rparr>) = cpu_is y s" "cpu_is y (s\<lparr>cpu := z\<rparr>) \<longleftrightarrow> z = y"
  by (simp_all add: cpu_is_def)

lemma cpu_statistics [keeps_rules]:
  "keeps (cpu_is y) R (add_spec_statistics f a b c r)" "keeps (cpu_is y) R (add_restart_to_statistics ty ca)"
  by (auto simp: keeps_def hoare_def add_spec_statistics_def add_restart_to_statistics_def split: option.splits)

lemma cpu_restore_writelog [keeps_rules]:
  assumes "keeps (cpu_is y) R rst"
  shows "keeps (cpu_is y) R (kspecem_restore_writelog rst k st fa regs)"
proof -
  have "keeps (cpu_is y) R (restore_loop rst k st fa regs n i)" for n i
  proof (induction n arbitrary: i)
    case 0
    show ?case unfolding restore_loop.simps by (rule keeps_return)
  next
    case (Suc n)
    show ?case unfolding restore_loop.simps by (intro keeps_rules assms Suc.IH) simp_all
  qed
  then show ?thesis unfolding kspecem_restore_writelog_def by (intro keeps_rules assms) simp_all
qed

lemma cpu_print_and_clear [keeps_rules]:
  "keeps (cpu_is y) R rst \<Longrightarrow> keeps (cpu_is y) R (kspecem_report_print_and_clear rst k b ty)"
  by (rule keeps_print_and_clear) (simp_all add: keeps_lt_assert kspecem_report_clear_globals_def keeps_modify)

text \<open>A restart, with the frame of the jump given back to the registers.\<close>

lemma cpu_restart_rollback [keeps_rules]:
  assumes "keeps (cpu_is y) (cpu_is y) rst"
  shows "keeps (cpu_is y) (cpu_is y) (restart_rollback rst k st arg ty fa regs)"
proof -
  have j: "keeps (cpu_is y) (cpu_is y) (kspecem_restore_registers :: ('a, int) kop)"
    by (simp add: keeps_def hoare_def kspecem_restore_registers_def split: prod.splits)
  have e: "keeps (cpu_is y) (cpu_is y) (case x of None \<Rightarrow> a | Some z \<Rightarrow> panicM (f z))" if "keeps (cpu_is y) (cpu_is y) a"
    for x :: "string option" and a :: "('a, int) kop" and f
    using that by (cases x) (simp_all add: keeps_panic)
  show ?thesis
    unfolding restart_rollback_def restore_stack_def lt_panic_def by (intro keeps_rules assms e j) simp_all
qed

lemma cpu_restart [keeps_rules]: "keeps (cpu_is y) (cpu_is y) (kspecem_restart k st arg ty ca fa regs)"
  unfolding kspecem_restart_def kspecem_restart_with_def by (intro keeps_rules) simp_all

section \<open>Entering and leaving\<close>

definition interrupts_off :: "'c kernel \<Rightarrow> 'c kstate \<Rightarrow> bool" where
  "interrupts_off k s \<longleftrightarrow> irqs_disabled k (cpu s)"

lemma quiet_off: "kernel_ok k \<Longrightarrow> irqs_disabled k (quiet_cpu k y) \<and> irqs_disabled k (stop_nmi k (quiet_cpu k y))"
  by (simp add: kernel_ok_def quiet_cpu_def)

lemma keeps_off: "keeps I (cpu_is y) m \<Longrightarrow> irqs_disabled k y \<Longrightarrow> keeps I (interrupts_off k) m"
  unfolding keeps_def by (erule hoare_weaken) (simp_all add: cpu_is_def interrupts_off_def)

lemma bracket_rule:
  assumes "\<And>s. cpu_is y s \<Longrightarrow> enter s = Ret (irq_flags k y) (s\<lparr>kspecem_is_in_rt := True, cpu := z\<rparr>)"
    and "\<And>s. cpu_is z s \<Longrightarrow> leave (irq_flags k y) s = Ret () (s\<lparr>cpu := y, kspecem_is_in_rt := False\<rparr>)"
    and "keeps (cpu_is z) R m"
  shows "keeps (cpu_is y) R (bindM enter (\<lambda>f. bindM m (\<lambda>x. thenM (leave f) (returnM (g x)))))"
  unfolding keeps_def
proof (rule hoare_bind)
  show "hoare (cpu_is y) enter (\<lambda>f s. f = irq_flags k y \<and> cpu_is z s) R"
    using assms(1) by (simp add: hoare_def)
next
  have l: "hoare (cpu_is z) (thenM (leave (irq_flags k y)) (returnM (g x))) (\<lambda>_. cpu_is y) R" for x
    using assms(2) by (simp add: hoare_def thenM_apply)
  show "hoare (\<lambda>s. f = irq_flags k y \<and> cpu_is z s) (bindM m (\<lambda>x. thenM (leave f) (returnM (g x)))) (\<lambda>_. cpu_is y) R" for f
  proof (cases "f = irq_flags k y")
    case True
    with hoare_bind [OF assms(3) [unfolded keeps_def] l] show ?thesis by simp
  qed (simp add: hoare_def)
qed

lemma bracket:
  assumes "kernel_ok k" and "keeps (cpu_is (stop_nmi k (quiet_cpu k y))) R m"
  shows "keeps (cpu_is y) R (bindM (ENTER_KSPECEM_RT k) (\<lambda>f. bindM m (\<lambda>x. thenM (LEAVE_KSPECEM_RT rst k a b f) (returnM (g x)))))"
  using assms(2) by (rule bracket_rule [rotated 2]) (auto simp: cpu_is_def enter_eq intro!: leave_eq assms(1))

lemma bracket_nonmi:
  assumes "kernel_ok k" and "keeps (cpu_is (quiet_cpu k y)) R m"
  shows "keeps (cpu_is y) R (bindM (ENTER_KSPECEM_NONMI_RT k) (\<lambda>f. bindM m (\<lambda>x. thenM (LEAVE_KSPECEM_NONMI_RT rst k a b f) (returnM (g x)))))"
  using assms(2) by (rule bracket_rule [rotated 2]) (auto simp: cpu_is_def enter_nonmi_eq intro!: leave_nonmi_eq assms(1))

text \<open>Blocks as the hooks write them.\<close>

lemma bracket_blocks:
  assumes "kernel_ok k"
  shows "keeps (cpu_is (stop_nmi k (quiet_cpu k y))) R m \<Longrightarrow>
      keeps (cpu_is y) R (bindM (ENTER_KSPECEM_RT k) (\<lambda>f. seqM [m, LEAVE_KSPECEM_RT rst k a b f]))"
    and "keeps (cpu_is (quiet_cpu k y)) R m \<Longrightarrow>
      keeps (cpu_is y) R (bindM (ENTER_KSPECEM_NONMI_RT k) (\<lambda>f. seqM [m, LEAVE_KSPECEM_NONMI_RT rst k a b f]))"
    and "keeps (cpu_is (quiet_cpu k y)) R m \<Longrightarrow>
      keeps (cpu_is y) R (bindM (ENTER_KSPECEM_NONMI_RT k) (\<lambda>f. thenM (seqM [m, LEAVE_KSPECEM_NONMI_RT rst k a b f]) (returnM r)))"
    and "keeps (cpu_is (stop_nmi k (quiet_cpu k y))) R m \<Longrightarrow>
      keeps (cpu_is y) R (bindM (ENTER_KSPECEM_RT k) (\<lambda>f. seqM [m, panicM p, LEAVE_KSPECEM_RT rst k a b f]))"
proof -
  show "keeps (cpu_is (stop_nmi k (quiet_cpu k y))) R m \<Longrightarrow>
      keeps (cpu_is y) R (bindM (ENTER_KSPECEM_RT k) (\<lambda>f. seqM [m, LEAVE_KSPECEM_RT rst k a b f]))"
    using bracket [OF assms, of y R m rst a b "\<lambda>_. ()"] by (simp add: thenM_def)
  show "keeps (cpu_is (quiet_cpu k y)) R m \<Longrightarrow>
      keeps (cpu_is y) R (bindM (ENTER_KSPECEM_NONMI_RT k) (\<lambda>f. seqM [m, LEAVE_KSPECEM_NONMI_RT rst k a b f]))"
    using bracket_nonmi [OF assms, of y R m rst a b "\<lambda>_. ()"] by (simp add: thenM_def)
  show "keeps (cpu_is (quiet_cpu k y)) R m \<Longrightarrow>
      keeps (cpu_is y) R (bindM (ENTER_KSPECEM_NONMI_RT k) (\<lambda>f. thenM (seqM [m, LEAVE_KSPECEM_NONMI_RT rst k a b f]) (returnM r)))"
    using bracket_nonmi [OF assms, of y R m rst a b "\<lambda>_. r"] by (simp only: seqM.simps thenM_assoc then_return then_returned thenM_def [symmetric])
  show "keeps (cpu_is y) R (bindM (ENTER_KSPECEM_RT k) (\<lambda>f. seqM [m, panicM p, LEAVE_KSPECEM_RT rst k a b f]))"
    if "keeps (cpu_is (stop_nmi k (quiet_cpu k y))) R m"
    unfolding keeps_def
  proof (rule hoare_bind)
    show "hoare (cpu_is y) (ENTER_KSPECEM_RT k) (\<lambda>_. cpu_is (stop_nmi k (quiet_cpu k y))) R"
      by (simp add: hoare_def enter_eq cpu_is_def)
    have "hoare P (panicM p) (\<lambda>_ _. False) R" for P :: "'a kstate \<Rightarrow> bool" by (simp add: hoare_def)
    then show "hoare (cpu_is (stop_nmi k (quiet_cpu k y))) (seqM [m, panicM p, LEAVE_KSPECEM_RT rst k a b f]) (\<lambda>_. cpu_is y) R" for f
      unfolding seqM.simps by (intro hoare_then [OF that [unfolded keeps_def]] hoare_no_return_then)
  qed
qed

section \<open>The hooks\<close>

lemma off_restart [keeps_rules]: "irqs_disabled k y \<Longrightarrow> keeps (cpu_is y) (interrupts_off k) (kspecem_restart k st arg ty ca fa regs)"
  by (rule keeps_off [OF cpu_restart])

lemma off_hook_restart:
  assumes "kernel_ok k"
  shows "keeps (cpu_is y) (interrupts_off k) (kspecem_hook_restart k st arg ty ca)" and "keeps (cpu_is y) (interrupts_off k) (assert_restart k sta)"
proof -
  show h: "keeps (cpu_is y) (interrupts_off k) (kspecem_hook_restart k st arg ty ca)" for st arg ty ca
    unfolding kspecem_hook_restart_def kspecem_hook_restart_with_def CHECK_KSPECEM_INIT_def
    by (intro keeps_ifM keeps_return bracket assms off_restart) (simp add: quiet_off [OF assms])
  show "keeps (cpu_is y) (interrupts_off k) (assert_restart k sta)"
    unfolding assert_restart_def by (intro keeps_ignore h)
qed

lemma off_write_wl:
  assumes "irqs_disabled k y" and "keeps (cpu_is y) (interrupts_off k) rst"
  shows "keeps (cpu_is y) (interrupts_off k) (kspecem_write_wl rst k st a)"
proof -
  have p: "keeps (cpu_is y) R (push_entry st g :: ('a, unit) kop)" for g R
    by (auto simp: keeps_def hoare_def push_entry_def Let_def cpu_is_def)
  have w: "keeps (cpu_is y) (interrupts_off k) (write_wl_aligned rst k st g)" for g
    unfolding write_wl_aligned_def by (intro keeps_rules assms p) simp_all
  have "keeps (cpu_is y) (interrupts_off k) (kspecem_write_wl rst k st (align8 a + 8))"
    by (subst kspecem_write_wl.simps) (simp add: w run_simps)
  then show ?thesis by (subst kspecem_write_wl.simps) (intro keeps_rules w)
qed

lemma off_memcpy:
  assumes "irqs_disabled k y" and "keeps (cpu_is y) (interrupts_off k) rst"
  shows "keeps (cpu_is y) (interrupts_off k) (kspecem_memcpy rst k st a sz)"
proof -
  have "keeps (cpu_is y) (interrupts_off k) (memcpy_loop rst k st n reg e)" for n reg e
    by (induction n arbitrary: reg) (simp_all add: keeps_fault keeps_return keeps_then off_write_wl assms)
  then show ?thesis unfolding kspecem_memcpy_def .
qed

lemma off_small [keeps_rules]:
  "keeps (cpu_is y) R (is_whitelist_task k)" "keeps (cpu_is y) R print_restart_statistics"
  "keeps (cpu_is y) R kspecem_panic_info" "keeps (cpu_is y) R (kspecem_access k ptr sz)"
  "keeps (cpu_is y) R rst \<Longrightarrow> keeps (cpu_is y) R (kspecem_save_stack rst fp fa)"
  "keeps (cpu_is y) R rst \<Longrightarrow> keeps (cpu_is y) R (kspecem_access_report rst k a sz w ip dl pl ty)"
  unfolding is_whitelist_task_def print_restart_statistics_def kspecem_panic_info_def kspecem_access_def
    kspecem_save_stack_def lt_panic_def Let_def printk_def kspecem_access_report_def
  by (auto simp: keeps_def hoare_def km_simps split: sum.splits option.splits prod.splits)[4]
    (intro keeps_rules; simp)+

lemma off_hooks:
  assumes "kernel_ok k"
  shows "keeps (cpu_is y) (interrupts_off k) (kspecem_hook_check_spec_length k st sta n)"
    and "keeps (cpu_is y) (interrupts_off k) (kspecem_hook_check_call_depth k st sta)"
    and "keeps (cpu_is y) (interrupts_off k) (kspecem_hook_access k sta ptr sz)"
    and "keeps (cpu_is y) (interrupts_off k) (kspecem_hook_store k st sta a)"
    and "keeps (cpu_is y) (interrupts_off k) (kspecem_hook_memcpy k st sta a sz)"
  unfolding hook_defs kspecem_store_def
  by (rule bracket_blocks bracket bracket_nonmi off_write_wl off_memcpy off_hook_restart keeps_rules assms | simp add: quiet_off assms)+

text \<open>Restarts made by interrupt handlers return, in the state of the handler.\<close>

lemma cpu_restart_interrupt [keeps_rules]: "keeps (cpu_is y) R (kspecem_restart k st 1 ty ca fa regs)"
proof -
  have e: "keeps (cpu_is y) R (case x of None \<Rightarrow> if (1 :: u64) = 0 then a else returnM 0 | Some z \<Rightarrow> panicM (f z))"
    for x :: "string option" and f and a :: "('a, int) kop"
    by (cases x) (simp_all add: keeps_panic keeps_return)
  have "keeps (cpu_is y) R (restart_rollback (faultM ''re-entered'') k st 1 ty fa regs)"
    unfolding restart_rollback_def restore_stack_def lt_panic_def by (intro keeps_rules e) simp_all
  then show ?thesis unfolding kspecem_restart_def kspecem_restart_with_def by (intro keeps_rules) simp_all
qed

lemma off_interrupts:
  assumes "keeps (cpu_is y) R rst"
  shows "keeps (cpu_is y) R (kspecem_interrupt_timer rst k st arg fa)" and "keeps (cpu_is y) R (kspecem_interrupt_exception rst k st arg fa ty)"
  unfolding kspecem_interrupt_timer_def kspecem_interrupt_exception_def by (intro keeps_rules assms; simp)+

text \<open>Taking a checkpoint and leaving the runtime after it are the two hooks that are halves of a pair.\<close>

definition half_pair :: "hook_call \<Rightarrow> bool" where
  "half_pair h \<longleftrightarrow> h = New_checkpoint \<or> (\<exists>f. h = Leave_rt f)"

lemma off_run_call:
  assumes "kernel_ok k" and "\<not> half_pair h"
  shows "keeps (cpu_is y) (interrupts_off k) (run_call k st sta h)"
proof -
  note off = quiet_off [OF assms(1)] and rst = off_hook_restart [OF assms(1)] and br = bracket_blocks [OF assms(1)] bracket [OF assms(1)] bracket_nonmi [OF assms(1)]
  show ?thesis
    using assms(2) by (cases h; simp only: run_call.simps hook_defs kspecem_store_def)
      (rule br off_write_wl off_memcpy rst off_interrupts keeps_rules | simp add: off half_pair_def)+
qed

text \<open>
  C10. Preemption, interrupts and NMIs are balanced. Every hook but the two that are halves of a pair (taking a checkpoint, and leaving
  the runtime behind it) returns with the processor state it was called in, on every path through it, also
  when its assertions fail or a restart returns; and whenever one jumps to the checkpoint, interrupts are off there.
\<close>

theorem hooks_balanced:
  assumes "kernel_ok k" and "h \<noteq> New_checkpoint" and "\<And>f. h \<noteq> Leave_rt f"
  shows "case run_call k st sta h s of Ret x t \<Rightarrow> cpu t = cpu s | Resume t \<Rightarrow> irqs_disabled k (cpu t) | _ \<Rightarrow> True"
proof -
  have "keeps (cpu_is (cpu s)) (interrupts_off k) (run_call k st sta h)"
    using assms by (intro off_run_call) (simp_all add: half_pair_def)
  then show ?thesis
    unfolding keeps_def hoare_def by (auto simp: cpu_is_def interrupts_off_def split: outcome.split dest: spec [of _ s])
qed

text \<open>A store in a speculation, which returns, and the restart after it, which jumps.\<close>

theorem hooks_balanced_witness:
  "(\<exists>t. run_call plain_kernel demo_site demo_site (Store 0x3000) demo_at = Ret () t \<and> cpu t = cpu demo_at)
    \<and> (\<exists>t. run_call plain_kernel demo_site demo_site (Restart 0 KSPECEM_RESTART_CALL 0) demo_stored = Resume t
      \<and> irqs_disabled plain_kernel (cpu t))"
proof -
  have g: "granules 0x3000 = [0x3000]" by (simp add: granules_def align8_def)
  have s: "run_call plain_kernel demo_site demo_site (Store 0x3000) demo_at = Ret () (store_logged demo_site (granules 0x3000) demo_at)"
    using demo_at_fields by (simp add: kspecem_hook_store_eq [OF plain_kernel_ok] g)
  have "at_checkpoint demo_at"
    unfolding demo_at_def using demo_idle_ready by (intro after_checkpoint_at_checkpoint) (simp_all add: rt_ready_def)
  from restart_gives_back [OF this r_into_rtranclp [of "spec_step plain_kernel", OF demo_stored_step] demo_stored_can_end, of 0] obtain t
    where "kspecem_hook_restart plain_kernel demo_site 0 KSPECEM_RESTART_CALL 0 demo_stored = Resume t" by blast
  then have r: "run_call plain_kernel demo_site demo_site (Restart 0 KSPECEM_RESTART_CALL 0) demo_stored = Resume t"
    by (simp add: ignoreM_def bindM_apply)
  from hooks_balanced [OF plain_kernel_ok, where h = "Store 0x3000" and st = demo_site and sta = demo_site and s = demo_at]
    hooks_balanced [OF plain_kernel_ok, where h = "Restart 0 KSPECEM_RESTART_CALL 0" and st = demo_site and sta = demo_site and s = demo_stored]
  show ?thesis unfolding s r by auto
qed

end
