(* ===== verification/KResume.thy ===== *)
theory KResume
  imports KPipelineSpec KBalance
begin

text \<open>
  Speculations that end in the middle of the instrumented code. A hook that ends one does not return: control jumps to the
  checkpoint. Here it is shown from the jump alone, without any assumption on the tables and the log, that
  memory and registers are those of the checkpoint: whenever the rollback could not be done, the runtime panics.
\<close>

section \<open>A failed assertion is not forgotten\<close>

definition asserted :: "'c kstate \<Rightarrow> bool" where
  "asserted s \<longleftrightarrow> assert_fmt (kspecem_spec_assert s) \<noteq> None"

lemma asserted_record: "asserted (record_assert f l c s)"
  by (simp add: asserted_def record_assert_def)

lemma keeps_asserted_lt_assert: "keeps asserted R rst \<Longrightarrow> keeps asserted R (lt_assert rst f l c t)"
  by (auto simp: keeps_def hoare_def lt_assert_def kspecem_assert_print_def kspecem_panic_def km_simps asserted_def)

lemma keeps_asserted_loop:
  assumes "keeps asserted R rst"
  shows "keeps asserted R (restore_loop rst k st fa regs n i)"
proof (induction n arbitrary: i)
  case 0
  show ?case unfolding restore_loop.simps by (rule keeps_return)
next
  case (Suc n)
  show ?case unfolding restore_loop.simps
    by (intro keeps_return keeps_get keeps_ifM keeps_modify keeps_bind keeps_then keeps_seq_Nil keeps_seq_Cons
        keeps_asserted_lt_assert assms Suc.IH) (simp_all add: asserted_def)
qed

lemma keeps_asserted_writelog:
  "keeps asserted R rst \<Longrightarrow> keeps asserted R (kspecem_restore_writelog rst k st fa regs)"
  unfolding kspecem_restore_writelog_def
  by (intro keeps_return keeps_get keeps_bind keeps_then keeps_seq_Nil keeps_seq_Cons keeps_asserted_lt_assert keeps_asserted_loop)

lemma keeps_asserted_print:
  "keeps asserted R rst \<Longrightarrow> keeps asserted R (kspecem_report_print_and_clear rst k b ty)"
  by (rule keeps_print_and_clear, erule keeps_asserted_lt_assert)
    (simp_all add: asserted_def kspecem_report_clear_globals_def keeps_def hoare_def)

text \<open>What a restart does when the log has been replayed.\<close>

definition after_replay :: "('c, unit) kop \<Rightarrow> 'c kernel \<Rightarrow> int \<Rightarrow> int \<Rightarrow> ('c, int) kop" where
  "after_replay rst k ty r =
     (if r = - 1 then returnM (- 1)
      else thenM
        (seqM [modifyM (\<lambda>s. s\<lparr>kspecem_writelog_enabled := False, kspecem_in_speculative_emulation := False,
                 kspecem_swap_branch_condition := False, kspecem_spec_call_depth := 0, kspecem_call_depth := 0\<rparr>),
               restore_stack, modifyM (\<lambda>s. s\<lparr>kspecem_is_in_restart := False\<rparr>),
               (if ty \<noteq> KSPECEM_RESTART_TIMER \<and> ty \<noteq> KSPECEM_RESTART_EXCEPTION
                then kspecem_report_print_and_clear rst k True ty else returnM ())])
        (bindM (getM kspecem_spec_assert) (\<lambda>a. case assert_fmt a of
           Some fmt \<Rightarrow> panicM [fmt, assert_file a, assert_line a, assert_condition a] | None \<Rightarrow> restart_end 0)))"

lemma restart_rollback_split:
  "restart_rollback rst k st 0 ty fa regs =
     thenM (lt_assert rst ''kspecem_internal.c'' ''81'' ''kspecem_writelog_enabled'' kspecem_writelog_enabled)
       (bindM (kspecem_restore_writelog rst k st (restart_frame st) regs) (after_replay rst k ty))"
  unfolding restart_rollback_def after_replay_def restart_end_def by simp

text \<open>After a failed assertion it panics in the end.\<close>

lemma asserted_after_replay:
  assumes "keeps asserted (\<lambda>_. False) rst"
  shows "keeps asserted (\<lambda>_. False) (after_replay rst k ty r)"
proof -
  have "keeps asserted (\<lambda>_. False) (bindM (getM kspecem_spec_assert) (\<lambda>a. case assert_fmt a of
      Some fmt \<Rightarrow> panicM [fmt, assert_file a, assert_line a, assert_condition a] | None \<Rightarrow> restart_end 0))"
    by (auto simp: keeps_def hoare_def bindM_apply asserted_def)
  with assms show ?thesis
    unfolding after_replay_def restore_stack_def lt_panic_def
    by (intro keeps_return keeps_panic keeps_ifM keeps_if keeps_modify keeps_then keeps_seq_Nil keeps_seq_Cons keeps_asserted_print)
      (simp_all add: asserted_def)
qed

lemma asserted_rollback: "keeps asserted (\<lambda>_. False) (restart_rollback (faultM e) k st 0 ty fa regs)"
  unfolding restart_rollback_split
  by (intro keeps_then keeps_bind keeps_asserted_lt_assert keeps_asserted_writelog asserted_after_replay keeps_fault)

lemma asserted_restart: "keeps asserted (\<lambda>_. False) (kspecem_restart k st 0 ty ca fa regs)"
proof -
  have s: "keeps asserted R (add_spec_statistics f a b c r)" "keeps asserted R (add_restart_to_statistics ty ca)" for R f a b c r ty ca
    by (auto simp: keeps_def hoare_def add_spec_statistics_def add_restart_to_statistics_def asserted_def split: option.splits)
  show ?thesis
    unfolding kspecem_restart_def kspecem_restart_with_def
    by (intro keeps_return keeps_ifM keeps_modify keeps_then keeps_seq_Nil keeps_seq_Cons s asserted_rollback) (simp_all add: asserted_def)
qed

section \<open>A restart that jumps back has rolled back\<close>

lemma assert_then_resumes:
  assumes "thenM (lt_assert rst f l c t) K s = Resume u" and "restarting s" and "keeps asserted (\<lambda>_. False) K"
  shows "t s \<and> K s = Resume u"
proof (cases "t s")
  case False
  with assms(1,2) have "K (record_assert f l c s) = Resume u"
    by (simp add: thenM_apply lt_assert_in_restart restarting_def)
  with hoareD_Resume [OF assms(3) [unfolded keeps_def]] asserted_record show ?thesis by blast
qed (use assms(1) in \<open>simp add: thenM_apply lt_assert_ok\<close>)

lemma restore_loop_returns:
  assumes "keeps asserted (\<lambda>_. True) rst" and "restarting s" and "restore_loop rst k st fa regs n i s = Ret j t"
  shows "asserted t \<or> (\<forall>i<n. skip_entry st fa regs (wl_addrs s i) \<or> restorable k st s (wl_addrs s i))"
  using assms(2,3)
proof (induction n arbitrary: i s)
  case (Suc n)
  let ?s = "s\<lparr>kspecem_wl_position := of_nat n\<rparr>" and ?a = "wl_addrs s n"
  have keeps: "keeps asserted (\<lambda>_. True) (restore_loop rst k st fa regs n (Suc i))"
    by (rule keeps_asserted_loop [OF assms(1)])
  have rest: "asserted t \<or> (\<forall>i<n. skip_entry st fa regs (wl_addrs s i) \<or> restorable k st s (wl_addrs s i))"
    if "restore_loop rst k st fa regs n (Suc i) (?s\<lparr>mem := m\<rparr>) = Ret j t" for m
    using Suc.IH [OF _ that] Suc.prems(1) by (simp add: restarting_def restorable_def kspecem_can_restore_def)
  show ?case
  proof (cases "skip_entry st fa regs ?a")
    case True
    with Suc.prems(2) rest [of "mem s"] show ?thesis by (auto simp: then_modify thenM_apply ifM_apply less_Suc_eq)
  next
    case False
    note skip = False
    show ?thesis
    proof (cases "restorable k st s ?a")
      case True
      with skip Suc.prems(2) have "restore_loop rst k st fa regs n (Suc i) (?s\<lparr>mem := store64 (mem s) ?a (wl_data s n)\<rparr>) = Ret j t"
        by (auto simp: km_simps restorable_def kspecem_can_restore_def)
      from rest [OF this] True show ?thesis by (auto simp: less_Suc_eq)
    next
      case False
      let ?body = "seqM [lt_assert rst ''kspecem_undolog.c'' ''149'' ''kspecem_can_restore(addr)'' (\<lambda>s. kspecem_can_restore k s ?a),
        lt_assert rst ''kspecem_undolog.c'' ''150'' ''&i != addr'' (\<lambda>_. adr_i st \<noteq> ?a),
        lt_assert rst ''kspecem_undolog.c'' ''151'' ''&num_entries != addr'' (\<lambda>_. adr_num_entries st \<noteq> ?a),
        modifyM (\<lambda>s. s\<lparr>mem := store64 (mem s) ?a (wl_data s n)\<rparr>),
        lt_assert rst ''kspecem_undolog.c'' ''154'' ''__memcpy(addr, region, sizeof(uint64_t)) != NULL'' (\<lambda>_. ?a \<noteq> 0)]"
      obtain u where u: "?body ?s = Ret () u" "restore_loop rst k st fa regs n (Suc i) u = Ret j t"
        using Suc.prems(2) skip by (auto simp: then_modify thenM_apply ifM_apply bind_get simp del: seqM.simps split: outcome.splits)
      have "asserted u"
        using u(1) False Suc.prems(1)
        by (auto simp: km_simps restarting_def restorable_def kspecem_can_restore_def record_assert_def asserted_def lt_assert_def
            kspecem_assert_print_def kspecem_panic_def split: if_splits)
      with u(2) keeps have "asserted t" unfolding keeps_def by (blast dest: hoareD_Ret)
      then show ?thesis by blast
    qed
  qed
qed simp

lemma restore_writelog_returns:
  assumes "keeps asserted (\<lambda>_. True) rst" and "restarting s" and "kspecem_restore_writelog rst k st fa regs s = Ret r t"
  shows "asserted t \<or> restore_rsp st \<noteq> 0 \<and> (\<forall>e \<in> set (wl_list s). skip_entry st fa regs (fst e) \<or> restorable k st s (fst e))"
proof -
  let ?n = "unat (kspecem_wl_position s)"
  let ?rest = "bindM (restore_loop rst k st fa regs ?n 0) (\<lambda>i.
      thenM (seqM [lt_assert rst ''kspecem_undolog.c'' ''156'' ''i == num_entries'' (\<lambda>_. i = ?n),
        lt_assert rst ''kspecem_undolog.c'' ''157'' ''kspecem_wl_position == 0'' (\<lambda>s. kspecem_wl_position s = 0)]) (returnM (0 :: int)))"
  have end_here: "keeps asserted (\<lambda>_. True) (thenM (seqM [lt_assert rst ''kspecem_undolog.c'' ''156'' ''i == num_entries'' (\<lambda>_. i = ?n),
        lt_assert rst ''kspecem_undolog.c'' ''157'' ''kspecem_wl_position == 0'' (\<lambda>s. kspecem_wl_position s = 0)]) (returnM (0 :: int)))" for i
    by (intro keeps_then keeps_seq_Cons keeps_seq_Nil keeps_return keeps_asserted_lt_assert assms(1))
  have rest: "keeps asserted (\<lambda>_. True) ?rest" by (intro keeps_bind keeps_asserted_loop assms(1) end_here)
  from assms(3) obtain u where u: "lt_assert rst ''kspecem_undolog.c'' ''125'' ''rsp'' (\<lambda>_. restore_rsp st \<noteq> 0) s = Ret () u" "?rest u = Ret r t"
    by (auto simp: kspecem_restore_writelog_def bind_get thenM_apply simp del: seqM.simps split: outcome.splits)
  show ?thesis
  proof (cases "restore_rsp st = 0")
    case True
    with u(1) assms(2) have "asserted u" by (auto simp: lt_assert_in_restart restarting_def asserted_record)
    with u(2) rest show ?thesis unfolding keeps_def by (blast dest: hoareD_Ret)
  next
    case False
    with u(1) have "u = s" by (simp add: lt_assert_ok)
    with u(2) obtain j v where v: "restore_loop rst k st fa regs ?n 0 s = Ret j v" "thenM (seqM
        [lt_assert rst ''kspecem_undolog.c'' ''156'' ''i == num_entries'' (\<lambda>_. j = ?n),
         lt_assert rst ''kspecem_undolog.c'' ''157'' ''kspecem_wl_position == 0'' (\<lambda>s. kspecem_wl_position s = 0)]) (returnM 0) v = Ret r t"
      by (auto simp: bindM_apply simp del: seqM.simps split: outcome.splits)
    have in_log: "\<exists>i<n. e = (wl_addrs s i, wl_data s i)" if "e \<in> set (log_entries s n)" for e n
      using that by (induction n) (auto simp: less_Suc_eq)
    from restore_loop_returns [OF assms(1,2) v(1)] show ?thesis
    proof
      assume "asserted v"
      with v(2) end_here show ?thesis unfolding keeps_def by (blast dest: hoareD_Ret)
    next
      assume "\<forall>i<?n. skip_entry st fa regs (wl_addrs s i) \<or> restorable k st s (wl_addrs s i)"
      with False in_log show ?thesis by (fastforce simp: wl_list_def)
    qed
  qed
qed

lemma restore_writelog_stays:
  assumes "keeps (\<lambda>_. True) (\<lambda>_. False) rst"
  shows "keeps (\<lambda>_. True) (\<lambda>_. False) (kspecem_restore_writelog rst k st fa regs)"
proof -
  have "keeps (\<lambda>_. True) (\<lambda>_. False) (restore_loop rst k st fa regs n i)" for n i
  proof (induction n arbitrary: i)
    case 0
    show ?case unfolding restore_loop.simps by (rule keeps_return)
  next
    case (Suc n)
    show ?case unfolding restore_loop.simps by (intro keeps_rules assms Suc.IH) simp_all
  qed
  then show ?thesis unfolding kspecem_restore_writelog_def by (intro keeps_rules assms) simp_all
qed

lemma restart_rollback_resumes:
  assumes "restart_rollback (faultM e) k st 0 ty fa regs s = Resume t" and "restarting s"
  shows "rollback_ok k st (restart_frame st) regs s \<and> \<not> asserted s"
proof -
  let ?rst = "faultM e :: ('a, unit) kop"
  have n: "\<not> asserted s" using assms(1) hoareD_Resume [OF asserted_rollback [unfolded keeps_def]] by blast
  have a: "keeps asserted (\<lambda>_. False) (bindM (kspecem_restore_writelog ?rst k st (restart_frame st) regs) (after_replay ?rst k ty))"
    by (intro keeps_bind keeps_asserted_writelog asserted_after_replay keeps_fault)
  from assert_then_resumes [OF assms(1) [unfolded restart_rollback_split] assms(2) a]
  have w: "kspecem_writelog_enabled s"
    and r: "bindM (kspecem_restore_writelog ?rst k st (restart_frame st) regs) (after_replay ?rst k ty) s = Resume t" by blast+
  have f: "keeps asserted (\<lambda>_. True) ?rst" by (rule keeps_fault)
  have "keeps (\<lambda>_. True) (\<lambda>_. False) (kspecem_restore_writelog ?rst k st (restart_frame st) regs)"
    by (intro restore_writelog_stays keeps_fault)
  then have "kspecem_restore_writelog ?rst k st (restart_frame st) regs s \<noteq> Resume u" for u
    unfolding keeps_def by (auto dest: hoareD_Resume)
  with r obtain i u where u: "kspecem_restore_writelog ?rst k st (restart_frame st) regs s = Ret i u" "after_replay ?rst k ty i u = Resume t"
    by (auto simp: bindM_apply split: outcome.splits)
  have "keeps asserted (\<lambda>_. False) (after_replay ?rst k ty i)" by (intro asserted_after_replay keeps_fault)
  with u(2) have "\<not> asserted u" unfolding keeps_def by (blast dest: hoareD_Resume)
  with restore_writelog_returns [OF f assms(2) u(1)] have
    ok: "restore_rsp st \<noteq> 0" "\<forall>e \<in> set (wl_list s). skip_entry st (restart_frame st) regs (fst e) \<or> restorable k st s (fst e)" by blast+
  have "i = 0" "kspecem_wl_stack_base_address u = kspecem_wl_stack_base_address s" "kspecem_wl_stack_len u = kspecem_wl_stack_len s"
    using kspecem_restore_writelog_undo [of s st "restart_frame st" regs k ?rst] ok u(1) by auto
  with u(2) have "kspecem_wl_stack_base_address s - kspecem_wl_stack_len s \<noteq> 0"
    by (auto simp: after_replay_def run_simps thenM_apply restore_stack_def ifM_apply lt_panic_def)
  with n w ok show ?thesis by (simp add: rollback_ok_def)
qed

text \<open>What the jump leaves.\<close>

definition jumped :: "site \<Rightarrow> 'c kstate \<Rightarrow> 'c kstate \<Rightarrow> bool" where
  "jumped st s t \<longleftrightarrow> mem t = store64 (rollback_mem st (restart_frame st) 0 s) (kspecem_registers s RSP - 8) (kspecem_registers s EFLAGS)
     \<and> (\<forall>r \<in> preserved_regs \<union> {RIP, RSP, EFLAGS}. hw t r = kspecem_registers s r)
     \<and> \<not> kspecem_in_speculative_emulation t \<and> \<not> kspecem_writelog_enabled t \<and> \<not> kspecem_is_in_rt t
     \<and> \<not> kspecem_swap_branch_condition t \<and> kspecem_wl_position t = 0"

lemma restart_end_jumped:
  assumes "restart_end 0 u = Resume t"
    and "mem u = rollback_mem st (restart_frame st) 0 s" and "kspecem_registers u = kspecem_registers s"
    and "\<not> kspecem_in_speculative_emulation u" and "\<not> kspecem_writelog_enabled u" and "\<not> kspecem_swap_branch_condition u"
    and "kspecem_wl_position u = 0"
  shows "jumped st s t"
  using assms
  by (auto simp: restart_end_def then_modify kspecem_restore_registers_def kspecem_asm_restore_registers_def jumped_def
      preserved_regs_def Let_def)

lemma rollback_jumps:
  assumes "restart_rollback (faultM e) k st 0 ty fa 0 s = Resume t" and "restarting s"
  shows "jumped st s t \<and> \<not> asserted s"
proof -
  let ?rst = "faultM e :: ('a, unit) kop" and ?u = "rolled_back st (restart_frame st) 0 s"
  from restart_rollback_resumes [OF assms] have ok: "rollback_ok k st (stack_top st 0 fa) 0 s" "\<not> asserted s" by (simp_all add: stack_top_def)
  let ?I = "\<lambda>u. mem u = rollback_mem st (restart_frame st) 0 s \<and> kspecem_registers u = kspecem_registers s
    \<and> \<not> kspecem_in_speculative_emulation u \<and> \<not> kspecem_writelog_enabled u \<and> \<not> kspecem_swap_branch_condition u
    \<and> kspecem_wl_position u = 0"
  have "keeps ?I (\<lambda>_. False) (kspecem_report_print_and_clear ?rst k True ty)"
    by (rule keeps_print_and_clear)
      (simp_all add: keeps_lt_assert keeps_fault kspecem_report_clear_globals_def keeps_modify)
  then have p: "keeps ?I (\<lambda>_. False) (if reports_at_restart ty then kspecem_report_print_and_clear ?rst k True ty else returnM ())"
    by (simp add: keeps_return)
  have u: "?I ?u" by (simp add: rolled_back_def)
  from assms(1) [unfolded restart_rollback_eq [OF ok(1)] stack_top_def] obtain v where
    v: "(if reports_at_restart ty then kspecem_report_print_and_clear ?rst k True ty else returnM ()) ?u = Ret () v"
      "restart_end 0 v = Resume t"
    using hoareD_Resume [OF p [unfolded keeps_def] u]
    by (auto simp: thenM_apply bindM_apply split: outcome.splits option.splits)
  have "?I v" using hoareD_Ret [OF p [unfolded keeps_def] u v(1)] .
  with v(2) ok(2) show ?thesis by (auto intro: restart_end_jumped)
qed

lemma restart_jumps:
  assumes "kspecem_restart k st 0 ty ca fa 0 s = Resume t" and "kspecem_in_speculative_emulation s"
  shows "jumped st s t"
proof -
  let ?v = "\<lambda>u. log_view u = log_view s \<and> kspecem_registers u = kspecem_registers s \<and> restarting u"
  have j: "jumped st s v" if "?v u" "restart_rollback (faultM ''re-entered'') k st 0 ty fa 0 u = Resume v" for u v
    using rollback_jumps [OF that(2)] that(1) rollback_cong(2) [of u s] by (simp add: jumped_def)
  have r: "keeps ?v (jumped st s) (restart_rollback (faultM ''re-entered'') k st 0 ty fa 0)"
    unfolding keeps_def
  proof (rule hoareI)
    show "?v u \<Longrightarrow> restart_rollback (faultM ''re-entered'') k st 0 ty fa 0 u = Ret x v \<Longrightarrow> ?v v" for u x v
      using hoareD_Ret [OF restart_rollback_no_return [of "\<lambda>_. True"]] by blast
  qed (use j in blast)
  have st: "keeps ?v R (add_spec_statistics f a b c r)" "keeps ?v R (add_restart_to_statistics ty' ca')" for R f a b c r ty' ca'
    by (auto simp: keeps_def hoare_def add_spec_statistics_def add_restart_to_statistics_def log_view_def restarting_def split: option.splits)
  have "keeps ?v (jumped st s) (thenM (seqM [add_spec_statistics f a b c r, modifyM (\<lambda>s. s\<lparr>kspecem_spec_call_depth := kspecem_spec_call_depth s - 1\<rparr>)])
      (returnM 0))" for f a b c r
    by (intro keeps_then keeps_seq_Cons keeps_seq_Nil keeps_return keeps_modify st) (simp add: log_view_def restarting_def)
  note inner = keeps_ifM [OF keeps_ifM [OF this keeps_then [OF keeps_seq_Cons [OF st(1) keeps_seq_Cons [OF st(2) keeps_seq_Nil]] r]] r]
  have "?v (s\<lparr>kspecem_is_in_restart := True\<rparr>)" using assms(2) by (simp add: log_view_def restarting_def)
  from hoareD_Resume [OF inner [unfolded keeps_def] this] assms show ?thesis
    by (simp add: kspecem_restart_def kspecem_restart_with_def ifM_apply [of "\<lambda>s. \<not> kspecem_in_speculative_emulation s"] then_modify del: seqM.simps)
qed

section \<open>The checkpoint comes back\<close>

lemma at_checkpoint_swap: "at_checkpoint (c\<lparr>kspecem_swap_branch_condition := b\<rparr>) = at_checkpoint c"
proof -
  have "wl_list (c\<lparr>kspecem_swap_branch_condition := b\<rparr>) = wl_list c" unfolding wl_list_def by (auto intro!: log_entries_cong)
  then show ?thesis by (simp add: at_checkpoint_def spec_inv_def log_inv_def in_frame_def)
qed

text \<open>In the speculation that started at \<open>c\<close>.\<close>

definition speculating :: "'c kstate \<Rightarrow> 'c kstate \<Rightarrow> bool" where
  "speculating c s \<longleftrightarrow> spec_inv (mem c) c s \<and> spec_ready s"

text \<open>Back at the checkpoint. \<open>S\<close> are the call sites a restart may come from, whose stack frames it leaves alone.\<close>

definition put_back :: "site set \<Rightarrow> 'c kstate \<Rightarrow> 'c kstate \<Rightarrow> bool" where
  "put_back S c t \<longleftrightarrow> (\<forall>x. (\<forall>st \<in> S. given_back st c x) \<longrightarrow> mem t x = mem c x)
     \<and> (\<forall>r \<in> preserved_regs \<union> {RIP, RSP, EFLAGS}. hw t r = kspecem_registers c r)
     \<and> \<not> kspecem_in_speculative_emulation t \<and> \<not> kspecem_writelog_enabled t \<and> \<not> kspecem_is_in_rt t
     \<and> \<not> kspecem_swap_branch_condition t"

lemma speculating_frozen: "speculating c s \<Longrightarrow> frozen s t \<Longrightarrow> spec_ready t \<Longrightarrow> speculating c t"
  using spec_inv_frozen by (auto simp: speculating_def)

lemma speculating_simps [simp]:
  "speculating c (s\<lparr>kspecem_spec_assert := x1\<rparr>) = speculating c s" "speculating c (s\<lparr>spec_stats := x2\<rparr>) = speculating c s"
  "speculating c (s\<lparr>kspecem_is_in_restart := x3\<rparr>) = speculating c s" "speculating c (s\<lparr>kspecem_is_in_rt := x3\<rparr>) = speculating c s"
  "speculating c (s\<lparr>kspecem_spec_call_depth := x4\<rparr>) = speculating c s" "speculating c (s\<lparr>cpu := x5\<rparr>) = speculating c s"
  "speculating c (s\<lparr>kspecem_speculative_instr_count := x6\<rparr>) = speculating c s" "speculating c (s\<lparr>hw := x7\<rparr>) = speculating c s"
  "speculating c (s\<lparr>kspecem_swap_branch_condition := x8\<rparr>) = speculating c s"
  "speculating c (s\<lparr>kspecem_total_statistics := x9\<rparr>) = speculating c s" "speculating c (s\<lparr>inlineasm := x10\<rparr>) = speculating c s"
  by (simp_all add: speculating_def spec_inv_def log_inv_def wl_list_def) (simp_all cong: log_entries_cong)

lemma speculating_in_spec: "speculating c s \<Longrightarrow> kspecem_in_speculative_emulation s \<and> kspecem_init_done s"
  by (simp add: speculating_def spec_inv_def)

lemma speculating_restart:
  assumes "at_checkpoint c" and "st \<in> S"
  shows "keeps (speculating c) (put_back S c) (kspecem_restart k st 0 ty ca fa 0)"
  unfolding keeps_def
proof (rule hoareI)
  fix s x t assume s: "speculating c s" and t: "kspecem_restart k st 0 ty ca fa 0 s = Ret x t"
  from s have "frozen s s" by (auto simp: speculating_def intro: frozen_refl)
  with t have "frozen s t" using keeps_restart unfolding keeps_def by (blast dest: hoareD_Ret)
  moreover have "spec_ready t" using s t keeps_ready_runtime(3) unfolding keeps_def speculating_def by (blast dest: hoareD_Ret)
  ultimately show "speculating c t" using s by (blast intro: speculating_frozen)
next
  fix s t assume s: "speculating c s" and "kspecem_restart k st 0 ty ca fa 0 s = Resume t"
  then have j: "jumped st s t" using speculating_in_spec by (blast intro: restart_jumps)
  have inv: "spec_inv (mem c) c s" and regs: "kspecem_registers s = kspecem_registers c" using s by (auto simp: speculating_def spec_inv_def)
  have "mem t x = mem c x" if "\<forall>st \<in> S. given_back st c x" for x
    using j that assms(2) rollback_mem_checkpoint [OF assms(1) inv, of x st] unfolding jumped_def regs
    by (auto simp: given_back_def store64_def)
  with j show "put_back S c t" by (simp add: put_back_def jumped_def regs)
qed

section \<open>The hooks\<close>

lemma speculating_statistics [keeps_rules]:
  "keeps (speculating c) R (add_spec_statistics f a b d r)" "keeps (speculating c) R (add_restart_to_statistics ty ca)"
  by (auto simp: keeps_def hoare_def add_spec_statistics_def add_restart_to_statistics_def split: option.splits)

lemma speculating_enter_leave [keeps_rules]:
  "keeps (speculating c) R (ENTER_KSPECEM_RT k)" "keeps (speculating c) R (ENTER_KSPECEM_NONMI_RT k)"
  "keeps (speculating c) R rst \<Longrightarrow> keeps (speculating c) R (LEAVE_KSPECEM_RT rst k f l fl)"
  "keeps (speculating c) R rst \<Longrightarrow> keeps (speculating c) R (LEAVE_KSPECEM_NONMI_RT rst k f l fl)"
  unfolding ENTER_KSPECEM_RT_def ENTER_KSPECEM_NONMI_RT_def LEAVE_KSPECEM_RT_def LEAVE_KSPECEM_NONMI_RT_def
    kspecem_set_rt_def kspecem_unset_rt_def
  by (intro keeps_rules; simp)+

lemma speculating_hook_restart:
  assumes "at_checkpoint c" and "st \<in> S"
  shows "keeps (speculating c) (put_back S c) (kspecem_hook_restart k st 0 ty ca)"
    and "keeps (speculating c) (put_back S c) (assert_restart k st)"
proof -
  show h: "keeps (speculating c) (put_back S c) (kspecem_hook_restart k st 0 ty ca)" for ty ca
    unfolding kspecem_hook_restart_def kspecem_hook_restart_with_def CHECK_KSPECEM_INIT_def
    by (intro keeps_rules speculating_restart [OF assms])
  show "keeps (speculating c) (put_back S c) (assert_restart k st)"
    unfolding assert_restart_def by (intro keeps_ignore h)
qed

lemma speculating_hooks:
  assumes "at_checkpoint c" and "st \<in> S" and "sta \<in> S"
  shows "keeps (speculating c) (put_back S c) (kspecem_hook_check_spec_length k st sta n)"
    and "keeps (speculating c) (put_back S c) (kspecem_hook_check_call_depth k st sta)"
    and "keeps (speculating c) (put_back S c) (kspecem_hook_access k sta ptr sz)"
  unfolding kspecem_hook_check_spec_length_def kspecem_hook_check_call_depth_def kspecem_hook_access_def kspecem_access_def
    CHECK_KSPECEM_INIT_def CHECK_KSPECEM_RT_def CHECK_KDFINIT_RT_def CHECK_KDFSAN_RT_def lt_panic_def
  by (intro keeps_rules speculating_restart speculating_hook_restart assms; simp)+

lemma speculating_push: "align8 g = g \<Longrightarrow> keeps (speculating c) R (push_entry st g)"
proof -
  assume g: "align8 g = g"
  have "speculating c t" if s: "speculating c s" and t: "push_entry st g s = Ret x t" for s x t
  proof -
    have l: "log_ready s 1" and "t = logged st g s"
      using s t by (auto simp: push_entry_def logged_def Let_def speculating_def spec_ready_def log_ready_def split: if_splits)
    moreover have "log_inv (mem c) (logged st g s)" using s g l by (intro log_inv_logged) (simp_all add: speculating_def spec_inv_def)
    moreover have "log_ready (logged st g s) 0" using l by (intro log_ready_logged) simp
    ultimately show ?thesis using s by (simp add: speculating_def spec_inv_def spec_ready_def logged_def Let_def)
  qed
  then show ?thesis by (auto simp: keeps_def hoare_def split: outcome.split) (auto simp: push_entry_def Let_def split: if_splits)
qed

lemma speculating_write_wl:
  assumes "at_checkpoint c" and "st \<in> S" and "sta \<in> S"
  shows "keeps (speculating c) (put_back S c) (kspecem_write_wl (assert_restart k sta) k st a)"
proof -
  have w: "keeps (speculating c) (put_back S c) (write_wl_aligned (assert_restart k sta) k st (align8 b))" for b
    unfolding write_wl_aligned_def
    by (intro keeps_rules speculating_push speculating_restart speculating_hook_restart assms) simp_all
  have "keeps (speculating c) (put_back S c) (kspecem_write_wl (assert_restart k sta) k st (align8 a + 8))"
    using w [of "align8 a + 8"] by (subst kspecem_write_wl.simps) (simp add: run_simps)
  then show ?thesis by (subst kspecem_write_wl.simps) (intro keeps_then keeps_if keeps_return w)
qed

lemma speculating_log_hooks:
  assumes "at_checkpoint c" and "st \<in> S" and "sta \<in> S"
  shows "keeps (speculating c) (put_back S c) (kspecem_hook_store k st sta a)"
    and "keeps (speculating c) (put_back S c) (kspecem_hook_memcpy k st sta a sz)"
proof -
  have "keeps (speculating c) (put_back S c) (memcpy_loop (assert_restart k sta) k st n reg e)" for n reg e
    by (induction n arbitrary: reg) (simp_all add: keeps_fault keeps_return keeps_then speculating_write_wl assms)
  then show "keeps (speculating c) (put_back S c) (kspecem_hook_store k st sta a)" "keeps (speculating c) (put_back S c) (kspecem_hook_memcpy k st sta a sz)"
    unfolding kspecem_hook_store_def kspecem_hook_memcpy_def kspecem_store_def kspecem_memcpy_def CHECK_KSPECEM_INIT_def
    by (intro keeps_rules speculating_write_wl speculating_hook_restart assms)+
qed

lemma speculating_new_checkpoint: "keeps (speculating c) R (kspecem_hook_new_checkpoint k st sta)"
proof -
  have w: "keeps (speculating c) R (is_whitelist_task k)"
    by (auto simp: keeps_def hoare_def is_whitelist_task_def split: sum.splits)
  have e: "keeps (speculating c) R (ifM kspecem_in_speculative_emulation
      (thenM (add_spec_statistics KSPECEM_FUNC_NEW_CHECKPOINT_INSPEC 0 0 0 (ret_addr st)) (returnM (- 1))) m)" for m :: "('a, u64) kop"
    by (intro keeps_ifM_True keeps_rules) (simp add: speculating_in_spec)
  show ?thesis
    unfolding kspecem_hook_new_checkpoint_def CHECK_KSPECEM_RT_def
    by (rule e w keeps_ifM keeps_bind keeps_if keeps_return)+
qed

section \<open>With interrupts off\<close>

definition undone :: "'c kernel \<Rightarrow> site set \<Rightarrow> 'c kstate \<Rightarrow> 'c kstate \<Rightarrow> bool" where
  "undone k S c t \<longleftrightarrow> put_back S c t \<and> interrupts_off k t"

lemma keeps_undone:
  assumes "keeps I (put_back S c) m" and "\<And>y. keeps (cpu_is y) (interrupts_off k) m"
  shows "keeps I (undone k S c) m"
  unfolding keeps_def
proof (rule hoareI)
  show "I t" if "I s" "m s = Ret x t" for s x t using assms(1) that unfolding keeps_def by (blast dest: hoareD_Ret)
  show "undone k S c t" if "I s" "m s = Resume t" for s t
    using hoareD_Resume [OF assms(1) [unfolded keeps_def] that] hoareD_Resume [OF assms(2) [unfolded keeps_def] _ that(2)]
    by (simp add: undone_def cpu_is_def)
qed

lemma undone_hooks:
  assumes "at_checkpoint c" and "st \<in> S" and "sta \<in> S" and "kernel_ok k"
  shows "keeps (speculating c) (undone k S c) (kspecem_hook_restart k st 0 ty ca)"
    and "keeps (speculating c) (undone k S c) (kspecem_hook_store k st sta a)"
    and "keeps (speculating c) (undone k S c) (kspecem_hook_memcpy k st sta a sz)"
    and "keeps (speculating c) (undone k S c) (kspecem_hook_check_spec_length k st sta n)"
    and "keeps (speculating c) (undone k S c) (kspecem_hook_check_call_depth k st sta)"
    and "keeps (speculating c) (undone k S c) (kspecem_hook_access k sta ptr sz)"
  by (rule keeps_undone speculating_hook_restart speculating_hooks speculating_log_hooks off_hooks off_hook_restart assms)+

end
