(* ===== verification/KSpecEnds.thy ===== *)
theory KSpecEnds
  imports KResume
begin

text \<open>
  Instrumented code until the speculation ends. Whatever hook ends it (a limit, the full log, a call the passes know nothing about, a return
  from the function with the checkpoint), and wherever in the code, the program finds itself back at the checkpoint with
  memory and registers as they were.
\<close>

section \<open>Inserted code\<close>

text \<open>The call sites are among those whose stack frames are left alone, and the kernel balances what it disables and enables.\<close>

definition calls_from :: "site set \<Rightarrow> 'c world \<Rightarrow> bool" where
  "calls_from S w \<longleftrightarrow> range (site_at w) \<union> range (assert_site_at w) \<subseteq> S \<and> kernel_ok (kern w)"

text \<open>An instruction that stays in the speculation or goes back to the checkpoint.\<close>

definition safe_inst :: "site set \<Rightarrow> 'c kstate \<Rightarrow> 'c world \<Rightarrow> ir_inst \<Rightarrow> bool" where
  "safe_inst S c w i \<longleftrightarrow> (\<forall>args e. keeps (speculating c) (undone (kern w) S c) (exec_op w args e i))"

lemma safe_insts: "list_all (safe_inst S c w) is \<Longrightarrow> keeps (speculating c) (undone (kern w) S c) (exec_insts w args is e)"
  by (induction "is" arbitrary: e) (auto simp: exec_inst_def safe_inst_def intro!: keeps_bind keeps_return)

lemma safe_emitted: "emits (safe_inst S c w) m \<Longrightarrow> keeps (speculating c) (undone (kern w) S c) (exec_insts w args (emitted m n) e)"
  by (simp add: emits_def safe_insts)

lemma safe_pure:
  "inst_op i \<in> {BitCastInst x, TruncInst x, ZExtInst x, ICmpInst p x y, FCmpInst q x y, XorInst x y, SelectInst x y z, OtherInst j xs} \<Longrightarrow>
   safe_inst S c w i"
  by (auto simp: safe_inst_def exec_op_def keeps_return Let_def)

lemma safe_load: "inst_op i = LoadInst p \<Longrightarrow> safe_inst S c w i"
  by (auto simp: safe_inst_def exec_op_def load_value_def keeps_get Let_def split: ir_value.split)

lemma emits_safe_casts:
  "emits (safe_inst S c w) (CreateBitCast v t)" "emits (safe_inst S c w) (CreatePointerCast v t)" "emits (safe_inst S c w) (CreateZExt v b)"
  "emits (safe_inst S c w) (CreateTrunc v b)"
  by (rule emits_casts; simp add: safe_pure)+

lemma safe_call:
  "inst_op i = CallInst cc f xs \<Longrightarrow> callee_name f = Some g \<Longrightarrow> (\<And>ys. keeps (speculating c) (undone (kern w) S c) (call_function w (inst_id i) g ys)) \<Longrightarrow>
   safe_inst S c w i"
  by (simp add: safe_inst_def exec_op_def call_value_def Let_def)

text \<open>The hooks, called from the code.\<close>

lemma safe_hooks:
  assumes "at_checkpoint c" and "calls_from S w"
  shows "keeps (speculating c) (undone (kern w) S c) (call_function w i ''kspecem_hook_store'' ys)"
    and "keeps (speculating c) (undone (kern w) S c) (call_function w i ''kspecem_hook_memcpy'' ys)"
    and "keeps (speculating c) (undone (kern w) S c) (call_function w i ''kspecem_hook_check_spec_length'' ys)"
    and "keeps (speculating c) (undone (kern w) S c) (call_function w i ''kspecem_hook_check_call_depth'' ys)"
    and "keeps (speculating c) (undone (kern w) S c) (call_function w i ''kspecem_hook_access'' ys)"
    and "keeps (speculating c) (undone (kern w) S c) (call_function w i ''llvm.returnaddress'' ys)"
proof -
  have "site_at w i \<in> S" "assert_site_at w i \<in> S" "kernel_ok (kern w)" using assms(2) by (auto simp: calls_from_def)
  note h = undone_hooks [OF assms(1) this]
  show "keeps (speculating c) (undone (kern w) S c) (call_function w i ''kspecem_hook_store'' ys)"
    "keeps (speculating c) (undone (kern w) S c) (call_function w i ''kspecem_hook_memcpy'' ys)"
    "keeps (speculating c) (undone (kern w) S c) (call_function w i ''kspecem_hook_check_spec_length'' ys)"
    "keeps (speculating c) (undone (kern w) S c) (call_function w i ''kspecem_hook_check_call_depth'' ys)"
    "keeps (speculating c) (undone (kern w) S c) (call_function w i ''kspecem_hook_access'' ys)"
    "keeps (speculating c) (undone (kern w) S c) (call_function w i ''llvm.returnaddress'' ys)"
    by (auto simp: call_function_hooks void_def intro!: keeps_bind keeps_return h)
qed

lemma safe_kspecem:
  assumes "at_checkpoint c" and "calls_from S w" and "kspecem_hooks L"
  shows "emits (safe_inst S c w) (insertRestartHook L ty v)" and "emits (safe_inst S c w) (visitStoreInst L F p)"
    and "emits (safe_inst S c w) (visitMemIntrinsic L F d len)" and "emits (safe_inst S c w) (visitReturnInst L M F)"
    and "emits (safe_inst S c w) (visitCallInst L M F f)"
proof -
  note h = assms(3) [unfolded kspecem_hooks_def] and e = emitting emits_safe_casts
  have st: "site_at w n \<in> S" "assert_site_at w n \<in> S" "kernel_ok (kern w)" for n using assms(2) by (auto simp: calls_from_def)
  have "keeps (speculating c) (undone (kern w) S c) (exec_op w args e \<lparr>inst_id = n, inst_ty = t,
      inst_op = CallInst cc (restartHook L) [ConstNull u, ConstInt 32 ty, x], is_asan_instr = False\<rparr>)" for args e n t cc u ty x
    unfolding exec_restart_call [OF assms(3)] by (intro keeps_bind keeps_return undone_hooks(1) [OF assms(1) st])
  then have r: "emits (safe_inst S c w) (CreateCall (restartHook L) [ConstNull u, ConstInt 32 ty, x])" for u ty x
    by (intro emits_CreateCall) (simp add: safe_inst_def)
  show i: "emits (safe_inst S c w) (insertRestartHook L ty v)" for ty v
    unfolding insertRestartHook_def by (cases v) (auto intro!: e r)
  have ra: "emits (safe_inst S c w) (CreateCall returnaddress xs)" for xs
    by (intro emits_CreateCall) (simp add: safe_call [OF _ _ safe_hooks(6) [OF assms(1,2)]])
  show "emits (safe_inst S c w) (visitReturnInst L M F)" "emits (safe_inst S c w) (visitCallInst L M F f)"
    unfolding visitReturnInst_def visitCallInst_def by (auto simp: split_beta intro!: e i ra)
  have "safe_inst S c w \<lparr>inst_id = n, inst_ty = t, inst_op = CallInst cc (storeInstHook L) xs, is_asan_instr = b\<rparr>"
    "safe_inst S c w \<lparr>inst_id = n, inst_ty = t, inst_op = CallInst cc (memcpyHook L) xs, is_asan_instr = b\<rparr>" for n t cc xs b
    by (simp_all add: h safe_call [OF _ _ safe_hooks(1) [OF assms(1,2)]] safe_call [OF _ _ safe_hooks(2) [OF assms(1,2)]])
  then show "emits (safe_inst S c w) (visitStoreInst L F p)" "emits (safe_inst S c w) (visitMemIntrinsic L F d len)"
    unfolding visitStoreInst_def visitMemIntrinsic_def by (auto simp: safe_pure intro!: e)
qed

section \<open>The program with its hooks\<close>

text \<open>
  Code that stays in the speculation or goes back to the checkpoint, if its accesses keep off the log.
\<close>

definition tracked :: "site set \<Rightarrow> 'c kstate \<Rightarrow> 'c world \<Rightarrow> (nat \<Rightarrow> nat) \<Rightarrow> ir_inst list \<Rightarrow> bool" where
  "tracked S c w args is \<longleftrightarrow> (\<forall>e s. speculating c s \<longrightarrow> list_all (access_ok w args) (insts_run w args is e s) \<longrightarrow>
     (case exec_insts w args is e s of Ret e' t \<Rightarrow> speculating c t | Resume t \<Rightarrow> undone (kern w) S c t | _ \<Rightarrow> True))"

lemma tracked_keeps: "(\<And>e. keeps (speculating c) (undone (kern w) S c) (exec_insts w args is e)) \<Longrightarrow> tracked S c w args is"
  by (auto simp: tracked_def keeps_def hoare_def)

lemma tracked_append: "tracked S c w args is \<Longrightarrow> tracked S c w args js \<Longrightarrow> tracked S c w args (is @ js)"
  unfolding tracked_def by (fastforce simp: exec_insts_append insts_run_append bindM_apply split: outcome.split)

lemma speculating_steps: "speculating c s \<Longrightarrow> (spec_step k)\<^sup>*\<^sup>* s t \<and> spec_ready t \<Longrightarrow> speculating c t"
  using spec_run.steps_inv unfolding speculating_def by blast

text \<open>Functions that are called stay in the speculation or go back, too.\<close>

definition calls_safe :: "site set \<Rightarrow> 'c kstate \<Rightarrow> 'c world \<Rightarrow> bool" where
  "calls_safe S c w \<longleftrightarrow> calls_from S w \<and> (\<forall>f xs. keeps (speculating c) (undone (kern w) S c) (known_call w f xs))
     \<and> (\<forall>a xs. a = [] \<or> asm_no_restart a False \<longrightarrow> keeps (speculating c) (undone (kern w) S c) (asm_call w a xs))"

lemma only_calls_resume: "exec_op w args e i s = Resume t \<Longrightarrow> \<exists>cc f xs. inst_op i = CallInst cc f xs"
  by (cases "inst_op i") (auto simp: exec_op_def load_value_def store_value_def void_def bindM_apply Let_def split: ir_value.splits if_splits)

lemma call_resumes:
  assumes "inst_op i = CallInst cc f xs" and "spec_context w L M F" and "spec_inst w i" and "calls_safe S c w" and "at_checkpoint c"
    and "speculating c s" and "exec_insts w args (emitted (visitCallInst L M F f) n) e s = Ret e1 s1" and "exec_op w args e1 i s1 = Resume t"
  shows "undone (kern w) S c t"
proof -
  have c: "kspecem_hooks L" "\<not> isIn (kspecem_functions L) M F ''nospec''" "spec_fun w F" using assms(2) by (simp_all add: spec_context_def)
  have S: "calls_from S w" using assms(4) by (simp add: calls_safe_def)
  show ?thesis
  proof (cases rule: visitCallInst_cases [OF c(2,3), where f = f and n = n])
    case (1 g)
    have "keeps (speculating c) (undone (kern w) S c) (call_function w (inst_id i) g ys)" for ys
    proof (cases "g = ''kspecem_hook_access''")
      case False
      with 1(2) assms(1,3,4) show ?thesis
        by (simp add: spec_inst_def program_inst_def access_call_def no_hook_call_def call_function_other calls_safe_def keeps_return)
    qed (simp add: safe_hooks(5) [OF assms(5) S])
    then have "keeps (speculating c) (undone (kern w) S c) (exec_op w args e1 i)"
      using 1(2) assms(1) by (simp add: exec_op_def call_value_def Let_def)
    with 1(1) assms(6-8) show ?thesis unfolding keeps_def by (auto dest: hoareD_Resume)
  next
    case (2 a iV u)
    then have "keeps (speculating c) (undone (kern w) S c) (exec_op w args e1 i)"
      using assms(1,4) by (auto simp: exec_op_def call_value_def calls_safe_def Let_def)
    with 2(1) assms(6-8) show ?thesis unfolding keeps_def by (auto dest: hoareD_Resume)
  next
    case (3 ty v)
    have "spec_ready s" using assms(6) by (simp add: speculating_def)
    from insertRestartHook_stops [OF c(1) 3(2) this] assms(7) 3(1) show ?thesis by auto
  qed
qed

lemma kspecem_inst_tracked:
  assumes "spec_context w L M F" and "spec_inst w i" and "inst_below N i" and "N \<le> n" and "calls_safe S c w" and "at_checkpoint c"
  shows "tracked S c w args (emitted (visit_inst (KSpecEmPassVisitor L M F) i) n @ [built (visit_inst (KSpecEmPassVisitor L M F) i) n])"
  unfolding tracked_def
proof (intro allI impI)
  let ?v = "visit_inst (KSpecEmPassVisitor L M F) i"
  fix e s assume s: "speculating c s" and ok: "list_all (access_ok w args) (insts_run w args (emitted ?v n @ [built ?v n]) e s)"
  have L: "kspecem_hooks L" and S: "calls_from S w" using assms(1,5) by (simp_all add: spec_context_def calls_safe_def)
  have v: "emits (safe_inst S c w) ?v"
    by (cases "inst_op i") (simp_all add: KSpecEmPassVisitor_def emits_bind emits_return safe_kspecem [OF assms(6) S L])
  have b: "built ?v n = i" by (cases "inst_op i") (simp_all add: KSpecEmPassVisitor_def)
  have "speculating c t" if "exec_insts w args (emitted ?v n @ [built ?v n]) e s = Ret e' t" for e' t
    using inst_steps [OF assms(1-4) _ that ok] s speculating_steps by (auto simp: speculating_def)
  moreover have "undone (kern w) S c t" if "exec_insts w args (emitted ?v n @ [built ?v n]) e s = Resume t" for t
  proof (cases "exec_insts w args (emitted ?v n) e s")
    case (Resume u)
    with that s safe_emitted [OF v] show ?thesis unfolding keeps_def by (auto simp: exec_insts_append bindM_apply dest: hoareD_Resume)
  next
    case (Ret e1 s1)
    with that have r: "exec_op w args e1 i s1 = Resume t"
      by (auto simp: exec_insts_append b exec_one bindM_apply simp del: exec_insts.simps split: outcome.splits)
    with only_calls_resume obtain cc f xs where i: "inst_op i = CallInst cc f xs" by blast
    with Ret have "exec_insts w args (emitted (visitCallInst L M F f) n) e s = Ret e1 s1" by (simp add: KSpecEmPassVisitor_def)
    from call_resumes [OF i assms(1,2,5,6) s this r] show ?thesis .
  qed (use that in \<open>simp_all add: exec_insts_append bindM_apply\<close>)
  ultimately show "case exec_insts w args (emitted ?v n @ [built ?v n]) e s of
      Ret e' t \<Rightarrow> speculating c t | Resume t \<Rightarrow> undone (kern w) S c t | _ \<Rightarrow> True" by (simp split: outcome.split)
qed

lemma kspecem_visited_tracked:
  "spec_context w L M F \<Longrightarrow> calls_safe S c w \<Longrightarrow> at_checkpoint c \<Longrightarrow> list_all (spec_inst w) is \<Longrightarrow> list_all (inst_below N) is \<Longrightarrow> N \<le> n \<Longrightarrow>
   tracked S c w args (visited (visit_inst (KSpecEmPassVisitor L M F)) is n)"
proof (induction "is" arbitrary: n)
  case (Cons i "is")
  let ?v = "visit_inst (KSpecEmPassVisitor L M F) i"
  have "n \<le> next_id ?v n" by (intro builder_next builder_KSpecEmPassVisitor(1))
  with Cons.prems(6) have "N \<le> next_id ?v n" by simp
  with Cons have "tracked S c w args (visited (visit_inst (KSpecEmPassVisitor L M F)) is (next_id ?v n))" by simp
  with kspecem_inst_tracked [of w L M F i N n S c args] Cons.prems show ?case
    using tracked_append [of S c w args "emitted ?v n @ [built ?v n]"] by simp
qed (simp add: tracked_keeps keeps_return)

abbreviation tracked_fun :: "site set \<Rightarrow> 'c kstate \<Rightarrow> 'c world \<Rightarrow> (nat \<Rightarrow> nat) \<Rightarrow> ir_function \<Rightarrow> bool" where
  "tracked_fun S c w args F \<equiv> list_all (\<lambda>b. tracked S c w args (bb_insts b)) (fun_blocks F)"

lemma kspecem_tracked:
  assumes "spec_context w L M F" and "fun_below F" and "calls_safe S c w" and "at_checkpoint c"
  shows "tracked_fun S c w args (visit_function (KSpecEmPassVisitor L M F) F)"
  unfolding list_all_iff
proof
  let ?V = "KSpecEmPassVisitor L M F"
  fix b' assume "b' \<in> set (fun_blocks (visit_function ?V F))"
  then have "b' \<in> set (fst (visit_blocks ?V (fun_blocks F) (fun_next F)))" by (simp add: visit_function_def split_beta)
  then obtain b m where b: "b \<in> set (fun_blocks F)" "fun_next F \<le> m" "b' = fst (visit_block ?V b m)"
    using visit_blocks_in [OF builder_KSpecEmPassVisitor] by blast
  have i: "list_all (spec_inst w) (bb_insts b)" "list_all (inst_below (fun_next F)) (bb_insts b)"
    using assms(1,2) b(1) by (simp_all add: spec_context_def spec_fun_def fun_below_def block_below_def list_all_iff)
  have L: "kspecem_hooks L" and S: "calls_from S w" using assms(1,3) by (simp_all add: spec_context_def calls_safe_def)
  have "emits (safe_inst S c w) (visit_term ?V b)"
    by (cases "bb_term b") (simp_all add: KSpecEmPassVisitor_def emits_bind emits_return safe_kspecem [OF assms(4) S L])
  then have "tracked S c w args (emitted (visit_term ?V b) k)" for k by (intro tracked_keeps safe_emitted)
  with kspecem_visited_tracked [OF assms(1,3,4) i b(2)] show "tracked S c w args (bb_insts b')"
    by (simp add: b(3) visit_block_eq Let_def tracked_append)
qed

section \<open>The other passes\<close>

lemma visit_function_tracked:
  assumes "visit_inst V = State_Monad.return" and "\<And>b. builder (visit_term V b)"
    and "\<And>b n e. keeps (speculating c) (undone (kern w) S c) (exec_insts w args (emitted (visit_term V b) n) e)" and "tracked_fun S c w args F"
  shows "tracked_fun S c w args (visit_function V F)"
  unfolding list_all_iff
proof
  have i: "builder (visit_inst V i)" for i by (simp add: assms(1))
  fix b' assume "b' \<in> set (fun_blocks (visit_function V F))"
  then have "b' \<in> set (fst (visit_blocks V (fun_blocks F) (fun_next F)))" by (simp add: visit_function_def split_beta)
  then obtain b m where b: "b \<in> set (fun_blocks F)" "b' = fst (visit_block V b m)"
    using visit_blocks_in [OF i assms(2)] by blast
  then have "bb_insts b' = bb_insts b @ emitted (visit_term V b) m"
    by (simp add: visit_block_eq [OF i assms(2)] assms(1) visited_return Let_def)
  with assms(4) b(1) tracked_keeps [OF assms(3)] show "tracked S c w args (bb_insts b')" by (simp add: list_all_iff tracked_append)
qed

lemma length_tracked:
  assumes "length_hook h" and "tracked_fun S c w args F" and "at_checkpoint c" and "calls_from S w"
  shows "tracked_fun S c w args (CheckSpecLength_visitor h F)"
proof -
  have "safe_inst S c w \<lparr>inst_id = n, inst_ty = t, inst_op = CallInst cc h xs, is_asan_instr = b\<rparr>" for n t cc xs b
    using assms(1) safe_call [OF _ _ safe_hooks(3) [OF assms(3,4)]] by (auto simp: length_hook_def)
  then have "emits (safe_inst S c w) (visit_term (CheckSpecLengthVisitor h) b)" for b
    unfolding CheckSpecLengthVisitor_def by (auto intro!: emitting emits_CreateCall)
  then have "tracked_fun S c w args (visit_function (CheckSpecLengthVisitor h) F)"
    by (intro visit_function_tracked assms(2) safe_emitted) (simp_all add: CheckSpecLengthVisitor_def fun_eq_iff emits_def)
  with assms(2) show ?thesis by (simp add: CheckSpecLength_visitor_def)
qed

text \<open>In a speculation the checkpoint code only asks for a checkpoint.\<close>

lemma checkpoint_resumes:
  assumes "spec_hooks LS" and "spec_ready s" and "exec_insts w args (emitted (emitNewCheckpointHook LS) n) e s = Resume t"
  shows "kspecem_hook_new_checkpoint (kern w) (site_at w n) (assert_site_at w n) s = Resume t"
proof (cases "kspecem_hook_new_checkpoint (kern w) (site_at w n) (assert_site_at w n) s")
  case (Ret f u)
  have m: "of_nat (unat (- 1 :: u64)) = (- 1 :: u64)" by simp
  have r: "save_registers fl (- 1) v = Ret () (v\<lparr>hw := (hw v)(RAX := 0, RIP := load64 (mem v) (hw v RSP), RSP := hw v RSP + 8)\<rparr>)"
    for fl and v :: "'a kstate"
    by (simp add: save_registers_def kspecem_asm_save_registers_def Let_def)
  from new_checkpoint_in_spec [OF assms(2) Ret] Ret assms m r show ?thesis
    by (auto simp: emitNewCheckpointHook_def spec_hooks_def bindM_apply exec_inst_def exec_op_def call_value_def call_function_spec
        call_function_hooks void_def argn_def load_value_def Let_def kspecem_hook_save_stack_def kspecem_hook_leave_rt_def)
qed (use assms in \<open>auto simp: emitNewCheckpointHook_def spec_hooks_def bindM_apply exec_inst_def exec_op_def call_value_def call_function_spec Let_def\<close>)

lemma safe_emitBranch:
  assumes "spec_hooks LS"
  shows "keeps (speculating c) (undone (kern w) S c) (exec_insts w args (emitted (emitBranch LS F cnd) n) e)"
proof -
  have ch: "keeps (speculating c) (undone (kern w) S c) (exec_insts w args (emitted (emitNewCheckpointHook LS) n) e)"
    unfolding keeps_def
  proof (rule hoareI)
    show "speculating c t" if "speculating c s" "exec_insts w args (emitted (emitNewCheckpointHook LS) n) e s = Ret x t" for s x t
      using that stepsD [OF steps_checkpoint [OF assms]] by (blast intro: speculating_steps dest: speculating_def [THEN iffD1])
    show "undone (kern w) S c t" if "speculating c s" "exec_insts w args (emitted (emitNewCheckpointHook LS) n) e s = Resume t" for s t
      using checkpoint_resumes [OF assms _ that(2)] that(1) hoareD_Resume [OF speculating_new_checkpoint [unfolded keeps_def]]
      by (blast dest: speculating_def [THEN iffD1])
  qed
  have "safe_inst S c w \<lparr>inst_id = k, inst_ty = VoidTy, inst_op = StoreInst (ConstInt 32 0) kspecem_swap_branch_condition_var,
      is_asan_instr = False\<rparr>" for k
    by (simp add: safe_inst_def exec_op_def store_value_def void_def Let_def keeps_bind keeps_modify keeps_return)
  moreover have "emits (safe_inst S c w) (invertedCondition F cnd)"
    by (auto simp: invertedCondition_def safe_pure intro!: emitting split: option.split ir_op.split)
  ultimately have "emits (safe_inst S c w) (emitCondition F cnd)"
    unfolding emitCondition_def by (intro emitting) (simp_all add: safe_pure safe_load)
  from keeps_bind [OF ch safe_emitted [OF this]] show ?thesis by (simp only: emitBranch_split exec_insts_append)
qed

lemma spec_tracked:
  assumes "spec_hooks LS" and "tracked_fun S c w args F" and "at_checkpoint c" and "calls_from S w"
  shows "tracked_fun S c w args (KSpecEmSpec_visitor LS m F)"
proof -
  have "safe_inst S c w \<lparr>inst_id = n, inst_ty = t, inst_op = CallInst cc (checkCallDepthHook LS) xs, is_asan_instr = b\<rparr>"
    "safe_inst S c w \<lparr>inst_id = n, inst_ty = t, inst_op = CallInst cc returnaddress xs, is_asan_instr = b\<rparr>" for n t cc xs b
    using assms(1) safe_call [OF _ _ safe_hooks(4) [OF assms(3,4)]] safe_call [OF _ _ safe_hooks(6) [OF assms(3,4)]]
    by (simp_all add: spec_hooks_def)
  then have d: "emits (safe_inst S c w) (emitCallDepthHook LS F)"
    unfolding emitCallDepthHook_def by (intro emitting emits_safe_casts emits_CreateCall)
  have "tracked_fun S c w args (insert_call_depth LS F)"
  proof (cases "fun_blocks F")
    case (Cons bb rest)
    obtain bb' n' where i: "insert_at_front (emitCallDepthHook LS F) bb (fun_next F) = (bb', n')" by fastforce
    then have "bb_insts bb' = emitted (emitCallDepthHook LS F) (fun_next F) @ bb_insts bb"
      by (auto simp: insert_at_front_def builder_run [OF builder_emitCallDepthHook])
    with Cons i assms(2) tracked_keeps [OF safe_emitted [OF d]] show ?thesis by (simp add: insert_call_depth_def tracked_append)
  qed (use assms(2) in \<open>simp add: insert_call_depth_def\<close>)
  then have "tracked_fun S c w args (visit_function (KSpecEmSpecPassVisitor LS G) (insert_call_depth LS F))" for G
    by (rule visit_function_tracked [rotated 3])
      (auto simp: KSpecEmSpecPassVisitor_def fun_eq_iff builder_emitBranch keeps_return
        intro!: safe_emitBranch [OF assms(1)] split: terminator.split)
  with assms(2) show ?thesis by (simp add: KSpecEmSpec_visitor_def Let_def)
qed

section \<open>Functions of a pipeline\<close>

lemma tracked_blocks_run:
  assumes "list_all (\<lambda>b. tracked S c w args (bb_insts b)) bs"
  shows "speculating c s \<Longrightarrow> list_all (access_ok w args) (trace n w args bs prev l e s) \<Longrightarrow>
    (case run_blocks n w args bs prev l e s of Ret r t \<Rightarrow> speculating c t | Resume t \<Rightarrow> undone (kern w) S c t | _ \<Rightarrow> True)"
proof (induction n arbitrary: prev l e s)
  case (Suc n)
  show ?case
  proof (cases "find (\<lambda>b. bb_label b = l) bs")
    case (Some b)
    let ?e = "exec_phis w args prev (bb_phis b) e"
    from Some have "b \<in> set bs" by (auto simp: find_Some_iff)
    with assms have "tracked S c w args (bb_insts b)" by (simp add: list_all_iff)
    moreover have "list_all (access_ok w args) (insts_run w args (bb_insts b) ?e s)" using Suc.prems(2) Some by (simp add: Let_def)
    ultimately have o: "case exec_insts w args (bb_insts b) ?e s of Ret e' t \<Rightarrow> speculating c t | Resume t \<Rightarrow> undone (kern w) S c t | _ \<Rightarrow> True"
      using Suc.prems(1) unfolding tracked_def by blast
    show ?thesis
    proof (cases "exec_insts w args (bb_insts b) ?e s")
      case (Ret e' t)
      with o Some Suc.prems(2) show ?thesis
        using Suc.IH [of t] by (cases "exec_term w args (bb_term b) e'") (simp_all add: bindM_apply Let_def)
    qed (use o Some in \<open>simp_all add: bindM_apply\<close>)
  qed simp
qed simp

lemma tracked_function_ends:
  assumes "tracked_fun S c w args F" and "speculating c s" and "run_function n w F args s = Resume t"
    and "list_all (access_ok w args) (function_trace n w F args s)"
  shows "undone (kern w) S c t"
  using tracked_blocks_run [OF assms(1,2)] assms(3,4)
  by (cases "fun_blocks F") (fastforce simp: run_function_def function_trace_def)+

lemma additions_tracked:
  assumes "at_checkpoint c" and "calls_from S w"
  shows "passes_make opts m ps F F' \<Longrightarrow> set ps \<subseteq> {CountInstrsPass, KSpecEmCheckSpecLengthPass, KSpecEmSpecPass} \<Longrightarrow>
    tracked_fun S c w args F \<Longrightarrow> tracked_fun S c w args F'"
proof (induction ps arbitrary: F)
  case (Cons p ps)
  then obtain G where G: "makes opts m p F G" "passes_make opts m ps G F'" by auto
  have "tracked_fun S c w args H" if "same_code F H" for H using Cons.prems(3) same_code_blocks [OF that] by simp
  then have "tracked_fun S c w args G"
    using G(1) Cons.prems(2,3) by (auto simp: length_tracked spec_tracked assms split: if_splits)
  with Cons.IH [OF G(2)] Cons.prems(2) show ?case by simp
qed simp

lemma pipeline_tracked:
  assumes "run_passes opts (ps @ [KSpecEmPass] @ qs) M = Some (pa, M', out)" and "set ps \<subseteq> {CountInstrsPass, KSpecEmPfCheckerPass}"
    and "set qs \<subseteq> {CountInstrsPass, KSpecEmCheckSpecLengthPass, KSpecEmSpecPass}" and "\<not> contains (mod_name M) ''libkspecem.a''"
    and "j < length (mod_funs M)" and "F = mod_funs M ! j"
    and "list_all (\<lambda>c. \<not> isIn (kspecem_list opts) (mod_name M) F c) [''blacklist'', ''timer'', ''exception'', ''nospec'']"
    and "\<not> startswith (fun_name F) ''kspecem_''" and "pointer_size_in_bits (module_layout opts) = 64" and "fun_below F"
    and "spec_fun w F" and "calls_steps w" and "calls_safe S c w" and "at_checkpoint c"
  shows "tracked_fun S c w args (mod_funs M' ! j)"
proof -
  from run_passes_make [OF assms(1,5)] obtain G H where G: "passes_make opts (mod_name M) ps F G"
    "makes opts (mod_name M) KSpecEmPass G H" "passes_make opts (mod_name M) qs H (mod_funs M' ! j)"
    by (auto simp: passes_make_append assms(6))
  have g: "fun_below G" "spec_fun w G" "fun_name G = fun_name F" using checks_first [OF G(1) assms(2,10,11)] by simp_all
  have n: "list_all (\<lambda>c. \<not> isIn (kspecem_list opts) (mod_name M) G c) [''blacklist'', ''timer'', ''exception'', ''nospec'']"
    "\<not> startswith (fun_name G) ''kspecem_''" using assms(7,8) isIn_name [OF g(3)] g(3) by simp_all
  obtain L K where L: "spec_context w L (mod_name M) K" "fun_below K" "H = visit_function (KSpecEmPassVisitor L (mod_name M) K) K"
    using KSpecEm_makes [OF G(2) assms(4) n assms(9) g(1,2) assms(12)] .
  have "calls_from S w" using assms(13) by (simp add: calls_safe_def)
  from additions_tracked [OF assms(14) this G(3) assms(3)] kspecem_tracked [OF L(1,2) assms(13,14)] show ?thesis by (simp add: L(3))
qed

text \<open>
  C5. However a speculation ends, the program is back at the checkpoint. Take a function as in the theorem before, in a module after the same
  passes, and let it run during a speculation. If control jumps out of it (at the limit of instructions or calls, with a
  full log, before a call the passes know nothing about, at the return from the function with the checkpoint), then
  memory is that of the checkpoint outside the stack frames of the restarts, the registers are those saved
  there, interrupts are off as they were there, and the speculation is over. Nothing is assumed of the tables and lists of the runtime: when they do not
  allow the rollback, the kernel panics and nothing runs on.
\<close>

theorem pipeline_speculation_ends:
  assumes "run_passes opts (ps @ [KSpecEmPass] @ qs) M = Some (pa, M', out)" and "set ps \<subseteq> {CountInstrsPass, KSpecEmPfCheckerPass}"
    and "set qs \<subseteq> {CountInstrsPass, KSpecEmCheckSpecLengthPass, KSpecEmSpecPass}" and "\<not> contains (mod_name M) ''libkspecem.a''"
    and "j < length (mod_funs M)" and "F = mod_funs M ! j"
    and "list_all (\<lambda>c. \<not> isIn (kspecem_list opts) (mod_name M) F c) [''blacklist'', ''timer'', ''exception'', ''nospec'']"
    and "\<not> startswith (fun_name F) ''kspecem_''" and "pointer_size_in_bits (module_layout opts) = 64" and "fun_below F"
    and "spec_fun w F" and "calls_steps w" and "calls_safe S c w" and "at_checkpoint c" and "(spec_step (kern w))\<^sup>*\<^sup>* c s" and "spec_ready s"
    and "run_function n w (mod_funs M' ! j) args s = Resume t"
    and "list_all (access_ok w args) (function_trace n w (mod_funs M' ! j) args s)"
  shows "(\<forall>x. (\<forall>st \<in> S. given_back st c x) \<longrightarrow> mem t x = mem c x)
    \<and> (\<forall>x \<in> preserved_regs \<union> {RIP, RSP, EFLAGS}. hw t x = kspecem_registers c x)
    \<and> \<not> kspecem_in_speculative_emulation t \<and> \<not> kspecem_writelog_enabled t \<and> irqs_disabled (kern w) (cpu t)"
proof -
  have "spec_inv (mem c) c s" using spec_run.steps_inv [OF assms(15)] assms(14) by (simp add: at_checkpoint_def)
  with assms(16) have "speculating c s" by (simp add: speculating_def)
  from tracked_function_ends [OF pipeline_tracked [OF assms(1-14)] this assms(17,18)] show ?thesis by (simp add: undone_def put_back_def interrupts_off_def)
qed

section \<open>An example\<close>

text \<open>
  The function that stores through its argument, as the one that was entered before the checkpoint: its return ends the speculation.
  It starts at the checkpoint, whether the branch has been inverted already or not.
\<close>

definition demo_on :: "bool \<Rightarrow> machine kstate" where
  "demo_on b = demo_at\<lparr>kspecem_swap_branch_condition := b\<rparr>"

lemma demo_on_at: "demo_on (kspecem_swap_branch_condition demo_at) = demo_at"
  by (simp add: demo_on_def)

lemma demo_on_fields: "log_ready (demo_on b) 1" "loggable plain_kernel (demo_on b) 0x3000" "kspecem_init_done (demo_on b)"
  using demo_at_fields(1-3) by (simp_all add: demo_on_def log_ready_def loggable_def wl_addrs_end_def wl_data_end_def)

lemma demo_on_store:
  "kspecem_hook_store plain_kernel demo_site demo_site 0x3000 (demo_on b) = Ret () (store_logged demo_site [0x3000] (demo_on b))"
  using kspecem_hook_store_eq [OF plain_kernel_ok, of "demo_on b" "0x3000" demo_site demo_site] demo_on_fields by (simp add: demo_granules)

lemma demo_on_checkpoint: "at_checkpoint (demo_on b)" "spec_ready (demo_on b)"
proof -
  have "at_checkpoint demo_at"
    unfolding demo_at_def using demo_idle_ready by (auto intro!: after_checkpoint_at_checkpoint simp: rt_ready_def)
  then show "at_checkpoint (demo_on b)" by (simp add: demo_on_def at_checkpoint_swap)
  show "spec_ready (demo_on b)" using demo_on_fields by (auto simp: spec_ready_def intro: log_ready_mono)
qed

lemma demo_calls_safe: "calls_safe {demo_site} c demo_world"
  by (simp add: calls_safe_def calls_from_def demo_world_def keeps_return plain_kernel_ok)

lemma demo_on_restarts:
  fixes b :: bool
  defines "u \<equiv> store_logged demo_site [0x3000] (demo_on b)"
  shows "\<exists>t. kspecem_hook_restart plain_kernel demo_site 0 KSPECEM_RESTART_RETURN 0xffffffff81000040
    (u\<lparr>mem := write_bytes (mem u) 0x3000 (bytes_of_nat 8 5)\<rparr>) = Resume t"
proof -
  define s where "s = u\<lparr>mem := write_bytes (mem u) 0x3000 (bytes_of_nat 8 5)\<rparr>"
  have w: "log_view (demo_stored\<lparr>mem := mem s\<rparr>) = log_view s"
    by (simp add: log_view_def s_def u_def demo_on_def demo_stored_def store_logged_def log_of_def logged_def Let_def)
  have "can_end plain_kernel demo_site KSPECEM_RESTART_CALL s"
    using demo_stored_mem_can_end demo_at_fields(4)
    by (intro can_end_cong [OF w]) (simp_all add: s_def u_def demo_on_def demo_stored_def store_logged_def log_of_def stats_ready_def)
  moreover have "kspecem_spec_call_depth s = 0"
    by (simp add: s_def u_def demo_on_def store_logged_def log_of_def demo_at_def after_checkpoint_def checkpointed_def split: prod.splits)
  ultimately have e: "can_end plain_kernel demo_site KSPECEM_RESTART_RETURN s" by (simp add: can_end_def ends_speculation_def)
  have st: "spec_step plain_kernel (demo_on b) s"
    unfolding s_def u_def using demo_on_fields(1,2) plain_kernel_ok
    by (intro spec_step.store [OF demo_on_store]) (simp_all add: demo_granules bytes_of_nat_def)
  from restart_gives_back [OF demo_on_checkpoint(1) r_into_rtranclp [of "spec_step plain_kernel", OF st] e, of "0xffffffff81000040"]
  show ?thesis unfolding s_def by blast
qed

lemma demo_store_ends:
  assumes "kspecem_hooks L" and "\<And>c. \<not> isIn (kspecem_functions L) M F c" and "fun_blocks F = fun_blocks demo_store"
    and "fun_next F = fun_next demo_store" and "fun_name F = fun_name demo_store"
  obtains t where "run_blocks 1 demo_world (\<lambda>_. 0x3000) (fun_blocks (visit_function (KSpecEmPassVisitor L M F) F)) prev ''entry'' e (demo_on b) = Resume t"
    and "list_all (access_ok demo_world (\<lambda>_. 0x3000))
      (trace 1 demo_world (\<lambda>_. 0x3000) (fun_blocks (visit_function (KSpecEmPassVisitor L M F) F)) prev ''entry'' e (demo_on b))"
proof -
  let ?bs = "fun_blocks (visit_function (KSpecEmPassVisitor L M F) F)"
  note F' = demo_store_instrumented [OF assms]
  obtain t where t: "kspecem_hook_restart plain_kernel demo_site 0 KSPECEM_RESTART_RETURN 0xffffffff81000040
    ((store_logged demo_site [0x3000] (demo_on b))\<lparr>mem := write_bytes (mem (store_logged demo_site [0x3000] (demo_on b))) 0x3000 (bytes_of_nat 8 5)\<rparr>)
      = Resume t" using demo_on_restarts by blast
  have "run_blocks 1 demo_world (\<lambda>_. 0x3000) ?bs prev ''entry'' e (demo_on b) = Resume t"
    using t demo_on_store
    by (simp add: F' bindM_apply exec_inst_def exec_op_def call_value_def call_function_hooks store_value_def void_def
        argn_def Let_def demo_world_fields exec_phis_def)
  moreover have "list_all (access_ok demo_world (\<lambda>_. 0x3000)) (trace 1 demo_world (\<lambda>_. 0x3000) ?bs prev ''entry'' e (demo_on b))"
    using demo_on_store demo_on_fields(2)
    by (simp add: F' bindM_apply exec_inst_def exec_op_def call_value_def call_function_hooks void_def argn_def Let_def
        demo_world_fields access_ok_def demo_granules hook_loggable [OF demo_on_checkpoint(2) disjI1 [OF demo_on_store]]
        exec_term_def exec_phis_def split: outcome.split)
  ultimately show thesis by (rule that)
qed

theorem pipeline_speculation_ends_witness:
  "\<exists>pa M' out t. run_passes demo_options ([KSpecEmPfCheckerPass] @ [KSpecEmPass] @ [CountInstrsPass]) demo_store_module = Some (pa, M', out)
    \<and> run_function 1 demo_world (mod_funs M' ! 0) (\<lambda>_. 0x3000) demo_at = Resume t
    \<and> mem t 0x3000 = mem demo_at 0x3000 \<and> \<not> kspecem_in_speculative_emulation t"
proof -
  obtain pa M' out L H where r: "run_passes demo_options ([KSpecEmPfCheckerPass] @ [KSpecEmPass] @ [CountInstrsPass]) demo_store_module =
      Some (pa, M', out)" and L: "kspecem_hooks L" "kspecem_functions L = kspecem_list demo_options" "fun_blocks H = fun_blocks demo_store"
    "fun_next H = fun_next demo_store" "fun_name H = fun_name demo_store"
    "mod_funs M' ! 0 = visit_function (KSpecEmPassVisitor L (mod_name demo_store_module) H) H"
    by (rule demo_store_pipeline)
  obtain t where t: "run_function 1 demo_world (mod_funs M' ! 0) (\<lambda>_. 0x3000) demo_at = Resume t"
    "list_all (access_ok demo_world (\<lambda>_. 0x3000)) (function_trace 1 demo_world (mod_funs M' ! 0) (\<lambda>_. 0x3000) demo_at)"
    by (rule demo_store_ends [OF L(1) demo_options_list [folded L(2)] L(3-5), where M = "mod_name demo_store_module" and prev = "[]" and e = "\<lambda>_. 0"
          and b = "kspecem_swap_branch_condition demo_at"])
      (simp add: run_function_def function_trace_def L(6) demo_on_at demo_store_instrumented [OF L(1) demo_options_list [folded L(2)] L(3-5)]
        del: run_blocks.simps trace.simps One_nat_def)
  from pipeline_speculation_ends [OF r _ _ demo_store_module_facts demo_store_spec demo_world_steps demo_calls_safe
      demo_on_checkpoint(1) [of "kspecem_swap_branch_condition demo_at", unfolded demo_on_at] rtranclp.rtrancl_refl
      demo_on_checkpoint(2) [of "kspecem_swap_branch_condition demo_at", unfolded demo_on_at] t] demo_inner_given_back
  have "mem t 0x3000 = mem demo_at 0x3000 \<and> \<not> kspecem_in_speculative_emulation t"
    by (simp add: given_back_def in_frame_def demo_inner_def)
  with r t(1) show ?thesis by blast
qed

end
