(* ===== verification/KSpecLength.thy ===== *)
theory KSpecLength
  imports KTransparent
begin

text \<open>
  A speculation comes to an end. Every block of a function instrumented by
  \<open>KSpecEmCheckSpecLength.cpp\<close> adds its instructions to the count of the runtime, which ends the
  speculation at its limit, so that only so many instructions are run, even in a loop that never ends.
\<close>

section \<open>The blocks of a run\<close>

text \<open>The blocks a run gets through, at most \<open>n\<close>.\<close>

primrec blocks_run ::
  "nat \<Rightarrow> 'c world \<Rightarrow> (nat \<Rightarrow> nat) \<Rightarrow> basic_block list \<Rightarrow> string \<Rightarrow> string \<Rightarrow> env \<Rightarrow> 'c kstate \<Rightarrow> basic_block list" where
  "blocks_run 0 w args bs prev l e s = []"
| "blocks_run (Suc n) w args bs prev l e s =
     (case find (\<lambda>b. bb_label b = l) bs of
        None \<Rightarrow> []
      | Some b \<Rightarrow>
          (case exec_insts w args (bb_insts b) (exec_phis w args prev (bb_phis b) e) s of
             Ret e' t \<Rightarrow> b # (case exec_term w args (bb_term b) e' of
                 Goto l' \<Rightarrow> blocks_run n w args bs l l' e' t
               | _ \<Rightarrow> [])
           | _ \<Rightarrow> []))"

definition function_blocks_run :: "nat \<Rightarrow> 'c world \<Rightarrow> ir_function \<Rightarrow> (nat \<Rightarrow> nat) \<Rightarrow> 'c kstate \<Rightarrow> basic_block list" where
  "function_blocks_run n w F args s =
     (case fun_blocks F of [] \<Rightarrow> [] | b # bs \<Rightarrow> blocks_run n w args (fun_blocks F) [] (bb_label b) (\<lambda>_. 0) s)"

text \<open>A run that gets through fewer blocks than it may has ended by itself.\<close>

lemma run_blocks_ended:
  "length (blocks_run n w args bs prev l e s) < n \<Longrightarrow> run_blocks (n + m) w args bs prev l e s = run_blocks n w args bs prev l e s"
proof (induction n arbitrary: prev l e s)
  case (Suc n)
  then show ?case by (auto simp: bindM_apply split: option.splits outcome.splits control.splits)
qed simp

lemma run_function_ended:
  "length (function_blocks_run n w F args s) < n \<Longrightarrow> run_function (n + m) w F args s = run_function n w F args s"
  by (cases "fun_blocks F") (simp_all add: function_blocks_run_def run_function_def run_blocks_ended)

section \<open>Counting\<close>

definition counting :: "u32 \<Rightarrow> nat \<Rightarrow> 'c kstate \<Rightarrow> bool" where
  "counting mx v s \<longleftrightarrow> kspecem_in_speculative_emulation s \<and> hooks_active s \<and> kspecem_max_speculative_instructions s = mx
     \<and> v \<le> unat (kspecem_speculative_instr_count s) \<and> kspecem_speculative_instr_count s < mx"

lemma hook_counts:
  assumes "counting mx v s" and "kspecem_hook_check_spec_length k st sta (of_nat c) s = Ret () t" and "c + unat mx \<le> 2 ^ 32"
  shows "counting mx (v + c) t"
proof -
  let ?s = "s\<lparr>kspecem_speculative_instr_count := kspecem_speculative_instr_count s + of_nat c\<rparr>"
  let ?limit = "bindM (ENTER_KSPECEM_RT k) (\<lambda>flags.
        seqM [ignoreM (kspecem_restart k st 0 KSPECEM_RESTART_LIMIT_SPEC 0 0 0),
              lt_panic ''kspecem_interface.c'' ''36'' ''should not return!'',
              LEAVE_KSPECEM_RT (assert_restart k sta) k ''kspecem_interface.c'' ''37'' flags])"
  have h: "kspecem_hook_check_spec_length k st sta (of_nat c) s =
    whenM (\<lambda>s. kspecem_max_speculative_instructions s \<le> kspecem_speculative_instr_count s) ?limit ?s"
    using assms(1)
    by (simp add: counting_def kspecem_hook_check_spec_length_def whenM_apply [of _ "CHECK_KSPECEM_RT _ _"] checks_pass then_modify)
  have "?limit ?s \<noteq> Ret () t"
    by (simp add: bindM_apply thenM_apply ENTER_KSPECEM_RT_def lt_panic_def split: outcome.split)
  with h assms(2) have t: "t = ?s" "\<not> mx \<le> kspecem_speculative_instr_count ?s"
    using assms(1) by (auto simp: whenM_apply counting_def split: if_splits)
  have "unat (kspecem_speculative_instr_count s) < unat mx" using assms(1) by (simp add: counting_def word_less_nat_alt)
  then have "unat (kspecem_speculative_instr_count s + of_nat c) = unat (kspecem_speculative_instr_count s) + c"
    using assms(3) by (simp add: unat_word_ariths unat_of_nat)
  with t assms(1) show ?thesis by (simp add: counting_def hooks_active_def word_less_nat_alt not_le)
qed

lemma keeps_counting:
  assumes "calls_keep w (counting mx v)" and "list_all no_hook_call is"
  shows "keeps (counting mx v) (\<lambda>_. True) (exec_insts w args is e)"
  using assms(2)
proof (induction "is" arbitrary: e)
  case (Cons i "is")
  then have "keeps (counting mx v) (\<lambda>_. True) (exec_op w args e i)"
    by (intro keeps_exec_op [OF assms(1)]) (simp_all add: counting_def hooks_active_def)
  with Cons show ?case unfolding exec_insts.simps exec_inst_def by (intro keeps_bind keeps_return) simp_all
qed (simp add: keeps_return)

section \<open>Counted blocks\<close>

definition counted :: "ir_value \<Rightarrow> basic_block \<Rightarrow> basic_block \<Rightarrow> bool" where
  "counted h b b' \<longleftrightarrow> (\<exists>k t. b' = b\<lparr>bb_insts := bb_insts b @
     [\<lparr>inst_id = k, inst_ty = t, inst_op = CallInst CC_C h [ConstInt 32 (inst_count b mod 2 ^ 32)], is_asan_instr = False\<rparr>]\<rparr>)"

lemma visit_blocks_counted: "list_all2 (counted h) bs (fst (visit_blocks (CheckSpecLengthVisitor h) bs n))"
proof (induction bs arbitrary: n)
  case (Cons b bs)
  have "visited State_Monad.return is m = is" "visited_next State_Monad.return is m = m" for "is" m
    by (induction "is" arbitrary: m) simp_all
  then have "counted h b (fst (visit_block (CheckSpecLengthVisitor h) b n))"
    by (auto simp: visit_block_eq CheckSpecLengthVisitor_def counted_def Let_def)
  with Cons show ?case by (simp add: split_beta)
qed simp

text \<open>A block that is got through has been counted.\<close>

lemma counted_block_run:
  assumes "counted h b b'" and "length_hook h" and "list_all no_hook_call (bb_insts b)" and "inst_count b + unat mx \<le> 2 ^ 32"
    and "calls_keep w (counting mx v)" and "counting mx v s" and "exec_insts w args (bb_insts b') e s = Ret e' t"
  shows "counting mx (v + inst_count b) t"
proof -
  obtain k ty where b': "bb_insts b' = bb_insts b @ [\<lparr>inst_id = k, inst_ty = ty,
      inst_op = CallInst CC_C h [ConstInt 32 (inst_count b mod 2 ^ 32)], is_asan_instr = False\<rparr>]"
    using assms(1) by (auto simp: counted_def)
  have "0 < unat mx" using assms(6) by (auto simp: counting_def word_less_nat_alt)
  then have c: "inst_count b mod 2 ^ 32 = inst_count b" using assms(4) by simp
  from assms(7) [unfolded b' exec_insts_append bindM_apply] obtain e1 s1 where
    1: "exec_insts w args (bb_insts b) e s = Ret e1 s1" and
    2: "kspecem_hook_check_spec_length (kern w) (site_at w k) (assert_site_at w k) (of_nat (inst_count b)) s1 = Ret () t"
    using assms(2) c
    by (auto simp: length_hook_def exec_inst_def exec_op_def call_value_def call_function_hooks argn_def void_def bindM_apply
        split: outcome.splits)
  have "counting mx v s1" using keeps_counting [OF assms(5,3)] 1 assms(6) unfolding keeps_def by (blast dest: hoareD_Ret)
  from hook_counts [OF this 2 assms(4)] show ?thesis .
qed

lemma blocks_run_counted:
  assumes "length_hook h" and "\<And>v. calls_keep w (counting mx v)" and "list_all2 (counted h) bs bs'"
    and "list_all (\<lambda>b. list_all no_hook_call (bb_insts b) \<and> inst_count b + unat mx \<le> 2 ^ 32) bs"
  shows "counting mx v s \<Longrightarrow> v + sum_list (map (\<lambda>b. inst_count b - 1) (blocks_run n w args bs' prev l e s)) < unat mx"
proof (induction n arbitrary: prev l e v s)
  case 0
  then show ?case by (simp add: counting_def word_less_nat_alt)
next
  case (Suc n)
  have v: "v < unat mx" using Suc.prems by (simp add: counting_def word_less_nat_alt)
  show ?case
  proof (cases "find (\<lambda>b. bb_label b = l) bs'")
    case (Some b')
    then have "b' \<in> set bs'" by (auto simp: find_Some_iff)
    then obtain b where b: "b \<in> set bs" "counted h b b'" using assms(3) by (metis in_set_conv_nth list_all2_conv_all_nth)
    then have ok: "list_all no_hook_call (bb_insts b)" "inst_count b + unat mx \<le> 2 ^ 32" "inst_count b' = inst_count b + 1"
      using assms(4) by (auto simp: list_all_iff counted_def inst_count_def)
    show ?thesis
    proof (cases "exec_insts w args (bb_insts b') (exec_phis w args prev (bb_phis b') e) s")
      case (Ret e' t)
      have t: "counting mx (v + inst_count b) t"
        by (rule counted_block_run [OF b(2) assms(1) ok(1,2) assms(2) Suc.prems Ret])
      then have "v + inst_count b < unat mx" by (simp add: counting_def word_less_nat_alt)
      with Suc.IH [OF t] ok(3) Some Ret show ?thesis by (simp add: add.assoc split: control.split)
    qed (simp_all add: Some v)
  qed (simp add: v)
qed

lemma blocks_run_in: "set (blocks_run n w args bs prev l e s) \<subseteq> set bs"
proof (induction n arbitrary: prev l e s)
  case (Suc n)
  show ?case
  proof (cases "find (\<lambda>b. bb_label b = l) bs")
    case (Some b)
    then have "b \<in> set bs" by (auto simp: find_Some_iff)
    show ?thesis
    proof (cases "exec_insts w args (bb_insts b) (exec_phis w args prev (bb_phis b) e) s")
      case (Ret e' t)
      with \<open>b \<in> set bs\<close> Suc Some show ?thesis by (cases "exec_term w args (bb_term b) e'") simp_all
    qed (simp_all add: Some)
  qed simp
qed simp

lemma function_blocks_run_in: "set (function_blocks_run n w F args s) \<subseteq> set (fun_blocks F)"
proof (cases "fun_blocks F")
  case (Cons b bs)
  with blocks_run_in [of n w args "b # bs"] show ?thesis by (simp add: function_blocks_run_def)
qed (simp add: function_blocks_run_def)

section \<open>The end of a speculation\<close>

text \<open>
  C9. A speculation ends. In a function instrumented with the length hook, a run during a speculation
  gets through blocks with fewer instructions than are left until the limit, however it
  branches; so after at most that many blocks it has returned, failed or been rolled back, and
  more fuel gives nothing else. The inserted call is not counted as an instruction of its block.
\<close>

theorem CheckSpecLength_bounds_speculation:
  assumes "CheckSpecLength_init M = Some (h, M')" and "F' = visit_function (CheckSpecLengthVisitor h) F"
    and "counting mx v s" and "\<forall>u. calls_keep w (counting mx u)"
    and "list_all (\<lambda>b. list_all no_hook_call (bb_insts b) \<and> inst_count b + unat mx \<le> 2 ^ 32) (fun_blocks F)"
  shows "v + sum_list (map (\<lambda>b. inst_count b - 1) (function_blocks_run n w F' args s)) < unat mx
    \<and> (unat mx - v \<le> n \<longrightarrow> run_function n w F' args s = run_function (unat mx - v) w F' args s)"
proof -
  have F': "fun_blocks F' = fst (visit_blocks (CheckSpecLengthVisitor h) (fun_blocks F) (fun_next F))"
    by (simp add: assms(2) visit_function_def split_beta)
  have bound: "v + sum_list (map (\<lambda>b. inst_count b - 1) (function_blocks_run n w F' args s)) < unat mx" for n
    using blocks_run_counted [OF CheckSpecLength_init_hook [OF assms(1)] _ visit_blocks_counted [of h "fun_blocks F" "fun_next F"] assms(5,3), where w = w]
      assms(3,4)
    unfolding F' [symmetric] by (cases "fun_blocks F'") (simp_all add: function_blocks_run_def counting_def word_less_nat_alt)
  have "1 \<le> inst_count b - 1" if "b \<in> set (fun_blocks F')" for b
    using that visit_blocks_counted [of h "fun_blocks F" "fun_next F"] unfolding F'
    by (auto simp: counted_def inst_count_def list_all2_conv_all_nth in_set_conv_nth)
  then have "1 \<le> inst_count b - 1" if "b \<in> set (function_blocks_run n w F' args s)" for b n
    using that function_blocks_run_in [of n w F' args s] by blast
  then have "length (function_blocks_run n w F' args s) \<le> sum_list (map (\<lambda>b. inst_count b - 1) (function_blocks_run n w F' args s))" for n
    using sum_list_mono [of "function_blocks_run n w F' args s" "\<lambda>_. 1" "\<lambda>b. inst_count b - 1"] by (simp add: sum_list_triv)
  then have "v + length (function_blocks_run (unat mx - v) w F' args s) < unat mx"
    using bound [of "unat mx - v"] by (meson add_left_mono le_less_trans)
  then have "length (function_blocks_run (unat mx - v) w F' args s) < unat mx - v"
    by simp
  then have "run_function n w F' args s = run_function (unat mx - v) w F' args s" if "unat mx - v \<le> n"
    using run_function_ended [of "unat mx - v" w F' args s "n - (unat mx - v)"] that by (simp only: le_add_diff_inverse)
  with bound show ?thesis by blast
qed

section \<open>An example\<close>

text \<open>A function that never returns, with ten instructions left in the speculation.\<close>

definition demo_loop :: ir_function where
  "demo_loop = \<lparr>fun_name = ''spin'', fun_ret = VoidTy, fun_args = [], fun_cc = CC_C, fun_blocks =
     [\<lparr>bb_label = ''loop'', bb_phis = [], bb_insts = [], bb_term = Br ''loop''\<rparr>], fun_next = 0\<rparr>"

theorem CheckSpecLength_bounds_speculation_witness:
  "\<exists>h M'. CheckSpecLength_init demo_module = Some (h, M')
    \<and> length (function_blocks_run 1000 demo_world (visit_function (CheckSpecLengthVisitor h) demo_loop) (\<lambda>_. 0) demo_code) < 10
    \<and> run_function 1000 demo_world (visit_function (CheckSpecLengthVisitor h) demo_loop) (\<lambda>_. 0) demo_code =
      run_function 10 demo_world (visit_function (CheckSpecLengthVisitor h) demo_loop) (\<lambda>_. 0) demo_code"
proof -
  obtain h M' where i: "CheckSpecLength_init demo_module = Some (h, M')"
    by (auto simp: CheckSpecLength_init_def declare_hook_def getOrInsertFunction_def lookup_fun_def demo_module_def demo_function_def)
  let ?F = "visit_function (CheckSpecLengthVisitor h) demo_loop"
  have c: "counting 250 240 demo_code"
    using demo_code_active by (simp add: counting_def demo_code_def demo_spec_def boot_state_def)
  have "calls_keep demo_world P" for P by (simp add: calls_keep_def demo_world_def keeps_return)
  then have b: "240 + sum_list (map (\<lambda>b. inst_count b - 1) (function_blocks_run 1000 demo_world ?F (\<lambda>_. 0) demo_code)) < unat (250 :: u32)"
    "run_function 1000 demo_world ?F (\<lambda>_. 0) demo_code = run_function (unat (250 :: u32) - 240) demo_world ?F (\<lambda>_. 0) demo_code"
    using CheckSpecLength_bounds_speculation [OF i refl c, of demo_world demo_loop 1000 "\<lambda>_. 0"]
    by (simp_all add: demo_loop_def inst_count_def)
  have "inst_count b - 1 = 1" if "b \<in> set (fun_blocks ?F)" for b
    using that by (simp add: visit_function_def demo_loop_def visit_block_eq CheckSpecLengthVisitor_def Let_def inst_count_def)
  then have "map (\<lambda>b. inst_count b - 1) (function_blocks_run 1000 demo_world ?F (\<lambda>_. 0) demo_code) =
      map (\<lambda>_. 1) (function_blocks_run 1000 demo_world ?F (\<lambda>_. 0) demo_code)"
    using function_blocks_run_in [of 1000 demo_world ?F] by (intro map_cong) auto
  with b(1) have "length (function_blocks_run 1000 demo_world ?F (\<lambda>_. 0) demo_code) < 10" by (simp only: sum_list_triv) simp
  with i b(2) show ?thesis by simp
qed

end
