(* ===== verification/KTyping.thy ===== *)
theory KTyping
  imports KInsertedCode
begin

text \<open>
  What the passes insert is well formed: calls match the declared types of the hooks, and every
  number still belongs to one instruction.
\<close>

section \<open>Types\<close>

definition is_ptr :: "ir_type \<Rightarrow> bool" where
  "is_ptr t = (case t of PtrTy u \<Rightarrow> True | _ \<Rightarrow> False)"

definition is_int :: "ir_type \<Rightarrow> bool" where
  "is_int t = (case t of IntTy b \<Rightarrow> True | _ \<Rightarrow> False)"

definition wt_inst :: "ir_inst \<Rightarrow> bool" where
  "wt_inst i = (case inst_op i of
       LoadInst p \<Rightarrow> type_of p = PtrTy (inst_ty i)
     | StoreInst v p \<Rightarrow> type_of p = PtrTy (type_of v)
     | CallInst cc f xs \<Rightarrow> type_of f = PtrTy (FunTy (inst_ty i) (map type_of xs))
     | MemIntrinsic mk d src len \<Rightarrow> is_ptr (type_of d) \<and> is_int (type_of len)
     | BitCastInst v \<Rightarrow> is_ptr (type_of v) \<and> is_ptr (inst_ty i)
     | TruncInst v \<Rightarrow> is_int (type_of v) \<and> is_int (inst_ty i) \<and> int_width (inst_ty i) < int_width (type_of v)
     | ZExtInst v \<Rightarrow> is_int (type_of v) \<and> is_int (inst_ty i) \<and> int_width (type_of v) < int_width (inst_ty i)
     | ICmpInst p x y \<Rightarrow> type_of x = type_of y \<and> inst_ty i = IntTy 1
     | FCmpInst p x y \<Rightarrow> type_of x = type_of y \<and> inst_ty i = IntTy 1
     | XorInst x y \<Rightarrow> type_of x = inst_ty i \<and> type_of y = inst_ty i
     | SelectInst c x y \<Rightarrow> type_of c = IntTy 1 \<and> type_of x = inst_ty i \<and> type_of y = inst_ty i
     | OtherInst n xs \<Rightarrow> True)"

definition wt_term :: "ir_type \<Rightarrow> terminator \<Rightarrow> bool" where
  "wt_term r t = (case t of
       CondBr c l l' \<Rightarrow> type_of c = IntTy 1
     | Switch v d cs \<Rightarrow> is_int (type_of v)
     | ReturnInst None \<Rightarrow> r = VoidTy
     | ReturnInst (Some v) \<Rightarrow> type_of v = r
     | _ \<Rightarrow> True)"

text \<open>What the pass relies on in the program: pointers are pointers, and lengths are integers.\<close>

definition typed_operands :: "ir_inst \<Rightarrow> bool" where
  "typed_operands i = (case inst_op i of
       StoreInst v p \<Rightarrow> is_ptr (type_of p)
     | MemIntrinsic mk d src len \<Rightarrow> is_ptr (type_of d) \<and> is_int (type_of len)
     | CallInst cc f xs \<Rightarrow> is_ptr (type_of f)
     | _ \<Rightarrow> True)"

text \<open>A block whose instructions and terminator are well typed, or those of \<open>F\<close>.\<close>

definition wt_block :: "ir_function \<Rightarrow> basic_block \<Rightarrow> bool" where
  "wt_block F b' \<longleftrightarrow> list_all (\<lambda>i. wt_inst i \<or> i \<in> set (concat (map bb_insts (fun_blocks F)))) (bb_insts b')
     \<and> (wt_term (fun_ret F) (bb_term b') \<or> bb_term b' \<in> bb_term ` set (fun_blocks F))"

section \<open>Restarts, stores and copies\<close>

lemma wt_cast: "is_ptr (type_of v) \<Longrightarrow> is_ptr t \<Longrightarrow> list_all wt_inst (emitted (CreateBitCast v t) n) \<and> type_of (built (CreateBitCast v t) n) = t"
  by (simp add: CreateBitCast_def wt_inst_def)

lemma is_ptr_i8 [simp]: "is_ptr i8ptr"
  by (simp add: is_ptr_def)

lemma wt_insertRestartHook:
  assumes "kspecem_hooks L" and "\<And>v. cv = Some v \<Longrightarrow> is_ptr (type_of v)"
  shows "list_all wt_inst (emitted (insertRestartHook L ty cv) n)"
  using assms wt_cast [of _ i8ptr]
  by (cases cv) (auto simp: insertRestartHook_def CreatePointerCast_def kspecem_hooks_def wt_inst_def)

lemma wt_KSpecEm_visits:
  assumes "kspecem_hooks L" and "pointer_size_in_bits (layout L) = 64"
  shows "is_ptr (type_of f) \<Longrightarrow> list_all wt_inst (emitted (visitCallInst L M F f) n)"
    and "list_all wt_inst (emitted (visitReturnInst L M F) n)"
    and "is_ptr (type_of p) \<Longrightarrow> list_all wt_inst (emitted (visitStoreInst L F p) n)"
    and "is_ptr (type_of d) \<Longrightarrow> is_int (type_of len) \<Longrightarrow> list_all wt_inst (emitted (visitMemIntrinsic L F d len) n)"
proof -
  have "snd (snd (getCalledFunction F f)) = Some v \<Longrightarrow> v = f" for v
    by (auto simp: getCalledFunction_def split: ir_value.splits option.splits if_splits)
  then show "is_ptr (type_of f) \<Longrightarrow> list_all wt_inst (emitted (visitCallInst L M F f) n)"
    by (auto simp: visitCallInst_def split_beta intro!: wt_insertRestartHook [OF assms(1)])
  show "list_all wt_inst (emitted (visitReturnInst L M F) n)"
    by (auto simp: visitReturnInst_def wt_inst_def intro!: wt_insertRestartHook [OF assms(1)])
  show "is_ptr (type_of p) \<Longrightarrow> list_all wt_inst (emitted (visitStoreInst L F p) n)"
    using assms(1) by (simp add: visitStoreInst_def kspecem_hooks_def wt_inst_def)
  show "is_ptr (type_of d) \<Longrightarrow> is_int (type_of len) \<Longrightarrow> list_all wt_inst (emitted (visitMemIntrinsic L F d len) n)"
    using assms
    by (auto simp: visitMemIntrinsic_def kspecem_hooks_def wt_inst_def CreateTrunc_def CreateZExt_def is_int_def
        split: ir_value.split ir_type.splits)
qed

lemma visited_set:
  "i' \<in> set (visited f is n) \<Longrightarrow> \<exists>i \<in> set is. \<exists>m. i' \<in> set (emitted (f i) m) \<or> i' = built (f i) m"
  by (induction "is" arbitrary: n) auto

lemma wt_visited_block:
  assumes "kspecem_hooks L" and "pointer_size_in_bits (layout L) = 64" and "list_all typed_operands (bb_insts b)"
    and "b \<in> set (fun_blocks F)"
  shows "wt_block F (fst (visit_block (KSpecEmPassVisitor L M F) b n))"
proof -
  let ?V = "KSpecEmPassVisitor L M F"
  have i: "list_all wt_inst (emitted (visit_inst ?V i) m) \<and> built (visit_inst ?V i) m = i" if "typed_operands i" for i m
    using that wt_KSpecEm_visits [OF assms(1,2)]
    by (cases "inst_op i") (simp_all add: KSpecEmPassVisitor_def typed_operands_def)
  have t: "list_all wt_inst (emitted (visit_term ?V b) m) \<and> built (visit_term ?V b) m = bb_term b" for m
    using wt_KSpecEm_visits(2) [OF assms(1,2)] by (cases "bb_term b") (simp_all add: KSpecEmPassVisitor_def)
  show ?thesis
    using i t assms(3,4) by (auto simp: wt_block_def visit_block_eq Let_def list_all_iff dest!: visited_set)
qed

section \<open>Entries\<close>

lemma wt_entries:
  assumes "kspecem_hooks L" and "is_ptr t"
  shows "list_all wt_inst (emitted (insertTimerInterruptHook L (Arg 0 t)) n)"
    and "list_all wt_inst (emitted (insertExceptionInterruptHook L F (Arg 0 t)) n)"
    and "type_of (built (insertExceptionInterruptHook L F (Arg 0 t)) n) = IntTy 32"
  using assms wt_cast [of "Arg 0 t" i8ptr]
  by (simp_all add: insertTimerInterruptHook_def insertExceptionInterruptHook_def kspecem_hooks_def wt_inst_def)

lemma wt_exception_entry:
  assumes "kspecem_hooks L" and "is_ptr t" and "fun_ret F = VoidTy" and "fun_blocks F = bb # rest"
  shows "list_all (wt_block F) (fun_blocks (exception_entry L F bb rest (Arg 0 t)))"
proof -
  let ?m = "insertExceptionInterruptHook L F (Arg 0 t)"
  have "list_all wt_inst (emitted ?m (fun_next F) @ [\<lparr>inst_id = next_id ?m (fun_next F), inst_ty = IntTy 1,
      inst_op = ICmpInst ICMP_EQ (built ?m (fun_next F)) (ConstInt 32 0), is_asan_instr = False\<rparr>])"
    using wt_entries(2,3) [OF assms(1,2)] by (simp add: wt_inst_def)
  with assms(3,4) show ?thesis
    by (auto simp: exception_entry_def builder_run Let_def rename_pred_def wt_block_def wt_term_def list_all_iff)
qed

lemma wt_front:
  assumes "fun_blocks F = bb # rest" and "builder m" and "list_all wt_inst (emitted m (fun_next F))"
    and "Some F' = (case insert_at_front m bb (fun_next F) of (bb', n) \<Rightarrow> Some (F\<lparr>fun_blocks := bb' # rest, fun_next := n\<rparr>))"
  shows "list_all (wt_block F) (fun_blocks F')"
  using assms by (auto simp: insert_at_front_def builder_run list_all_iff wt_block_def)

section \<open>Well-typed instrumentation\<close>

text \<open>
  C16. What the restart and store pass adds to a function is well typed: every instruction of the result is one of
  the function's own or a well-typed one, whose call has the number, the types and the result of
  the declared hook, and the same holds for the terminators. Pointers have 64 bits, and functions
  on the exception list return nothing.
\<close>

theorem KSpecEm_well_typed:
  assumes "KSpecEm_init l DL M = Some (L, M')" and "KSpecEm_visitor L (mod_name M') F = Some F'" and "pointer_size_in_bits DL = 64"
    and "list_all (\<lambda>b. list_all typed_operands (bb_insts b)) (fun_blocks F)"
    and "isIn l (mod_name M') F ''timer'' \<or> isIn l (mod_name M') F ''exception'' \<Longrightarrow> is_ptr (hd (fun_args F))"
    and "isIn l (mod_name M') F ''exception'' \<Longrightarrow> fun_ret F = VoidTy"
  shows "list_all (wt_block F) (fun_blocks F')"
proof -
  have L: "kspecem_hooks L" "kspecem_functions L = l" "pointer_size_in_bits (layout L) = 64"
    using KSpecEm_init_hooks [OF assms(1)] assms(3) by simp_all
  let ?is = "\<lambda>c. isIn l (mod_name M') F c"
  consider "?is ''blacklist''" | "\<not> ?is ''blacklist''" "?is ''timer''" | "\<not> ?is ''blacklist''" "\<not> ?is ''timer''" "?is ''exception''"
    | "F' = visit_function (KSpecEmPassVisitor L (mod_name M') F) F"
    using assms(2) by (auto simp: KSpecEm_visitor_def L(2) split: if_splits)
  then show ?thesis
  proof cases
    case 1
    have "list_all wt_inst (emitted (insertRestartHook L 4 (Some (Fun (fun_name F) (fun_type F)))) (fun_next F))"
      by (intro wt_insertRestartHook [OF L(1)]) (auto simp: is_ptr_def)
    with 1 assms(2) wt_front [OF _ builder_insertRestartHook, of F] show ?thesis
      by (cases "fun_blocks F") (auto simp: KSpecEm_visitor_def L(2))
  next
    case 2
    with assms(2,5) wt_front [OF _ builder_insertTimerInterruptHook, of F] wt_entries(1) [OF L(1)] show ?thesis
      by (fastforce simp: KSpecEm_visitor_def L(2) split: list.splits)
  next
    case 3
    with assms(2,5,6) wt_exception_entry [OF L(1), of _ F] show ?thesis
      by (auto simp: KSpecEm_visitor_def L(2) split: list.splits)
  next
    case 4
    show ?thesis
      unfolding list_all_iff
    proof
      fix b' assume "b' \<in> set (fun_blocks F')"
      then obtain b m where "b \<in> set (fun_blocks F)" "b' = fst (visit_block (KSpecEmPassVisitor L (mod_name M') F) b m)"
        using visit_blocks_in [OF builder_KSpecEmPassVisitor, of b'] by (fastforce simp: 4 visit_function_def split_beta)
      with assms(4) wt_visited_block [OF L(1,3)] show "wt_block F b'" by (simp add: list_all_iff)
    qed
  qed
qed

section \<open>An example\<close>

theorem KSpecEm_well_typed_witness:
  "\<exists>L M' F'. KSpecEm_init demo_list demo_layout demo_module = Some (L, M') \<and> KSpecEm_visitor L (mod_name M') demo_function = Some F'
    \<and> length (bb_insts (hd (fun_blocks F'))) = 9 \<and> list_all (wt_block demo_function) (fun_blocks F')"
proof -
  obtain L M' where i: "KSpecEm_init demo_list demo_layout demo_module = Some (L, M')" using demo_init by blast
  then have L: "kspecem_functions L = demo_list" using KSpecEm_init_hooks by blast
  define F' where "F' = visit_function (KSpecEmPassVisitor L (mod_name M') demo_function) demo_function"
  have v: "KSpecEm_visitor L (mod_name M') demo_function = Some F'"
    by (simp add: KSpecEm_visitor_def L demo_not_listed F'_def)
  have "length (bb_insts (hd (fun_blocks F'))) = 9"
    unfolding F'_def by (rule demo_function_instrumented [OF L])
  moreover have "list_all (wt_block demo_function) (fun_blocks F')"
    using KSpecEm_well_typed [OF i v] demo_not_listed
    by (simp add: demo_layout_def demo_function_def typed_operands_def is_ptr_def)
  ultimately show ?thesis using i v by blast
qed

end
