(* ===== verification/KExceptionEntry.thy ===== *)
theory KExceptionEntry
  imports KTransparent
begin

text \<open>
  Functions on the exception list. \<open>KSpecEm.cpp\<close> splits their entry block: the new entry calls the exception hook and
  goes on to the old one, or returns when the exception belongs to a speculation. Outside a
  speculation such a function runs as before, one block later.
\<close>

section \<open>New labels\<close>

lemma unique_label_used: "unique_label us l n \<in> set us \<Longrightarrow> i \<le> n \<Longrightarrow> l @ replicate i (CHR ''_'') \<in> set us"
proof (induction n arbitrary: l i)
  case (Suc n)
  then have l: "l \<in> set us" by (auto split: if_splits)
  with Suc.prems(1) have u: "unique_label us (l @ ''_'') n \<in> set us" by simp
  show ?case
  proof (cases i)
    case (Suc j)
    with Suc.IH [OF u, of j] Suc.prems(2) show ?thesis by simp
  qed (simp add: l)
qed simp

lemma new_label_new: "new_label bs l \<notin> bb_label ` set bs"
proof
  let ?u = "map bb_label bs" and ?f = "\<lambda>i. l @ replicate i (CHR ''_'')"
  assume "new_label bs l \<in> bb_label ` set bs"
  then have "?f ` {..length bs} \<subseteq> set ?u" using unique_label_used [of ?u l "length bs"] by (auto simp: new_label_def)
  moreover have "inj_on ?f {..length bs}" by (rule inj_onI) simp
  ultimately have "Suc (length bs) \<le> card (set ?u)" using card_mono [of "set ?u" "?f ` {..length bs}"] by (simp add: card_image)
  then show False using card_length [of ?u] by simp
qed

section \<open>The blocks after the split\<close>

fun targets :: "terminator \<Rightarrow> string list" where
  "targets (Br l) = [l]"
| "targets (CondBr c l l') = [l, l']"
| "targets (Switch v d cs) = d # map snd cs"
| "targets (ReturnInst r) = []"
| "targets Unreachable = []"

lemma exec_term_targets: "exec_term w args t e = Goto l \<Longrightarrow> l \<in> set (targets t)"
  by (cases t) (auto simp: exec_term_def split: option.splits if_splits intro: rev_image_eqI [OF map_of_SomeD])

text \<open>The entry block has no PHI node and no predecessor; branches and PHI nodes name blocks of the function.\<close>

definition entry_ok :: "basic_block \<Rightarrow> basic_block list \<Rightarrow> bool" where
  "entry_ok bb rest \<longleftrightarrow> bb_phis bb = [] \<and>
     list_all (\<lambda>b. list_all (\<lambda>l. l \<in> bb_label ` set rest \<and> l \<noteq> bb_label bb) (targets (bb_term b))
       \<and> list_all (\<lambda>p. list_all (\<lambda>(l, v). l \<in> bb_label ` set (bb # rest)) (phi_in p)) (bb_phis b)) (bb # rest)"

lemma find_SomeD: "find Q xs = Some x \<Longrightarrow> x \<in> set xs \<and> Q x"
  by (induction xs) (auto split: if_splits)

lemma map_of_rename:
  assumes "list_all (\<lambda>(l, v). l \<noteq> new) xs" and "prev \<noteq> new"
  shows "map_of (map (\<lambda>(l, v). (if l = old then new else l, v)) xs) (if prev = old then new else prev) = map_of xs prev"
  using assms by (induction xs) auto

lemma exec_phis_rename:
  assumes "list_all (\<lambda>p. list_all (\<lambda>(l, v). l \<noteq> new) (phi_in p)) (bb_phis b)" and "prev \<noteq> new"
  shows "exec_phis w args (if prev = old then new else prev) (bb_phis (rename_pred old new b)) e = exec_phis w args prev (bb_phis b) e"
proof
  fix n
  let ?r = "\<lambda>p. p\<lparr>phi_in := map (\<lambda>(l, v). (if l = old then new else l, v)) (phi_in p)\<rparr>"
  have "find (\<lambda>p. phi_id p = n) (map ?r ps) = map_option ?r (find (\<lambda>p. phi_id p = n) ps)" for ps :: "ir_phi list"
    by (induction ps) auto
  moreover have "list_all (\<lambda>(l, v). l \<noteq> new) (phi_in p)" if "find (\<lambda>p. phi_id p = n) (bb_phis b) = Some p" for p
  proof -
    have "p \<in> set (bb_phis b)" using that by (auto simp: find_Some_iff)
    with assms(1) show ?thesis by (simp add: list_all_iff)
  qed
  ultimately show "exec_phis w args (if prev = old then new else prev) (bb_phis (rename_pred old new b)) e n = exec_phis w args prev (bb_phis b) e n"
    unfolding exec_phis_def rename_pred_def
    by (cases "find (\<lambda>p. phi_id p = n) (bb_phis b)") (simp_all add: map_of_rename [OF _ assms(2)] del: if_split)
qed

text \<open>The split function: \<open>first\<close> is the new entry and \<open>fin\<close> the returning block, the old entry is called \<open>new\<close>.\<close>

definition split_blocks :: "basic_block \<Rightarrow> basic_block list \<Rightarrow> basic_block \<Rightarrow> basic_block \<Rightarrow> string \<Rightarrow> basic_block list" where
  "split_blocks bb rest first fin new =
     map (rename_pred (bb_label bb) new) (first # bb\<lparr>bb_label := new, bb_phis := []\<rparr> # rest) @ [fin]"

lemma split_find:
  assumes "bb_label first = bb_label bb" and "new \<notin> bb_label ` set (bb # rest)"
  shows "find (\<lambda>b. bb_label b = new) (split_blocks bb rest first fin new) = Some (rename_pred (bb_label bb) new (bb\<lparr>bb_label := new, bb_phis := []\<rparr>))"
    and "l \<noteq> bb_label bb \<Longrightarrow> l \<in> bb_label ` set rest \<Longrightarrow> \<exists>b \<in> set rest. find (\<lambda>b. bb_label b = l) (bb # rest) = Some b
      \<and> find (\<lambda>b. bb_label b = l) (split_blocks bb rest first fin new) = Some (rename_pred (bb_label bb) new b)"
proof -
  have lab [simp]: "bb_label (rename_pred old n b) = bb_label b" for old n b by (simp add: rename_pred_def)
  show "find (\<lambda>b. bb_label b = new) (split_blocks bb rest first fin new) = Some (rename_pred (bb_label bb) new (bb\<lparr>bb_label := new, bb_phis := []\<rparr>))"
    using assms by (auto simp: split_blocks_def)
  have f: "l \<in> bb_label ` set bs \<Longrightarrow> \<exists>b \<in> set bs. find (\<lambda>b. bb_label b = l) bs = Some b
      \<and> find (\<lambda>b. bb_label b = l) (map (rename_pred (bb_label bb) new) bs @ [fin]) = Some (rename_pred (bb_label bb) new b)" for bs
    by (induction bs) auto
  show "\<exists>b \<in> set rest. find (\<lambda>b. bb_label b = l) (bb # rest) = Some b
      \<and> find (\<lambda>b. bb_label b = l) (split_blocks bb rest first fin new) = Some (rename_pred (bb_label bb) new b)"
    if "l \<noteq> bb_label bb" "l \<in> bb_label ` set rest"
    using that f [OF that(2)] assms by (auto simp: split_blocks_def)
qed

lemma split_block:
  assumes "entry_ok bb rest" and "bb_label first = bb_label bb" and "new \<notin> bb_label ` set (bb # rest)"
    and "l = bb_label bb \<or> l \<noteq> bb_label bb \<and> l \<in> bb_label ` set rest
      \<and> prev \<in> bb_label ` set (bb # rest) \<and> prev' = (if prev = bb_label bb then new else prev)"
  obtains b b' where "b \<in> set (bb # rest)" and "find (\<lambda>b. bb_label b = l) (bb # rest) = Some b"
    and "find (\<lambda>b. bb_label b = (if l = bb_label bb then new else l)) (split_blocks bb rest first fin new) = Some b'"
    and "bb_insts b' = bb_insts b" and "bb_term b' = bb_term b"
    and "\<And>e. exec_phis w args prev' (bb_phis b') e = exec_phis w args prev (bb_phis b) e"
proof (cases "l = bb_label bb")
  case True
  have "bb_phis bb = []" using assms(1) by (simp add: entry_ok_def)
  with True split_find(1) [OF assms(2,3), of fin] show ?thesis
    by (intro that [of bb "rename_pred (bb_label bb) new (bb\<lparr>bb_label := new, bb_phis := []\<rparr>)"])
      (simp_all add: rename_pred_def exec_phis_def fun_eq_iff)
next
  case False
  with assms(4) obtain b where b: "b \<in> set rest" "find (\<lambda>b. bb_label b = l) (bb # rest) = Some b"
    "find (\<lambda>b. bb_label b = l) (split_blocks bb rest first fin new) = Some (rename_pred (bb_label bb) new b)"
    using split_find(2) [OF assms(2,3)] by blast
  have "list_all (\<lambda>p. list_all (\<lambda>(l, v). l \<noteq> new) (phi_in p)) (bb_phis b)"
    using assms(1,3) b(1) by (fastforce simp: entry_ok_def list_all_iff)
  moreover have "prev \<noteq> new" "prev' = (if prev = bb_label bb then new else prev)" using assms(3,4) False by auto
  ultimately show ?thesis
    using b False by (intro that [of b "rename_pred (bb_label bb) new b"]) (simp_all add: exec_phis_rename, simp_all add: rename_pred_def)
qed

lemma split_run_sim:
  assumes "entry_ok bb rest" and "bb_label first = bb_label bb" and "new \<notin> bb_label ` set (bb # rest)"
    and "list_all (\<lambda>b. block_sim w args P N b b) (bb # rest)" and "list_all (block_below N) (bb # rest)"
  shows "env_eq N e e' \<Longrightarrow> l = bb_label bb \<or> l \<noteq> bb_label bb \<and> l \<in> bb_label ` set rest
      \<and> prev \<in> bb_label ` set (bb # rest) \<and> prev' = (if prev = bb_label bb then new else prev) \<Longrightarrow>
    sim P (=) (run_blocks n w args (bb # rest) prev l e)
      (run_blocks n w args (split_blocks bb rest first fin new) prev' (if l = bb_label bb then new else l) e')"
proof (induction n arbitrary: prev prev' l e e')
  case 0
  show ?case unfolding run_blocks.simps by (rule sim_fault)
next
  case (Suc n)
  let ?r = "\<lambda>l. if l = bb_label bb then new else l" and ?bs = "split_blocks bb rest first fin new"
  obtain b b' where b: "b \<in> set (bb # rest)" "find (\<lambda>b. bb_label b = l) (bb # rest) = Some b" "find (\<lambda>b. bb_label b = ?r l) ?bs = Some b'"
    "bb_insts b' = bb_insts b" "bb_term b' = bb_term b"
    "exec_phis w args prev' (bb_phis b') e' = exec_phis w args prev (bb_phis b) e'"
    by (rule split_block [OF assms(1-3) Suc.prems(2), where fin = fin and w = w and args = args]) blast
  have below: "block_below N b" "block_sim w args P N b b" using b(1) assms(4,5) by (simp_all only: list_all_iff)
  have "sim P (env_eq N) (exec_insts w args (bb_insts b) (exec_phis w args prev (bb_phis b) e))
      (exec_insts w args (bb_insts b) (exec_phis w args prev (bb_phis b) e'))"
    using below exec_phis_env_eq [OF Suc.prems(1), of "bb_phis b"] unfolding block_sim_def block_below_def by blast
  then show ?case
    unfolding run_blocks.simps b(2-6) option.case
  proof (rule sim_bind)
    fix x y assume xy: "env_eq N x y"
    have t: "exec_term w args (bb_term b) x = exec_term w args (bb_term b) y"
      using below(1) by (intro exec_term_env_eq [OF xy]) (simp add: block_below_def)
    have "l \<in> bb_label ` set (bb # rest)" using find_SomeD [OF b(2)] by blast
    moreover have "l' \<in> bb_label ` set rest \<and> l' \<noteq> bb_label bb" if "exec_term w args (bb_term b) y = Goto l'" for l'
      using exec_term_targets [OF that] assms(1) b(1) by (fastforce simp: entry_ok_def list_all_iff)
    ultimately show "sim P (=)
        (case exec_term w args (bb_term b) x of Goto l' \<Rightarrow> run_blocks n w args (bb # rest) l l' x | Return r \<Rightarrow> returnM r | Stuck \<Rightarrow> faultM ''unreachable'')
        (case exec_term w args (bb_term b) y of Goto l' \<Rightarrow> run_blocks n w args ?bs (?r l) l' y | Return r \<Rightarrow> returnM r | Stuck \<Rightarrow> faultM ''unreachable'')"
      unfolding t using Suc.IH [OF xy, of _ l "?r l"] by (cases "exec_term w args (bb_term b) y") (fastforce intro: sim_return sim_fault)+
  qed
qed

section \<open>The new entry\<close>

abbreviation exception_code :: "kspecem_pass \<Rightarrow> ir_function \<Rightarrow> ir_value \<Rightarrow> ir_value irb" where
  "exception_code L F arg \<equiv> do { inSpec \<leftarrow> insertExceptionInterruptHook L F arg;
     insert_inst (IntTy 1) (ICmpInst ICMP_EQ inSpec (ConstInt 32 0)) }"

lemma exception_code_run:
  assumes "kspecem_hooks L" and "calls_quiet w" and "quiet s"
  obtains e1 where "exec_insts w args (emitted (exception_code L F (Arg 0 t)) n) e s = Ret e1 s" and "env_eq n e e1"
    and "eval w args e1 (built (exception_code L F (Arg 0 t)) n) = 1"
proof -
  let ?c = "CreateBitCast (Arg 0 t) i8ptr" and ?e = "e(n := unat (frame_address w))"
  let ?h = "next_id ?c (n + 1)"
  have hook: "exceptionInterruptHook L = Fun ''kspecem_hook_interrupt_exception'' (FunTy (IntTy 32) [i8ptr, i8ptr, IntTy 32])"
    using assms(1) by (simp add: kspecem_hooks_def)
  have fa: "frame_address w \<noteq> 0" using assms(2) by (simp add: calls_quiet_def)
  have "value_below (n + 1) (Arg 0 t)" by simp
  then obtain e' where e': "exec_insts w args (emitted ?c (n + 1)) ?e s = Ret e' s" "env_eq (n + 1) ?e e'"
    by (rule cast_run [where w = w and args = args and t = i8ptr and e = ?e and s = s])
  have n: "e' n = unat (frame_address w)" using e'(2) by (auto simp: env_eq_def)
  have h: "n + 1 \<le> ?h" by (simp add: builder_next)
  have call: "call_function w i ''kspecem_hook_interrupt_exception'' [x, unat (frame_address w), y] s = Ret 0 s" for i x y
    using quiet_hooks(7) [OF assms(3) fa] by (simp add: call_function_def argn_def bindM_apply)
  let ?e1 = "e'(?h := 0, ?h + 1 := 1)"
  have "e j = ?e1 j" if "j < n" for j using spec [OF e'(2) [unfolded env_eq_def], of j] that h by simp
  then have "env_eq n e ?e1" by (simp add: env_eq_def)
  moreover have "exec_insts w args (emitted (exception_code L F (Arg 0 t)) n) e s = Ret ?e1 s"
    using e'(1) n
    by (simp add: insertExceptionInterruptHook_def hook exec_insts_append exec_inst_def exec_op_def call_value_def call_function_hooks(8)
        call bindM_apply Let_def)
  moreover have "eval w args ?e1 (built (exception_code L F (Arg 0 t)) n) = 1"
    by (simp add: insertExceptionInterruptHook_def hook)
  ultimately show thesis by (intro that)
qed

lemma exception_entry_eq:
  obtains new ret where "fun_blocks (exception_entry L F bb rest arg) = split_blocks bb rest
      (bb\<lparr>bb_insts := emitted (exception_code L F arg) (fun_next F), bb_term := CondBr (built (exception_code L F arg) (fun_next F)) new ret\<rparr>)
      \<lparr>bb_label = ret, bb_phis = [], bb_insts = [], bb_term = ReturnInst None\<rparr> new"
    and "new \<notin> bb_label ` set (bb # rest)"
proof -
  have "builder (exception_code L F arg)" by simp
  then have r: "run_state (exception_code L F arg) (fun_next F, []) = (built (exception_code L F arg) (fun_next F),
      (next_id (exception_code L F arg) (fun_next F), emitted (exception_code L F arg) (fun_next F)))"
    by (simp only: builder_run append_Nil)
  let ?new = "new_label (bb # rest) (bb_label bb @ ''.split'')"
  show thesis
    by (rule that [of ?new "new_label (bb # bb\<lparr>bb_label := ?new, bb_phis := []\<rparr> # rest) ''returnBlock''", OF _ new_label_new])
      (simp only: exception_entry_def r Let_def prod.case split_blocks_def, simp)
qed

text \<open>
  C19. Outside a speculation an exception handler handles its exception. A function on the exception list, whose
  entry block has been split, runs as the original, with one block more: the hook says that
  there is no speculation to end, the old entry block is entered under its new name, and PHI nodes of
  its successors get the values they got before.
\<close>

theorem KSpecEm_exception_transparent:
  assumes "KSpecEm_init l DL M = Some (L, M')" and "KSpecEm_visitor L (mod_name M') F = Some F'"
    and "isIn l (mod_name M') F ''exception''" and "\<not> isIn l (mod_name M') F ''blacklist''" and "\<not> isIn l (mod_name M') F ''timer''"
    and "fun_blocks F = bb # rest" and "entry_ok bb rest" and "fun_below F"
    and "list_all (\<lambda>b. list_all no_hook_call (bb_insts b)) (fun_blocks F)" and "calls_quiet w" and "quiet s"
  shows "run_function (Suc n) w F' args s = run_function n w F args s"
proof -
  have L: "kspecem_hooks L" "kspecem_functions L = l" using KSpecEm_init_hooks [OF assms(1)] by simp_all
  obtain t where F': "F' = exception_entry L F bb rest (Arg 0 t)"
    using assms(2-6) by (auto simp: KSpecEm_visitor_def L(2) split: list.splits)
  let ?m = "exception_code L F (Arg 0 t)" and ?N = "fun_next F" and ?P = "quiet_run w quiet (kspecem_hooks L)"
  obtain new ret where bs: "fun_blocks F' = split_blocks bb rest
      (bb\<lparr>bb_insts := emitted ?m ?N, bb_term := CondBr (built ?m ?N) new ret\<rparr>)
      \<lparr>bb_label = ret, bb_phis = [], bb_insts = [], bb_term = ReturnInst None\<rparr> new" "new \<notin> bb_label ` set (bb # rest)"
    unfolding F' by (rule exception_entry_eq)
  obtain e1 where e1: "exec_insts w args (emitted ?m ?N) (\<lambda>_. 0) s = Ret e1 s" "env_eq ?N (\<lambda>_. 0) e1" "eval w args e1 (built ?m ?N) = 1"
    by (rule exception_code_run [OF L(1) assms(10,11)])
  have phi: "bb_phis bb = []" "exec_phis w args prev [] e = e" for prev e using assms(7) by (simp_all add: entry_ok_def exec_phis_def fun_eq_iff)
  have "run_function (Suc n) w F' args s = run_blocks n w args (fun_blocks F') (bb_label bb) new e1 s"
    using e1 by (simp add: run_function_def bs(1) split_blocks_def rename_pred_def phi bindM_apply exec_term_def)
  moreover have "run_function n w F args s = run_blocks n w args (bb # rest) [] (bb_label bb) (\<lambda>_. 0) s"
    by (simp add: run_function_def assms(6))
  moreover have "list_all (\<lambda>b. block_sim w args ?P ?N b b) (bb # rest)" "list_all (block_below ?N) (bb # rest)"
    using assms(6,8,9) by (auto simp: fun_below_def list_all_iff intro!: block_sim_refl calls_quiet_keeps [OF assms(10)])
  then have "sim ?P (=) (run_blocks n w args (bb # rest) [] (bb_label bb) (\<lambda>_. 0))
      (run_blocks n w args (fun_blocks F') (bb_label bb) (if bb_label bb = bb_label bb then new else bb_label bb) e1)"
    unfolding bs(1) by (intro split_run_sim [OF assms(7) _ bs(2) _ _ e1(2)]) simp_all
  moreover have "?P s" using L(1) assms(10,11) by (simp add: quiet_run_def calls_quiet_context)
  ultimately show ?thesis using sim_eqD by fastforce
qed

section \<open>An example\<close>

text \<open>A handler whose second block takes a value from the entry block.\<close>

definition demo_handler :: ir_function where
  "demo_handler = \<lparr>fun_name = ''exc_page_fault'', fun_ret = VoidTy, fun_args = [i8ptr], fun_cc = CC_C, fun_blocks =
     [\<lparr>bb_label = ''entry'', bb_phis = [], bb_insts = [], bb_term = Br ''end''\<rparr>,
      \<lparr>bb_label = ''end'', bb_phis = [\<lparr>phi_id = 0, phi_ty = IntTy 64, phi_in = [(''entry'', ConstInt 64 7)]\<rparr>], bb_insts = [],
       bb_term = ReturnInst (Some (Inst 0 (IntTy 64)))\<rparr>], fun_next = 1\<rparr>"

definition demo_exceptions :: abi_list where
  "demo_exceptions = set_abi_list (\<lambda>sec pre n cat. pre = ''fun'' \<and> n = ''exc_page_fault'' \<and> cat = ''exception'') ''dfs$''"

theorem KSpecEm_exception_transparent_witness:
  "\<exists>L M' F'. KSpecEm_init demo_exceptions demo_layout demo_module = Some (L, M')
    \<and> KSpecEm_visitor L (mod_name M') demo_handler = Some F' \<and> length (fun_blocks F') = 4
    \<and> run_function 3 demo_world F' (\<lambda>_. 0x8000) demo_idle = Ret (Some 7) demo_idle"
proof -
  obtain L M' where i: "KSpecEm_init demo_exceptions demo_layout demo_module = Some (L, M')"
    by (simp add: KSpecEm_init_def declare_hook_def getOrInsertFunction_def lookup_fun_def setCallingConv_def
        demo_module_def demo_function_def)
  then have L: "kspecem_functions L = demo_exceptions" using KSpecEm_init_hooks by blast
  have l: "isIn demo_exceptions m demo_handler ''exception''" "\<not> isIn demo_exceptions m demo_handler ''blacklist''"
    "\<not> isIn demo_exceptions m demo_handler ''timer''" for m
    by (simp_all add: isIn_def isIn_module_def demo_exceptions_def set_abi_list_def demo_handler_def drop_prefix_def Let_def)
  define bb where "bb = hd (fun_blocks demo_handler)"
  define rest where "rest = tl (fun_blocks demo_handler)"
  have F: "fun_blocks demo_handler = bb # rest" "entry_ok bb rest" "length rest = 1"
    by (simp_all add: bb_def rest_def demo_handler_def entry_ok_def)
  define F' where "F' = exception_entry L demo_handler bb rest (Arg 0 i8ptr)"
  have v: "KSpecEm_visitor L (mod_name M') demo_handler = Some F'"
    using F(1) by (simp add: KSpecEm_visitor_def L l F'_def) (simp add: demo_handler_def)
  have "fun_below demo_handler" "list_all (\<lambda>b. list_all no_hook_call (bb_insts b)) (fun_blocks demo_handler)"
    by (simp_all add: fun_below_def demo_handler_def block_below_def)
  from KSpecEm_exception_transparent [OF i v l F(1,2) this demo_world_quiet demo_idle_quiet, of 2]
  have "run_function 3 demo_world F' (\<lambda>_. 0x8000) demo_idle = run_function 2 demo_world demo_handler (\<lambda>_. 0x8000) demo_idle"
    by (simp add: numeral_3_eq_3 numeral_2_eq_2)
  moreover have "run_function 2 demo_world demo_handler (\<lambda>_. 0x8000) demo_idle = Ret (Some 7) demo_idle"
    by (simp add: numeral_2_eq_2 run_function_def demo_handler_def bindM_apply exec_term_def exec_phis_def)
  moreover have "length (fun_blocks F') = 4"
    using F(3) by (simp add: F'_def exception_entry_def Let_def split_beta)
  ultimately show ?thesis using i v by auto
qed

end
