(* ===== verification/Spec2Isabelle.thy ===== *)
theory Spec2Isabelle
  imports KDebugfs KBoot KSpecEnds KSpecLength KTyping KExceptionEntry
begin

text \<open>
  \<^bold>\<open>Kasper's speculative emulation runtime\<close>

  Kasper finds transient execution gadgets in the Linux kernel by running mispredicted branches in
  software. LLVM passes (\<open>src/passes\<close>) instrument the kernel; a runtime library
  (\<open>src/static/kspecem\<close>) takes a checkpoint before an instrumented branch, lets the branch go the
  wrong way, records every store in an undo log, and ends the speculation by rolling memory, stack
  and registers back to the checkpoint. Policies that recognise gadgets leave pending reports, which
  are printed once per instruction and kind after the rollback.

  \<^bold>\<open>Theories and the code they model\<close> (files under \<open>src/static/kspecem\<close> unless said otherwise)

  \<^item> \<open>KPrelude\<close>: words, the results of a C function (\<open>Ret\<close> it returns, \<open>Resume\<close> control jumps to the
    checkpoint, \<open>Panic\<close> the kernel stops, \<open>Fault\<close> undefined behaviour such as a NULL dereference or a
    write past an array), sequencing in statement order, rules for invariants (\<open>hoare\<close>, \<open>keeps\<close>) and
    for independence of a callback (\<open>agree\<close>), the locales \<open>bounded_table\<close> and \<open>step_invariant\<close>.
  \<^item> \<open>C_Memory\<close>: byte memory at 64-bit addresses; the locale \<open>undo_log\<close>, interpreted on 8-byte granules.
  \<^item> \<open>KUtils\<close>: \<open>kspecem_utils.c\<close>, C strings as byte lists with out-of-bounds accesses as errors.
  \<^item> \<open>KStatistics\<close>: \<open>kspecem_statistics.c\<close>, the trace of a speculation.
  \<^item> \<open>KStats_Inlineasm\<close>, \<open>KStats_Restarts\<close>: \<open>kspecem_stats_inlineasm.c\<close>, \<open>kspecem_stats_restarts.c\<close>.
  \<^item> \<open>KWhitelist\<close>: \<open>kspecem_whitelist.c\<close>.
  \<^item> \<open>KRegisters\<close>: \<open>kspecem_regs.S\<close>, \<open>include/calling.h\<close>, the register copies of \<open>kspecem_interrupt.c\<close>.
  \<^item> \<open>KState\<close>: all globals in the record \<open>kstate\<close>, one field per C variable under its own name; the
    kernel functions the library calls as the record \<open>kernel\<close>; \<open>kspecem_assert.c\<close>.
  \<^item> \<open>KUndolog\<close>, \<open>KWritelog\<close>: \<open>kspecem_undolog.c\<close>, replaying and writing the log.
  \<^item> \<open>KStack\<close>: \<open>kspecem_stack.c\<close>. \<open>KBugs\<close>: \<open>kspecem_bugs.c\<close> and \<open>kspecem_report.c\<close>.
  \<^item> \<open>KInternal\<close>: \<open>kspecem_internal.c\<close>, checkpoint and restart. \<open>KInterrupt\<close>: \<open>kspecem_interrupt.c\<close>.
  \<^item> \<open>KInterface\<close>: the hooks of \<open>kspecem_interface.c\<close>, \<open>kspecem_pf_checker.c\<close>, \<open>kspecem_kdf.c\<close>.
  \<^item> \<open>KInit\<close>: \<open>kspecem_init.c\<close>, with the debugfs files and the variables they write.
  \<^item> \<open>KSpeculation\<close>: the calls \<open>passes/kspecem-spec/KSpecEmSpec.cpp\<close> puts before a branch, and the
    steps between a checkpoint and the end of the speculation.
  \<^item> \<open>KReach\<close>: any sequence of hook calls, kernel code and debugfs writes. \<open>KDebugfs\<close>: what
    a write can do, and boot. \<open>KBalance\<close>: preemption, interrupts and NMIs over every hook.

  The passes (files under \<open>src/passes\<close>):

  \<^item> \<open>LLVM_IR\<close>: modules, functions, blocks, instructions, values and types as far as the passes look at
    them; the builder as a state monad over the next free number and the instructions inserted;
    \<open>visit_function\<close>, the traversal of \<open>InstVisitor\<close>; \<open>declare_hook\<close>, what every \<open>init\<close> does per hook.
  \<^item> \<open>KSpecEmABIList\<close>: \<open>include/kspecem/KSpecEmABIList.h\<close>, the function lists.
  \<^item> \<open>KSpecEmPass\<close>: \<open>kspecem/KSpecEm.cpp\<close>, restart, store, copy, timer and exception hooks.
  \<^item> \<open>KSpecEmSpecPass\<close>: \<open>kspecem-spec/KSpecEmSpec.cpp\<close>, checkpoints and the call depth hook.
  \<^item> \<open>KSpecEmSmallPasses\<close>: \<open>KSpecEmPfChecker.cpp\<close>, \<open>KSpecEmCheckSpecLength.cpp\<close>, \<open>CountInstrs.cpp\<close>.
  \<^item> \<open>LLVM_Semantics\<close>: running a function on the state of the runtime. A call of a hook is the
    hook's definition above; other calls, floating point and other instructions are fields of
    the record \<open>world\<close>. \<open>LLVM_Simulation\<close>: the locale \<open>transparent_visitor\<close>, a visitor that inserts
    code without effect, and that the visited function then runs as before.
  \<^item> \<open>KPassManager\<close>: the entry points and the registration of the five passes with both pass managers (the
    last part of every pass file), and pipelines of passes on modules.
  \<^item> \<open>KTransparent\<close>, \<open>KExceptionEntry\<close>, \<open>KInsertedCode\<close>, \<open>KInstrumented\<close>, \<open>KSpecLength\<close>, \<open>KTyping\<close>,
    \<open>KNumbering\<close>, \<open>KScoping\<close>, \<open>KPassErrors\<close>: about single passes. \<open>KPipeline\<close>, \<open>KBoot\<close>,
    \<open>KPipelineSpec\<close>, \<open>KResume\<close>, \<open>KSpecEnds\<close>: about pipelines on whole modules. See below.

  \<^bold>\<open>What is shown\<close>

  \<^item> Rollback: below, for a whole speculation from the instrumented branch back to it;
    \<open>KInternal\<close> for one restart, \<open>KInterrupt\<close> for the ones made from interrupt handlers,
    \<open>KWritelog\<close> that the log covers every byte of a store or copy before it happens.
  \<^item> The recursion of the runtime through its own assertions is never entered
    (\<open>KInternal\<close>, \<open>KInterface\<close>), and an assertion that fails in a speculation ends in a panic
    after the rollback.
  \<^item> Limits: the speculation ends at the first block that reaches the instruction limit, the first
    call that reaches the depth limit, the first store that finds the log full.
  \<^item> Reports (\<open>KBugs\<close>): the bitmap per access kind refines a set of reported pairs of text offset
    and kind; every pair is printed at most once.
  \<^item> Invariants of the globals over all hook sequences (\<open>KReach\<close>); initialisation establishes the
    state they start from (\<open>KInit\<close>). Hooks that return leave preemption, interrupts and NMIs as they were, and those
    that jump leave interrupts off (\<open>KBalance\<close>).
  \<^item> Instrumented code outside a speculation: after any sequence of the passes but the one that takes
    checkpoints every function runs exactly as before (\<open>KPipeline\<close>, from three interpretations of
    \<open>transparent_visitor\<close> in \<open>KTransparent\<close>), also an exception handler with its entry block split
    (\<open>KExceptionEntry\<close>); before the runtime is initialised this holds with the checkpoints too, up to
    registers (\<open>KBoot\<close>).
  \<^item> Instrumented code in a speculation: what a function does after the restart and store pass is
    made of the steps the rollback theorem is about (\<open>KInstrumented\<close>), and so is what the other passes add,
    so a restart undoes it (\<open>KPipelineSpec\<close>), and so does a jump out of the middle of that code, from whichever hook
    and with whatever the runtime's tables hold (\<open>KSpecEnds\<close>, from \<open>KResume\<close>: a restart that jumps has rolled back); the length hook bounds the blocks a run gets through
    (\<open>KSpecLength\<close>); the instructions emitted before a branch are the calls of \<open>visitBranchInst\<close> in
    \<open>KSpeculation\<close> (\<open>KInsertedCode\<close>), which the theorems below start from: the last ones follow a branch in emitted code
    the wrong way, through an instrumented function, and back into the rest of the emitted code, which takes the right way.
  \<^item> The passes as functions on programs: inserted code is well typed (\<open>KTyping\<close>); pipelines keep
    numbers distinct and operands below them (\<open>KPipeline\<close>, the locales \<open>numbering_visitor\<close> of \<open>KNumbering\<close> and
    \<open>scoping_visitor\<close> of \<open>KScoping\<close>); exactly when the restart and store pass is undefined, list lookup under promoted
    names (\<open>KPassErrors\<close>), and which modules every pipeline has a result on (\<open>KPipeline\<close>).
  \<^item> Pass managers (\<open>KPassManager\<close>): names of pipelines and the order of registration give the passes, and
    no changed module is reported unchanged.
  \<^item> Tables and helpers: ordering and counts of the inline assembly table, the sum of the restart
    counters, bounds of the trace, the string functions, the whitelist, the register round trip.
  \<^item> Theorems that pin down unintended behaviour: a restart for a nested return leaves the flag that
    silences later assertions; the inline assembly table is written through NULL when enabled
    late; \<open>kspecem_itoa\<close> on the most negative number; a store wider than eight bytes survives the
    restart (\<open>KInstrumented\<close>); assembly that begins with a label is taken for harmless
    (\<open>KPassErrors\<close>); an unknown print level, which debugfs accepts, ends in a panic at the next report
    (\<open>KDebugfs\<close>).

  \<^bold>\<open>Bounds and loops\<close>

  The replay loop runs down from the log position and is structural. The loop of
  \<open>kspecem_memcpy\<close> carries a bound on its iterations computed from the range;
  \<open>kspecem_memcpy_covers_range\<close> shows that the function returns, so that the bound is enough for every
  range that does not end in the last 8 bytes of the address space. Recursion of
  \<open>kspecem_write_wl\<close> is one level deep and terminates by alignment. \<open>run_function\<close> takes the number of blocks
  it may run; the equivalences hold for every number, and \<open>CheckSpecLength_bounds_speculation\<close> shows
  how many are enough during a speculation.

  \<^bold>\<open>Assumptions\<close>

  Kernel functions are parameters. Where a theorem relies on them it says so (\<open>kernel_ok\<close>: enabling
  undoes disabling for preemption, interrupts and NMIs, and interrupts are off after
  \<open>local_irq_save\<close>). A call site says where the frames of the restart lie on the stack (\<open>site\<close>).
  Functions the instrumented code calls are parameters too: \<open>calls_quiet\<close> (called outside a speculation they
  leave the runtime there), \<open>calls_safe\<close> (if control jumps out of them during a speculation, that has been undone), \<open>calls_dormant\<close> (before initialisation they leave it uninitialised, and their effect does not depend on
  the modelled registers) and \<open>calls_steps\<close> (called during a speculation they take steps of it).
  What LLVM does with the callbacks of a plugin is \<open>llvm_passes\<close> with \<open>llvm_passes_ok\<close>.

  \<^bold>\<open>What is not modelled\<close>

  The library's own variables and log arrays are fields of the state and not bytes of the modelled
  memory, so a kernel store into them is outside the model. Neither is what the kernel keeps of preemption, interrupts
  and NMIs, the field \<open>cpu\<close>: the rollback does not touch it. Reads do not fault. The call of
  \<open>kasan_save_enable_multi_shot\<close> and the text of log messages are left out; log
  lines keep their arguments.

  Of the passes: debug output; the versions in the plugin information; the declarations of intrinsics and
  the no-inline attribute of inserted calls; constant folding by the builder other than of casts; alignment
  and volatility of accesses; which plugins the build loads (the results hold for any order). Matching
  names against the patterns of a list is LLVM's (a parameter). The counter of \<open>CountInstrs.cpp\<close> is
  a natural number and its output the printed pairs. Vectors and aggregates in registers are numbers as
  wide as their type. Scripts and task files have no logic of the runtime, \<open>include/sysdep.h\<close> is
  a header of assembler macros taken from the GNU C library, and \<open>passes/include/pass.h\<close> includes other headers.
\<close>

section \<open>A whole speculation\<close>

lemma speculation_rolls_back:
  fixes st :: site and eflags :: u64
  assumes "rt_ready k s" and "frame_ok k fp frameAddress s"
    and "(spec_step k)\<^sup>*\<^sup>* (after_checkpoint k st fp frameAddress eflags s) u" and "can_end k st' ty u"
  defines "c \<equiv> after_checkpoint k st fp frameAddress eflags s"
  obtains t where "kspecem_hook_restart k st' 0 ty call_arg u = Resume t"
    and "\<forall>x. given_back st' c x \<and> \<not> unat (x - (hw s RSP - 8)) < 8 \<longrightarrow> mem t x = mem s x"
    and "hw t RIP = load64 (mem s) (hw s RSP)" and "hw t RSP = hw s RSP + 8" and "hw t EFLAGS = eflags"
    and "\<forall>r \<in> preserved_regs. hw t r = hw s r" and "cpu t = stop_nmi k (quiet_cpu k (cpu u))"
    and "\<not> kspecem_in_speculative_emulation t" and "\<not> kspecem_writelog_enabled t" and "\<not> kspecem_is_in_rt t"
    and "\<not> kspecem_swap_branch_condition t"
proof -
  have "kspecem_init_done s" using assms(1) by (simp add: rt_ready_def)
  then have "at_checkpoint c" unfolding c_def by (rule after_checkpoint_at_checkpoint [OF assms(2)])
  from restart_gives_back [OF this assms(3) [folded c_def] assms(4), of call_arg] obtain t where
    t: "kspecem_hook_restart k st' 0 ty call_arg u = Resume t" "\<And>x. given_back st' c x \<Longrightarrow> mem t x = mem c x"
    "\<forall>r \<in> preserved_regs \<union> {RIP, RSP, EFLAGS}. hw t r = kspecem_registers c r"
    "cpu t = stop_nmi k (quiet_cpu k (cpu u))" "\<not> kspecem_in_speculative_emulation t" "\<not> kspecem_writelog_enabled t"
    "\<not> kspecem_is_in_rt t" "\<not> kspecem_swap_branch_condition t"
    by blast
  have "mem c x = mem s x" if "\<not> unat (x - (hw s RSP - 8)) < 8" for x
    using that unfolding c_def after_checkpoint_fields(1) [OF assms(2)] by (simp add: store64_def)
  with t show thesis
    using after_checkpoint_fields(2-4,11) [OF assms(2), of st eflags, folded c_def] by (intro that [of t]) simp_all
qed

text \<open>
  C3. The instrumented branch takes a checkpoint; the kernel runs on for any number of steps, with any
  stores (each announced by its hook) and any hook calls that return; then a restart hook ends
  the speculation. Control returns once more from the call that saved the registers, with the stack
  pointer, the flags and the saved registers of that call. Memory is as it was before the
  checkpoint, up to the stack of the running restart (outside the saved frame) and the two words
  the flags are pushed to.
\<close>

theorem speculation_has_no_effect:
  assumes "kernel_ok k" and "rt_ready k s" and "may_checkpoint k s" and "frame_ok k fp frameAddress s"
    and "insertNewCheckpointHook k st sta fp frameAddress eflags s = Ret () c"
    and "(spec_step k)\<^sup>*\<^sup>* c u" and "can_end k st' ty u"
  shows "\<exists>t. kspecem_hook_restart k st' 0 ty call_arg u = Resume t
    \<and> (\<forall>x. given_back st' c x \<and> \<not> unat (x - (hw s RSP - 8)) < 8 \<longrightarrow> mem t x = mem s x)
    \<and> hw t RIP = load64 (mem s) (hw s RSP) \<and> hw t RSP = hw s RSP + 8 \<and> hw t EFLAGS = eflags
    \<and> (\<forall>r \<in> preserved_regs. hw t r = hw s r)
    \<and> \<not> kspecem_in_speculative_emulation t \<and> \<not> kspecem_writelog_enabled t \<and> \<not> kspecem_is_in_rt t"
proof -
  have c: "c = after_checkpoint k st fp frameAddress eflags s" using checkpoint_runs [OF assms(1-4)] assms(5) by simp
  from speculation_rolls_back [OF assms(2,4) assms(6) [unfolded c] assms(7), of call_arg] show ?thesis
    unfolding c [symmetric] by blast
qed

theorem speculation_has_no_effect_witness:
  "mem demo_stored 0x3001 = 2
    \<and> (\<exists>t. kspecem_hook_restart plain_kernel demo_site 0 KSPECEM_RESTART_CALL 0 demo_stored = Resume t
      \<and> mem t 0x3001 = 1 \<and> hw t RSP = hw demo_idle RSP + 8)"
proof -
  note i = plain_kernel_ok demo_idle_ready(1) demo_idle_ok(5) demo_idle_ready(2)
  have c: "insertNewCheckpointHook plain_kernel demo_site demo_site 0x8000 0x8100 0x46 demo_idle = Ret () demo_at"
    unfolding demo_at_def by (rule checkpoint_runs [OF i])
  have r: "(spec_step plain_kernel)\<^sup>*\<^sup>* demo_at demo_stored" using demo_stored_step by simp
  have m: "mem demo_idle 0x3001 = 1" "hw demo_idle RSP = 0"
    by (simp_all add: demo_idle_def demo_spec_def boot_state_def)
  have g: "given_back demo_site demo_at 0x3001"
    using m(2) after_checkpoint_fields(3) [OF i(4), of demo_site "0x46", folded demo_at_def]
    by (simp add: given_back_def skip_entry_def demo_site_def align8_def)
  from speculation_has_no_effect [OF i c r demo_stored_can_end, of 0] g m
  show ?thesis by (auto simp: demo_stored_def write_bytes_def)
qed

section \<open>An instrumented branch\<close>

lemma branch_both_ways:
  assumes "kernel_ok k" and "rt_ready k s" and "may_checkpoint k s" and "frame_ok k fp frameAddress s"
    and "visitBranchInst k st sta fp frameAddress eflags condition s = Ret taken c"
    and "(spec_step k)\<^sup>*\<^sup>* c u" and "can_end k st' ty u" and "cpu u = cpu s"
  shows "taken = (if kspecem_swap_branch_enabled s then \<not> condition else condition)
    \<and> kspecem_in_speculative_emulation c
    \<and> (\<exists>t t'. kspecem_hook_restart k st' 0 ty call_arg u = Resume t
      \<and> hw t RIP = load64 (mem s) (hw s RSP) \<and> hw t RSP = hw s RSP + 8
      \<and> branch_rest k sta (irq_flags k (cpu s)) condition t = Ret condition t'
      \<and> (\<forall>x. given_back st' c x \<and> \<not> unat (x - (hw s RSP - 8)) < 8 \<longrightarrow> mem t' x = mem s x)
      \<and> \<not> kspecem_in_speculative_emulation t' \<and> \<not> kspecem_is_in_rt t' \<and> cpu t' = cpu s)"
proof -
  let ?c = "after_checkpoint k st fp frameAddress eflags s" and ?f = "irq_flags k (cpu s)"
  have "\<not> kspecem_swap_branch_condition s" using assms(2) by (simp add: rt_ready_def)
  note fields = after_checkpoint_fields [OF assms(4), of st eflags]
  have taken: "taken = (if kspecem_swap_branch_condition ?c then \<not> condition else condition)"
    and c: "c = ?c\<lparr>kspecem_swap_branch_condition := False\<rparr>" and step: "swapCondition condition ?c = Ret taken c"
    using assms(5) checkpoint_runs [OF assms(1-4), of st sta eflags]
    by (simp_all add: visitBranchInst_def swapCondition_def thenM_apply bindM_apply)
  have g: "given_back st' ?c x = given_back st' c x" for x by (simp add: c given_back_def in_frame_def)
  have "(spec_step k)\<^sup>*\<^sup>* ?c u"
    using spec_step.branch [OF step] assms(6) by (rule converse_rtranclp_into_rtranclp)
  then obtain t where t: "kspecem_hook_restart k st' 0 ty call_arg u = Resume t"
    "\<forall>x. given_back st' c x \<and> \<not> unat (x - (hw s RSP - 8)) < 8 \<longrightarrow> mem t x = mem s x"
    "hw t RIP = load64 (mem s) (hw s RSP)" "hw t RSP = hw s RSP + 8"
    "cpu t = stop_nmi k (quiet_cpu k (cpu s))" "\<not> kspecem_in_speculative_emulation t"
    "\<not> kspecem_swap_branch_condition t"
    using speculation_rolls_back [OF assms(2,4) _ assms(7), of st eflags call_arg] unfolding g assms(8) by metis
  have "?f \<noteq> - 1" using assms(4) by (auto simp: frame_ok_def)
  then have "branch_rest k sta ?f condition t =
      Ret condition (t\<lparr>cpu := cpu s, kspecem_is_in_rt := False, kspecem_swap_branch_condition := False\<rparr>)"
    using leave_eq [OF assms(1) t(5)] t(7)
    by (simp add: branch_rest_def kspecem_hook_leave_rt_def swapCondition_def thenM_apply bindM_apply)
  with t taken fields(7,8) \<open>\<not> kspecem_swap_branch_condition s\<close> show ?thesis by (auto simp: c)
qed


text \<open>The example program branches on a true condition, goes the other way, ends the speculation at
  once, and comes back to the true branch.\<close>

lemma demo_at_can_end: "can_end plain_kernel demo_site KSPECEM_RESTART_CALL (demo_at\<lparr>kspecem_swap_branch_condition := False\<rparr>)"
proof -
  have "wl_list (demo_at\<lparr>kspecem_swap_branch_condition := False\<rparr>) = []"
    using demo_at_fields(6) by (simp add: wl_list_def)
  then show ?thesis
    using demo_at_fields(4,5)
    by (simp add: can_end_def rollback_ok_def ends_speculation_def stats_ready_def reports_ok_def map_ready_def)
      (simp add: demo_at_def after_checkpoint_def checkpointed_def demo_idle_def demo_spec_def boot_state_def
        demo_site_def split: prod.splits)
qed


section \<open>The branch and the code behind it\<close>

lemma branch_rest_off:
  assumes "f \<noteq> - 1" and "irqs_disabled k (cpu t)" and "\<not> kspecem_swap_branch_condition t"
  obtains u where "branch_rest k sta f condition t = Ret condition u" and "mem u = mem t"
    and "kspecem_in_speculative_emulation u = kspecem_in_speculative_emulation t" and "\<not> kspecem_is_in_rt u"
  using assms that
  by (simp add: branch_rest_def kspecem_hook_leave_rt_def LEAVE_KSPECEM_RT_def kspecem_unset_rt_def swapCondition_def km_simps)

lemma branch_checkpoint:
  assumes "kernel_ok k" and "rt_ready k s" and "may_checkpoint k s" and "frame_ok k fp frameAddress s"
    and "visitBranchInst k st sta fp frameAddress eflags condition s = Ret taken c"
  shows "at_checkpoint c" and "kspecem_in_speculative_emulation c" and "mem c = store64 (mem s) (hw s RSP - 8) eflags"
    and "taken = (condition \<noteq> kspecem_swap_branch_enabled s)"
proof -
  let ?c = "after_checkpoint k st fp frameAddress eflags s"
  note fields = after_checkpoint_fields [OF assms(4), of st eflags]
  have s: "kspecem_init_done s" "\<not> kspecem_swap_branch_condition s" using assms(2) by (simp_all add: rt_ready_def)
  have c: "c = ?c\<lparr>kspecem_swap_branch_condition := False\<rparr>"
    and t: "taken = (if kspecem_swap_branch_condition ?c then \<not> condition else condition)"
    using assms(5) checkpoint_runs [OF assms(1-4), of st sta eflags]
    by (simp_all add: visitBranchInst_def swapCondition_def thenM_apply bindM_apply)
  show "kspecem_in_speculative_emulation c" "mem c = store64 (mem s) (hw s RSP - 8) eflags"
    "taken = (condition \<noteq> kspecem_swap_branch_enabled s)" using fields(1,7,8) s(2) by (auto simp: c t)
  have "at_checkpoint ?c" by (rule after_checkpoint_at_checkpoint [OF assms(4) s(1)])
  then show "at_checkpoint c" by (simp add: c at_checkpoint_swap)
qed



end
